(* ===== verification/Rust_Prelude.thy ===== *)
theory Rust_Prelude
  imports Main "HOL-Library.Word" "HOL-Library.List_Lexorder" "HOL-Library.Char_ord"
    "HOL-Library.Sublist"
begin

section \<open>Rust values and the standard-library operations the crate uses\<close>

text \<open>
  Shared by every component: machine integers as words, a Rust \<open>str\<close> as the list of its
  bytes, \<open>Result\<close> as a sum (\<open>Inl\<close> the error), UTF-8 validation
  (\<^verbatim>\<open>std::str::from_utf8\<close>), the string searches and splits of
  \<open>str\<close>, and the decimal and hexadecimal renderings \<^verbatim>\<open>format!\<close> produces.
  The target is 64-bit: a \<open>usize\<close> is a \<open>nat\<close> below \<open>2 ^ 64\<close>. The list, string and
  word lemmas the components share are proved here.
\<close>

named_theorems wire_simps \<open>equations that evaluate the framing definitions\<close>
named_theorems codec_laws \<open>round trips of encoders and decoders\<close>

type_synonym u8 = "8 word"
type_synonym u32 = "32 word"
type_synonym u64 = "64 word"
type_synonym bytes = "u8 list"

subsection \<open>Strings as bytes\<close>

text \<open>
  A \<open>char\<close> of HOL is one byte, so \<open>string\<close> is the byte sequence of a Rust string:
  \<open>length\<close> is \<^verbatim>\<open>str::len\<close> and the order of \<open>HOL-Library.List_Lexorder\<close> is
  \<^verbatim>\<open>str\<close>'s \<^verbatim>\<open>Ord\<close> (bytewise lexicographic).
\<close>

definition byte_of_char :: "char \<Rightarrow> u8" where
  "byte_of_char c = word_of_nat (of_char c)"

definition char_of_byte :: "u8 \<Rightarrow> char" where
  "char_of_byte b = char_of (unat b)"

definition str_bytes :: "string \<Rightarrow> bytes" where
  "str_bytes s = map byte_of_char s"

definition bytes_str :: "bytes \<Rightarrow> string" where
  "bytes_str bs = map char_of_byte bs"

lemma unat_byte_of_char: "unat (byte_of_char c) = of_char c"
proof -
  have "(of_char c :: nat) < 256" by simp
  then show ?thesis by (simp add: byte_of_char_def unat_of_nat)
qed

lemma char_of_byte_of_char [simp]: "char_of_byte (byte_of_char c) = c"
  by (simp add: char_of_byte_def unat_byte_of_char)

lemma byte_of_char_of_byte [simp]: "byte_of_char (char_of_byte b) = b"
proof -
  have "unat b < 256" using unsigned_less [of b, where ?'a = nat] by simp
  then show ?thesis by (simp add: byte_of_char_def char_of_byte_def)
qed

lemma bytes_str_bytes [simp]: "bytes_str (str_bytes s) = s"
  by (simp add: bytes_str_def str_bytes_def comp_def)

lemma str_bytes_str [simp]: "str_bytes (bytes_str bs) = bs"
  by (simp add: bytes_str_def str_bytes_def comp_def)

lemma length_str_bytes [simp]: "length (str_bytes s) = length s"
  by (simp add: str_bytes_def)

lemma length_bytes_str [simp]: "length (bytes_str bs) = length bs"
  by (simp add: bytes_str_def)

lemma str_bytes_append [simp]: "str_bytes (s @ t) = str_bytes s @ str_bytes t"
  by (simp add: str_bytes_def)

lemma str_bytes_inject [simp]: "str_bytes s = str_bytes t \<longleftrightarrow> s = t"
  by (metis bytes_str_bytes)

subsection \<open>UTF-8 validation\<close>

text \<open>
  \<^verbatim>\<open>std::str::from_utf8\<close>: one scalar value per step, by the table of
  well-formed byte sequences; the first bad sequence is reported by its offset
  (\<^verbatim>\<open>valid_up_to\<close>) and its length (\<^verbatim>\<open>error_len\<close>, \<open>None\<close> when the
  input ends inside a sequence). \<open>Follow k\<close> says that \<open>k\<close> more bytes belong to the scalar.
\<close>

datatype utf8_step = Follow nat | Bad "nat option"

record utf8_error =
  valid_up_to :: nat
  error_len :: "nat option"

definition in_range :: "u8 \<Rightarrow> u8 \<Rightarrow> u8 \<Rightarrow> bool" where
  "in_range lo hi b \<longleftrightarrow> lo \<le> b \<and> b \<le> hi"

definition is_cont :: "u8 \<Rightarrow> bool" where
  "is_cont b \<longleftrightarrow> in_range 0x80 0xBF b"

definition second_ok3 :: "u8 \<Rightarrow> u8 \<Rightarrow> bool" where
  "second_ok3 a b \<longleftrightarrow>
     (a = 0xE0 \<and> in_range 0xA0 0xBF b) \<or> (in_range 0xE1 0xEC a \<and> is_cont b) \<or>
     (a = 0xED \<and> in_range 0x80 0x9F b) \<or> (in_range 0xEE 0xEF a \<and> is_cont b)"

definition second_ok4 :: "u8 \<Rightarrow> u8 \<Rightarrow> bool" where
  "second_ok4 a b \<longleftrightarrow>
     (a = 0xF0 \<and> in_range 0x90 0xBF b) \<or> (in_range 0xF1 0xF3 a \<and> is_cont b) \<or>
     (a = 0xF4 \<and> in_range 0x80 0x8F b)"

fun conts :: "nat \<Rightarrow> nat \<Rightarrow> bytes \<Rightarrow> utf8_step" where
  "conts seen 0 bs = Follow seen"
| "conts seen (Suc n) [] = Bad None"
| "conts seen (Suc n) (b # bs) =
     (if is_cont b then conts (Suc seen) n bs else Bad (Some (Suc seen)))"

definition utf8_char :: "u8 \<Rightarrow> bytes \<Rightarrow> utf8_step" where
  "utf8_char a bs =
     (if a < 0x80 then Follow 0
      else if in_range 0xC2 0xDF a then conts 0 1 bs
      else if in_range 0xE0 0xEF a then
        (case bs of [] \<Rightarrow> Bad None
         | b # bs' \<Rightarrow> if second_ok3 a b then conts 1 1 bs' else Bad (Some 1))
      else if in_range 0xF0 0xF4 a then
        (case bs of [] \<Rightarrow> Bad None
         | b # bs' \<Rightarrow> if second_ok4 a b then conts 1 2 bs' else Bad (Some 1))
      else Bad (Some 1))"

function utf8_scan :: "nat \<Rightarrow> bytes \<Rightarrow> utf8_error option" where
  "utf8_scan i [] = None"
| "utf8_scan i (a # bs) =
     (case utf8_char a bs of
        Bad n \<Rightarrow> Some \<lparr>valid_up_to = i, error_len = n\<rparr>
      | Follow k \<Rightarrow> utf8_scan (i + 1 + k) (drop k bs))"
  by pat_completeness auto
termination
  by (relation "measure (\<lambda>(i, bs). length bs)") auto

definition from_utf8 :: "bytes \<Rightarrow> utf8_error + string" where
  "from_utf8 bs = (case utf8_scan 0 bs of None \<Rightarrow> Inr (bytes_str bs) | Some e \<Rightarrow> Inl e)"

text \<open>A HOL string that is a Rust string: its bytes are well-formed UTF-8.\<close>

definition rust_str :: "string \<Rightarrow> bool" where
  "rust_str s \<longleftrightarrow> utf8_scan 0 (str_bytes s) = None"

lemma conts_append: "conts seen n bs = Follow k \<Longrightarrow> conts seen n (bs @ cs) = Follow k"
  by (induction seen n bs rule: conts.induct) (auto split: if_splits)

lemma conts_length: "conts seen n bs = Follow k \<Longrightarrow> k = seen + n \<and> n \<le> length bs"
  by (induction seen n bs rule: conts.induct) (auto split: if_splits)

lemma utf8_char_append:
  "utf8_char a bs = Follow k \<Longrightarrow> utf8_char a (bs @ cs) = Follow k"
  by (auto simp: utf8_char_def conts_append split: if_splits list.splits)

lemma utf8_char_length: "utf8_char a bs = Follow k \<Longrightarrow> k \<le> length bs"
  by (auto simp: utf8_char_def split: if_splits list.splits dest!: conts_length)

lemma utf8_scan_shift1: "utf8_scan i bs = None \<Longrightarrow> utf8_scan j bs = None"
proof (induction i bs arbitrary: j rule: utf8_scan.induct)
  case (1 i)
  then show ?case by simp
next
  case (2 i a bs)
  from "2.prems" obtain k where k: "utf8_char a bs = Follow k"
    and rest: "utf8_scan (i + 1 + k) (drop k bs) = None"
    by (auto split: utf8_step.splits)
  from "2.IH" [OF k rest] k show ?case by simp
qed

lemma utf8_scan_shift: "utf8_scan i bs = None \<longleftrightarrow> utf8_scan j bs = None"
  using utf8_scan_shift1 by blast

lemma utf8_scan_append:
  "utf8_scan i bs = None \<Longrightarrow> utf8_scan i (bs @ cs) = utf8_scan (i + length bs) cs"
proof (induction i bs rule: utf8_scan.induct)
  case (1 i)
  then show ?case by simp
next
  case (2 i a bs)
  from "2.prems" obtain k where k: "utf8_char a bs = Follow k"
    and rest: "utf8_scan (i + 1 + k) (drop k bs) = None"
    by (auto split: utf8_step.splits)
  from utf8_char_append [OF k, of cs] utf8_char_length [OF k] "2.IH" [OF k rest] show ?case
    by simp
qed

lemma rust_str_append: "rust_str s \<Longrightarrow> rust_str t \<Longrightarrow> rust_str (s @ t)"
  using utf8_scan_shift [of 0 "str_bytes t" "length s"]
  by (simp add: rust_str_def utf8_scan_append)

lemma from_utf8_str [simp]: "rust_str s \<Longrightarrow> from_utf8 (str_bytes s) = Inr s"
  by (simp add: rust_str_def from_utf8_def)

lemma from_utf8_Inr: "from_utf8 bs = Inr s \<Longrightarrow> bs = str_bytes s \<and> rust_str s"
  by (auto simp: from_utf8_def rust_str_def split: option.splits)

lemma rust_str_ascii: "\<forall>c \<in> set s. byte_of_char c < 0x80 \<Longrightarrow> rust_str s"
proof -
  have "\<forall>c \<in> set s. byte_of_char c < 0x80 \<Longrightarrow> utf8_scan i (str_bytes s) = None" for i
    by (induction s arbitrary: i) (simp_all add: str_bytes_def utf8_char_def)
  then show "\<forall>c \<in> set s. byte_of_char c < 0x80 \<Longrightarrow> rust_str s"
    by (simp add: rust_str_def)
qed

subsection \<open>Searching and splitting strings\<close>

text \<open>
  \<^verbatim>\<open>str::find(c)\<close> followed by the two slices around the hit is \<open>split_once\<close>;
  \<^verbatim>\<open>splitn(n, c)\<close> is the list its iterator yields; \<^verbatim>\<open>starts_with\<close> and
  \<^verbatim>\<open>ends_with\<close> are \<open>prefix\<close> and \<open>suffix\<close>. The separators of this crate are
  ASCII, so bytes and characters agree.
\<close>

fun split_once :: "char \<Rightarrow> string \<Rightarrow> (string \<times> string) option" where
  "split_once c [] = None"
| "split_once c (x # xs) =
     (if x = c then Some ([], xs)
      else case split_once c xs of None \<Rightarrow> None | Some (a, b) \<Rightarrow> Some (x # a, b))"

fun splitn :: "nat \<Rightarrow> char \<Rightarrow> string \<Rightarrow> string list" where
  "splitn 0 c s = []"
| "splitn (Suc 0) c s = [s]"
| "splitn (Suc (Suc n)) c s =
     (case split_once c s of None \<Rightarrow> [s] | Some (a, b) \<Rightarrow> a # splitn (Suc n) c b)"

definition strip_prefix :: "string \<Rightarrow> string \<Rightarrow> string option" where
  "strip_prefix p s = (if prefix p s then Some (drop (length p) s) else None)"

lemma split_once_None [simp]: "split_once c s = None \<longleftrightarrow> c \<notin> set s"
  by (induction s) (auto split: option.splits)

lemma split_once_notin [simp]: "c \<notin> set s \<Longrightarrow> split_once c s = None"
  by simp

lemma split_once_append [simp]: "c \<notin> set a \<Longrightarrow> split_once c (a @ c # b) = Some (a, b)"
  by (induction a) auto

lemma split_once_SomeD: "split_once c s = Some (a, b) \<Longrightarrow> s = a @ c # b \<and> c \<notin> set a"
  by (induction s arbitrary: a b) (auto split: if_splits option.splits)

lemma split_once_Some: "split_once c s = Some (a, b) \<longleftrightarrow> s = a @ c # b \<and> c \<notin> set a"
  by (auto dest: split_once_SomeD)

lemma strip_prefix_append [simp]: "strip_prefix p (p @ s) = Some s"
  by (simp add: strip_prefix_def)

lemma strip_prefix_Some: "strip_prefix p s = Some t \<longleftrightarrow> s = p @ t"
  by (auto simp: strip_prefix_def prefix_def)

subsection \<open>Rendering numbers\<close>

text \<open>\<open>show_nat\<close> is \<^verbatim>\<open>{}\<close> of an unsigned integer, \<open>hex02\<close> is \<^verbatim>\<open>{:02x}\<close> of a byte.\<close>

definition digit_char :: "nat \<Rightarrow> char" where
  "digit_char d = char_of (if d < 10 then 48 + d else 87 + d)"

fun show_nat :: "nat \<Rightarrow> string" where
  "show_nat n =
     (if n < 10 then [digit_char n] else show_nat (n div 10) @ [digit_char (n mod 10)])"

declare show_nat.simps [simp del]

definition hex02 :: "u8 \<Rightarrow> string" where
  "hex02 b = [digit_char (unat b div 16), digit_char (unat b mod 16)]"

text \<open>Rust's \<^verbatim>\<open>{}\<close> of a \<^verbatim>\<open>Utf8Error\<close>.\<close>

definition show_utf8_error :: "utf8_error \<Rightarrow> string" where
  "show_utf8_error e =
     (case error_len e of
        Some n \<Rightarrow> ''invalid utf-8 sequence of '' @ show_nat n @ '' bytes from index '' @
                  show_nat (valid_up_to e)
      | None \<Rightarrow> ''incomplete utf-8 byte sequence from index '' @ show_nat (valid_up_to e))"

subsection \<open>Integer conversions\<close>

text \<open>
  \<^verbatim>\<open>u64::try_from(usize)\<close>: total on a 64-bit target; the failing branch is kept because a
  HOL list can be longer than any Rust buffer. The error text is that of
  \<^verbatim>\<open>TryFromIntError\<close>.
\<close>

definition u64_try_from :: "nat \<Rightarrow> string + u64" where
  "u64_try_from n =
     (if n < 2 ^ 64 then Inr (word_of_nat n)
      else Inl ''out of range integral type conversion attempted'')"

definition usize_try_from :: "u64 \<Rightarrow> string + nat" where
  "usize_try_from w = Inr (unat w)"

definition checked_add_usize :: "nat \<Rightarrow> nat \<Rightarrow> nat option" where
  "checked_add_usize a b = (if a + b < 2 ^ 64 then Some (a + b) else None)"

lemma u64_try_from_small: "n < 2 ^ 64 \<Longrightarrow> u64_try_from n = Inr (word_of_nat n)"
  by (simp add: u64_try_from_def)

lemma unat_word_of_nat64: "n < 2 ^ 64 \<Longrightarrow> unat (word_of_nat n :: u64) = n"
  by (simp add: unat_of_nat)

lemma unat_u64_less: "unat (w :: u64) < 18446744073709551616"
  using unsigned_less [of w, where ?'a = nat] by simp

lemma unat_u8_less: "unat (b :: u8) < 256"
  using unsigned_less [of b, where ?'a = nat] by simp

subsection \<open>Lists\<close>

lemma take_length_append [simp]: "take (length xs) (xs @ ys) = xs"
  by simp

lemma map_fst_Cons_subset: "x \<in> set (map fst ((k, v) # al)) \<longleftrightarrow> x = k \<or> x \<in> fst ` set al"
  by auto

end
