(* ===== verification/Context.thy ===== *)
theory Context
  imports Rust_Prelude
begin

section \<open>context.rs: the per-request context\<close>

text \<open>
  The records a handler receives. A node id is represented by its 32 bytes
  (\<^verbatim>\<open>PublicKey::as_bytes\<close>), a UUID by its 128 bits. Random UUIDs and the loopback
  identity, which third-party crates compute, are arguments.
\<close>

type_synonym node_id = bytes
type_synonym uuid = "128 word"

record peer_metadata =
  pm_node_id :: node_id
  pm_connection_id :: u64
  pm_stream_id :: u64
  pm_alpn :: bytes
  pm_handshake_at_ms :: int
  pm_tls_cipher_suite :: "string option"

record authenticated_context =
  ac_node_id :: node_id
  ac_master_pubkey :: bytes
  ac_user_id :: uuid
  ac_device_id :: uuid
  ac_scopes :: "string list"
  ac_registered_at_ms :: int
  ac_last_seen_at_ms :: int

record session_info =
  si_session_id :: uuid
  si_session_started_at_ms :: int
  si_last_activity_ms :: int
  si_keepalive_count :: u32

record timing_info =
  ti_received_at_ms :: int
  ti_received_at_monotonic_ns :: u64
  ti_frame_decode_duration_us :: u64

record tracing_info =
  tr_trace_id :: uuid
  tr_span_id :: uuid
  tr_parent_span_id :: "uuid option"
  tr_correlation_id :: "uuid option"
  tr_sampled :: bool

record rpc_context =
  ctx_peer :: peer_metadata
  ctx_timing :: timing_info
  ctx_auth :: "authenticated_context option"
  ctx_session :: "session_info option"
  ctx_tracing :: tracing_info

definition peer_loopback :: "node_id \<Rightarrow> peer_metadata" where
  "peer_loopback loopback_node_id = \<lparr>pm_node_id = loopback_node_id, pm_connection_id = 0,
     pm_stream_id = 0, pm_alpn = str_bytes ''nerw-rpc/1'', pm_handshake_at_ms = 0,
     pm_tls_cipher_suite = None\<rparr>"

definition has_scope :: "authenticated_context \<Rightarrow> string \<Rightarrow> bool" where
  "has_scope auth scope \<longleftrightarrow> list_ex (\<lambda>s. s = scope) (ac_scopes auth)"

definition timing_zero :: timing_info where
  "timing_zero = \<lparr>ti_received_at_ms = 0, ti_received_at_monotonic_ns = 0,
     ti_frame_decode_duration_us = 0\<rparr>"

text \<open>The two fresh ids are the results of \<^verbatim>\<open>Uuid::new_v4()\<close>.\<close>

definition tracing_fresh :: "uuid \<times> uuid \<Rightarrow> tracing_info" where
  "tracing_fresh ids = \<lparr>tr_trace_id = fst ids, tr_span_id = snd ids, tr_parent_span_id = None,
     tr_correlation_id = None, tr_sampled = False\<rparr>"

definition rpc_context_minimal :: "uuid \<times> uuid \<Rightarrow> peer_metadata \<Rightarrow> rpc_context" where
  "rpc_context_minimal ids peer = \<lparr>ctx_peer = peer, ctx_timing = timing_zero, ctx_auth = None,
     ctx_session = None, ctx_tracing = tracing_fresh ids\<rparr>"

end
