(* ===== verification/Quic.thy ===== *)
theory Quic
  imports Rust_Prelude
begin

section \<open>The QUIC stream interface\<close>

text \<open>
  \<^verbatim>\<open>iroh::endpoint::RecvStream\<close> and \<^verbatim>\<open>SendStream\<close> are third-party. Each is a
  record of the operations the crate calls, a parameter of every definition that reads or
  writes a stream; the stream itself is an abstract value the operations thread through. The
  locales state what their documentation promises: \<open>content\<close> is what the peer will still
  deliver and \<open>ended\<close> how the stream ends after it (\<open>None\<close>: the peer finished it);
  \<open>written\<close> is what has been accepted for sending. The byte-buffer streams at the end of the
  theory satisfy both contracts; witnesses use them.
\<close>

datatype read_error = ClosedStream | OtherReadError string

datatype read_exact_error = FinishedEarly nat | ReadError read_error

record 'r recv_ops =
  rx_exact :: "'r \<Rightarrow> nat \<Rightarrow> (read_exact_error + bytes) \<times> 'r"
  rx_to_end :: "'r \<Rightarrow> nat \<Rightarrow> (string + bytes) \<times> 'r"
  rx_show :: "read_exact_error \<Rightarrow> string"
  rx_show_read :: "read_error \<Rightarrow> string"

record 't send_ops =
  tx_write :: "'t \<Rightarrow> bytes \<Rightarrow> (string + unit) \<times> 't"
  tx_finish :: "'t \<Rightarrow> (string + unit) \<times> 't"

locale quic_recv =
  fixes R :: "'r recv_ops"
    and content :: "'r \<Rightarrow> bytes"
    and ended :: "'r \<Rightarrow> read_error option"
  assumes exact_ok: "n \<le> length (content r) \<Longrightarrow>
      \<exists>r'. rx_exact R r n = (Inr (take n (content r)), r') \<and>
           content r' = drop n (content r) \<and> ended r' = ended r"
    and exact_finished: "length (content r) < n \<Longrightarrow> ended r = None \<Longrightarrow>
      \<exists>r'. rx_exact R r n = (Inl (FinishedEarly (length (content r))), r')"
    and exact_failed: "length (content r) < n \<Longrightarrow> ended r = Some e \<Longrightarrow>
      \<exists>r'. rx_exact R r n = (Inl (ReadError e), r')"
    and to_end_ok: "length (content r) \<le> lim \<Longrightarrow> ended r = None \<Longrightarrow>
      \<exists>r'. rx_to_end R r lim = (Inr (content r), r')"
    and to_end_long: "lim < length (content r) \<Longrightarrow> \<exists>e r'. rx_to_end R r lim = (Inl e, r')"
    and to_end_failed: "ended r = Some e \<Longrightarrow> \<exists>m r'. rx_to_end R r lim = (Inl m, r')"
begin

lemma exact_one:
  assumes "content r = b # bs"
  obtains r' where "rx_exact R r (Suc 0) = (Inr [b], r')" "content r' = bs" "ended r' = ended r"
  using exact_ok [of "Suc 0" r] assms by auto

lemma exact_append:
  assumes "content r = bs @ rest"
  obtains r' where "rx_exact R r (length bs) = (Inr bs, r')" "content r' = rest"
    "ended r' = ended r"
  using exact_ok [of "length bs" r] assms by auto

lemma exact_short:
  assumes "length (content r) < n"
  obtains r' where "rx_exact R r n =
    (Inl (case ended r of None \<Rightarrow> FinishedEarly (length (content r)) | Some e \<Rightarrow> ReadError e), r')"
  using exact_finished [OF assms] exact_failed [OF assms] by (cases "ended r") auto

lemma exact_cases:
  obtains (ok) r' where "rx_exact R r n = (Inr (take n (content r)), r')" "n \<le> length (content r)"
      "content r' = drop n (content r)" "ended r' = ended r"
    | (short) e r' where "rx_exact R r n = (Inl e, r')" "length (content r) < n"
proof (cases "n \<le> length (content r)")
  case True
  from exact_ok [OF this] show ?thesis using True ok by blast
next
  case False
  then have "length (content r) < n" by simp
  from exact_short [OF this] show ?thesis using \<open>length (content r) < n\<close> short by blast
qed

end

locale quic_send =
  fixes T :: "'t send_ops"
    and written :: "'t \<Rightarrow> bytes"
    and closed :: "'t \<Rightarrow> bool"
    and healthy :: "'t \<Rightarrow> bool"
  assumes write_ok: "tx_write T t bs = (Inr (), t') \<Longrightarrow>
      written t' = written t @ bs \<and> closed t' = closed t"
    and write_err: "tx_write T t bs = (Inl e, t') \<Longrightarrow>
      (\<exists>k. written t' = written t @ take k bs) \<and> closed t' = closed t"
    and finish_ok: "tx_finish T t = (Inr (), t') \<Longrightarrow> written t' = written t \<and> closed t'"
    and finish_err: "tx_finish T t = (Inl e, t') \<Longrightarrow> written t' = written t"
    and healthy_write: "healthy t \<Longrightarrow> \<exists>t'. tx_write T t bs = (Inr (), t') \<and> healthy t'"
    and healthy_finish: "healthy t \<Longrightarrow> \<exists>t'. tx_finish T t = (Inr (), t')"
begin

lemma healthy_write_obtain:
  assumes "healthy t"
  obtains t' where "tx_write T t bs = (Inr (), t')" "healthy t'" "written t' = written t @ bs"
    "closed t' = closed t"
  using healthy_write [OF assms, of bs] write_ok by blast

lemma healthy_finish_obtain:
  assumes "healthy t"
  obtains t' where "tx_finish T t = (Inr (), t')" "written t' = written t" "closed t'"
  using healthy_finish [OF assms] finish_ok by blast

lemma write_prefix:
  "tx_write T t bs = (res, t') \<Longrightarrow> \<exists>k. written t' = written t @ take k bs"
  using write_ok [of t bs t'] write_err [of t bs _ t']
  by (cases res) (auto intro: exI [of _ "length bs"])

lemma finish_written: "tx_finish T t = (res, t') \<Longrightarrow> written t' = written t"
  using finish_ok [of t t'] finish_err [of t _ t'] by (cases res) auto

end

subsection \<open>Byte-buffer streams\<close>

record rx_buf =
  rb_data :: bytes
  rb_end :: "read_error option"

record tx_buf =
  tb_out :: bytes
  tb_closed :: bool
  tb_broken :: bool

definition buf_exact :: "rx_buf \<Rightarrow> nat \<Rightarrow> (read_exact_error + bytes) \<times> rx_buf" where
  "buf_exact r n =
     (if n \<le> length (rb_data r) then (Inr (take n (rb_data r)), r\<lparr>rb_data := drop n (rb_data r)\<rparr>)
      else (Inl (case rb_end r of None \<Rightarrow> FinishedEarly (length (rb_data r))
                 | Some e \<Rightarrow> ReadError e), r\<lparr>rb_data := []\<rparr>))"

definition buf_to_end :: "rx_buf \<Rightarrow> nat \<Rightarrow> (string + bytes) \<times> rx_buf" where
  "buf_to_end r lim =
     (if lim < length (rb_data r) then (Inl ''read too long'', r)
      else case rb_end r of None \<Rightarrow> (Inr (rb_data r), r\<lparr>rb_data := []\<rparr>)
           | Some _ \<Rightarrow> (Inl ''read error'', r\<lparr>rb_data := []\<rparr>))"

definition buf_recv :: "rx_buf recv_ops" where
  "buf_recv = \<lparr>rx_exact = buf_exact, rx_to_end = buf_to_end,
     rx_show = (\<lambda>_. ''read exact error''), rx_show_read = (\<lambda>_. ''read error'')\<rparr>"

definition buf_send :: "tx_buf send_ops" where
  "buf_send = \<lparr>
     tx_write = (\<lambda>t bs. if tb_closed t \<or> tb_broken t then (Inl ''closed stream'', t)
                        else (Inr (), t\<lparr>tb_out := tb_out t @ bs\<rparr>)),
     tx_finish = (\<lambda>t. if tb_closed t \<or> tb_broken t then (Inl ''closed stream'', t)
                      else (Inr (), t\<lparr>tb_closed := True\<rparr>))\<rparr>"

definition rx_of :: "bytes \<Rightarrow> rx_buf" where
  "rx_of bs = \<lparr>rb_data = bs, rb_end = None\<rparr>"

definition tx_new :: tx_buf where
  "tx_new = \<lparr>tb_out = [], tb_closed = False, tb_broken = False\<rparr>"

definition tx_healthy :: "tx_buf \<Rightarrow> bool" where
  "tx_healthy t \<longleftrightarrow> \<not> tb_closed t \<and> \<not> tb_broken t"

interpretation buf_rx: quic_recv buf_recv rb_data rb_end
  by unfold_locales (auto simp: buf_recv_def buf_exact_def buf_to_end_def split: option.splits)

interpretation buf_tx: quic_send buf_send tb_out tb_closed tx_healthy
  by unfold_locales (auto simp: buf_send_def tx_healthy_def split: if_splits intro: exI [of _ 0])

lemmas buf_stream_defs = buf_recv_def buf_exact_def buf_to_end_def buf_send_def rx_of_def
  tx_new_def tx_healthy_def

end
