(* ===== verification/Rpc_Error.thy ===== *)
theory Rpc_Error
  imports Rust_Prelude
begin

section \<open>error.rs: the error type of the crate\<close>

text \<open>
  \<^verbatim>\<open>RpcError\<close> with one constructor per variant. A \<^verbatim>\<open>postcard::Error\<close> and
  the boxed error of \<^verbatim>\<open>Handler\<close> are opaque to the crate, which only renders them:
  both are represented by their \<^verbatim>\<open>Display\<close> text. \<open>rpc_display\<close> is the
  \<^verbatim>\<open>Display\<close> that \<^verbatim>\<open>thiserror\<close> derives from the \<^verbatim>\<open>#[error]\<close>
  attributes; the quoting of one string by \<^verbatim>\<open>{:?}\<close> depends on the Unicode tables of std
  and is the parameter \<open>dbg\<close>.
\<close>

type_synonym postcard_error = string

datatype rpc_error =
    Codec postcard_error
  | MalformedFrame string
  | UnknownMethod string
  | InvalidMethodName string
  | VersionMismatch string "string list"
  | Handler string
  | TransportOpenSubstream string string
  | TransportRegisterAlpn string string
  | TransportRead string
  | TransportWrite string
  | DatagramStreamIdCollision u64
  | DatagramStreamIdUnknown u64
  | DatagramTooShort nat
  | AlreadyServing

type_synonym 'a rpc_result = "rpc_error + 'a"

fun join_with :: "string \<Rightarrow> string list \<Rightarrow> string" where
  "join_with sep [] = []"
| "join_with sep [x] = x"
| "join_with sep (x # xs) = x @ sep @ join_with sep xs"

definition debug_list :: "(string \<Rightarrow> string) \<Rightarrow> string list \<Rightarrow> string" where
  "debug_list dbg xs = ''['' @ join_with '', '' (map dbg xs) @ '']''"

fun rpc_display :: "(string \<Rightarrow> string) \<Rightarrow> rpc_error \<Rightarrow> string" where
  "rpc_display dbg (Codec e) = ''codec error: '' @ e"
| "rpc_display dbg (MalformedFrame m) = ''malformed wire frame: '' @ m"
| "rpc_display dbg (UnknownMethod m) = ''unknown method: '' @ m"
| "rpc_display dbg (InvalidMethodName m) =
     ''invalid method-name format: expected `package[@version]/interface/method`, got `'' @ m @ ''`''"
| "rpc_display dbg (VersionMismatch requested available) =
     ''version mismatch: requested '' @ requested @ '', available '' @ debug_list dbg available"
| "rpc_display dbg (Handler e) = ''handler error: '' @ e"
| "rpc_display dbg (TransportOpenSubstream node_id reason) =
     ''transport: failed to open substream to peer '' @ node_id @ '': '' @ reason"
| "rpc_display dbg (TransportRegisterAlpn alpn reason) =
     ''transport: failed to register ALPN handler '' @ [CHR 0x27] @ alpn @
     [CHR 0x27] @ '': '' @ reason"
| "rpc_display dbg (TransportRead reason) = ''transport: read failed: '' @ reason"
| "rpc_display dbg (TransportWrite reason) = ''transport: write failed: '' @ reason"
| "rpc_display dbg (DatagramStreamIdCollision sid) =
     ''datagram: stream-id '' @ show_nat (unat sid) @ '' already registered''"
| "rpc_display dbg (DatagramStreamIdUnknown sid) =
     ''datagram: stream-id '' @ show_nat (unat sid) @ '' not registered''"
| "rpc_display dbg (DatagramTooShort len) =
     ''datagram: too short ('' @ show_nat len @
     '' bytes), need at least 1 byte for varint stream-id prefix''"
| "rpc_display dbg AlreadyServing =
     ''RpcServer::serve() called twice '' @ map char_of_byte [0xE2, 0x80, 0x94] @
     '' accept loop already running''"

text \<open>Only a \<^verbatim>\<open>Handler\<close> error renders with the prefix the client strips again.\<close>

lemma rpc_display_handler_prefix:
  "prefix ''handler error: '' (rpc_display dbg e) \<longleftrightarrow> (\<exists>m. e = Handler m)"
  by (cases e) (simp_all add: prefix_def)

end
