(* ===== verification/Varint.thy ===== *)
theory Varint
  imports Quic Rpc_Error
begin

unbundle bit_operations_syntax

section \<open>LEB128 varints\<close>

text \<open>
  The crate uses the third-party crate \<^verbatim>\<open>leb128\<close> to write varints and, on slices, to
  read them; from an asynchronous stream it reads them with its own loop
  (\<^verbatim>\<open>streaming.rs\<close>, \<^verbatim>\<open>read_varint_u64\<close>). The third-party functions are a
  record, a parameter; \<open>uleb\<close> is the format the LEB128 documentation defines, and the locale
  \<open>leb128_codec\<close> states that the crate implements it. The code's own decoder together with
  the format's encoder satisfies the locale.
\<close>

subsection \<open>The format\<close>

fun uleb :: "nat \<Rightarrow> bytes" where
  "uleb n =
     (if n < 128 then [word_of_nat n]
      else word_of_nat (n mod 128 + 128) # uleb (n div 128))"

declare uleb.simps [simp del]

lemma uleb_small [wire_simps]: "n < 128 \<Longrightarrow> uleb n = [word_of_nat n]"
  by (simp add: uleb.simps)

lemma uleb_big: "128 \<le> n \<Longrightarrow> uleb n = word_of_nat (n mod 128 + 128) # uleb (n div 128)"
  by (simp add: uleb.simps [of n])

lemma uleb_neq_Nil [simp]: "uleb n \<noteq> []"
  by (subst uleb.simps) simp

lemma length_uleb_pos: "0 < length (uleb n)"
  by simp

lemma length_uleb_bound: "n < 128 ^ k \<Longrightarrow> 0 < k \<Longrightarrow> length (uleb n) \<le> k"
proof (induction k arbitrary: n)
  case 0
  then show ?case by simp
next
  case (Suc k)
  show ?case
  proof (cases "n < 128")
    case True
    then show ?thesis by (simp add: uleb_small)
  next
    case False
    have "n div 128 < 128 ^ k"
      using Suc.prems(1) by (simp add: less_mult_imp_div_less mult.commute)
    moreover from False Suc.prems(1) have "0 < k"
      by (cases k) auto
    ultimately have "length (uleb (n div 128)) \<le> k" by (rule Suc.IH)
    with False show ?thesis by (simp add: uleb_big)
  qed
qed

lemma length_uleb_u64: "length (uleb (unat (v :: u64))) \<le> 10"
proof -
  have "unat v < 128 ^ 10" using unat_u64_less [of v] by simp
  then show ?thesis by (rule length_uleb_bound) simp
qed

lemma unat_low_byte: "n < 256 \<Longrightarrow> unat (word_of_nat n :: u8) = n"
  by (simp add: unat_of_nat)

subsection \<open>The third-party crate\<close>

record leb128 =
  leb_write :: "u64 \<Rightarrow> string + bytes"
  leb_read :: "bytes \<Rightarrow> string + (u64 \<times> nat)"

text \<open>
  \<open>leb_write\<close> gives the bytes appended to the buffer; \<open>leb_read\<close> the value and the position
  of the cursor after it. A slice with no terminating byte has no varint (end of file).
\<close>

locale leb128_codec =
  fixes L :: leb128
  assumes write_uleb: "leb_write L v = Inr (uleb (unat v))"
    and read_uleb: "leb_read L (uleb (unat v) @ rest) = Inr (v, length (uleb (unat v)))"
    and read_bound: "leb_read L bs = Inr (v, n) \<Longrightarrow> 0 < n \<and> n \<le> length bs"
    and read_open: "\<forall>b \<in> set bs. 128 \<le> unat b \<Longrightarrow> \<exists>e. leb_read L bs = Inl e"
begin

lemma read_nil: "\<exists>e. leb_read L [] = Inl e"
  by (rule read_open) simp

lemma read_write:
  "leb_write L v = Inr bs \<Longrightarrow> leb_read L (bs @ rest) = Inr (v, length bs)"
  by (auto simp: write_uleb read_uleb)

lemma write_nonempty: "leb_write L v = Inr bs \<Longrightarrow> bs \<noteq> []"
  by (auto simp: write_uleb)

end

subsection \<open>The code's decoder over a stream\<close>

text \<open>
  \<^verbatim>\<open>checked_shl\<close> fails only when the shift amount reaches the width; the bits shifted
  out are lost without an error, as in the code. The loop counter is \<open>shift\<close>, the number of
  iterations left is \<open>10 - shift\<close>.
\<close>

definition checked_shl :: "u64 \<Rightarrow> nat \<Rightarrow> u64 option" where
  "checked_shl w n = (if n < 64 then Some (push_bit n w) else None)"

definition checked_add_u64 :: "u64 \<Rightarrow> u64 \<Rightarrow> u64 option" where
  "checked_add_u64 a b = (if unat a + unat b < 2 ^ 64 then Some (a + b) else None)"

fun read_varint_loop ::
  "'r recv_ops \<Rightarrow> nat \<Rightarrow> nat \<Rightarrow> u64 \<Rightarrow> 'r \<Rightarrow> u64 rpc_result \<times> 'r" where
  "read_varint_loop R 0 shift result r =
     (Inl (MalformedFrame ''streaming varint > 10 bytes''), r)"
| "read_varint_loop R (Suc left) shift result r =
     (case rx_exact R r 1 of
        (Inl e, r') \<Rightarrow> (Inl (TransportRead (''streaming varint: '' @ rx_show R e)), r')
      | (Inr buf, r') \<Rightarrow>
          (let byte = hd buf;
               lower = (ucast (byte AND 0x7F) :: u64)
           in case checked_shl lower (shift * 7) of
                None \<Rightarrow> (Inl (MalformedFrame ''streaming varint overflow''), r')
              | Some shifted \<Rightarrow>
                  (case checked_add_u64 result shifted of
                     None \<Rightarrow> (Inl (MalformedFrame ''streaming varint sum overflow''), r')
                   | Some result' \<Rightarrow>
                       if byte AND 0x80 = 0 then (Inr result', r')
                       else read_varint_loop R left (Suc shift) result' r')))"

definition read_varint_u64 :: "'r recv_ops \<Rightarrow> 'r \<Rightarrow> u64 rpc_result \<times> 'r" where
  "read_varint_u64 R r = read_varint_loop R 10 0 0 r"

definition encode_varint_u64 :: "leb128 \<Rightarrow> u64 \<Rightarrow> bytes \<Rightarrow> bytes rpc_result" where
  "encode_varint_u64 L value buf =
     (case leb_write L value of
        Inl e \<Rightarrow> Inl (MalformedFrame (''leb128 write streaming varint: '' @ e))
      | Inr bs \<Rightarrow> Inr (buf @ bs))"

subsection \<open>What the decoder computes\<close>

fun uval :: "bytes \<Rightarrow> nat" where
  "uval [] = 0"
| "uval (b # bs) = unat b mod 128 + 128 * uval bs"

fun varint_bytes :: "bytes \<Rightarrow> bool" where
  "varint_bytes [] = False"
| "varint_bytes [b] = (unat b < 128)"
| "varint_bytes (b # bs) = (128 \<le> unat b \<and> varint_bytes bs)"

lemma varint_bytes_Cons:
  "varint_bytes (b # bs) \<longleftrightarrow> (if bs = [] then unat b < 128 else 128 \<le> unat b \<and> varint_bytes bs)"
  by (cases bs) auto

text \<open>No varint is a proper prefix of another, so the header of a buffer is determined by the buffer.\<close>

lemma varint_bytes_unique:
  "varint_bytes vs \<Longrightarrow> varint_bytes ws \<Longrightarrow> vs @ xs = ws @ ys \<Longrightarrow> vs = ws \<and> xs = ys"
proof (induction vs arbitrary: ws)
  case Nil
  then show ?case by simp
next
  case (Cons b vs)
  then obtain ws' where ws: "ws = b # ws'" "vs @ xs = ws' @ ys" by (cases ws) auto
  show ?case
  proof (cases "vs = [] \<or> ws' = []")
    case True
    with Cons.prems ws show ?thesis by (cases vs; cases ws') simp_all
  next
    case False
    with Cons.prems(1,2) ws have "varint_bytes vs" "varint_bytes ws'" by (simp_all add: varint_bytes_Cons)
    from Cons.IH [OF this ws(2)] ws(1) show ?thesis by simp
  qed
qed

lemma varint_bytes_open: "varint_bytes vs \<Longrightarrow> \<not> (\<forall>b \<in> set (vs @ xs). 128 \<le> unat b)"
  by (induction vs) (auto simp: varint_bytes_Cons split: if_splits)

text \<open>
  The documentation of the crate promises more than the laws above: what is read is the number that the
  consumed bytes spell, also for an encoding longer than need be, and a number that does not fit is an error.
\<close>

locale leb128_exact = leb128_codec L for L :: leb128 +
  assumes read_value: "leb_read L bs = Inr (v, n) \<Longrightarrow>
    varint_bytes (take n bs) \<and> uval (take n bs) = unat v"
begin

lemma read_header:
  assumes "varint_bytes hdr" "leb_read L (hdr @ rest) = Inr (v, n)"
  shows "n = length hdr \<and> uval hdr = unat v"
proof -
  from read_value [OF assms(2)] have n: "varint_bytes (take n (hdr @ rest))" "uval (take n (hdr @ rest)) = unat v"
    by simp_all
  have "hdr @ rest = take n (hdr @ rest) @ drop n (hdr @ rest)" by (rule append_take_drop_id [symmetric])
  with varint_bytes_unique [OF assms(1) n(1)] have "take n (hdr @ rest) = hdr" by metis
  moreover have "length (take n (hdr @ rest)) = n" using read_bound [OF assms(2)] by (simp only: length_take min.absorb2)
  ultimately show ?thesis using n(2) by metis
qed

end

lemma low_bits_byte: "(ucast ((b :: u8) AND 0x7F) :: u64) = word_of_nat (unat b mod 128)"
proof -
  have "unat b AND 127 = take_bit 7 (unat b)"
    by (simp add: take_bit_eq_mask mask_eq_exp_minus_1)
  then have "unat (b AND 0x7F) = unat b mod 128"
    by (simp add: unsigned_and_eq take_bit_eq_mod)
  then show ?thesis by (metis of_nat_unat)
qed

lemma high_bit_byte: "(b :: u8) AND 0x80 = 0 \<longleftrightarrow> unat b < 128"
proof -
  have "b AND 0x80 = 0 \<longleftrightarrow> \<not> bit b 7"
    using and_exp_eq_0_iff_not_bit [of b 7] by simp
  also have "bit b 7 \<longleftrightarrow> bit (unat b) 7"
    by (simp add: bit_unsigned_iff)
  also have "\<dots> \<longleftrightarrow> odd (unat b div 128)"
    by (simp add: bit_iff_odd)
  also have "\<not> odd (unat b div 128) \<longleftrightarrow> unat b < 128"
  proof -
    have "unat b div 128 = 0 \<or> unat b div 128 = 1"
      using unat_u8_less [of b] by linarith
    moreover have "unat b div 128 = 0 \<longleftrightarrow> unat b < 128" by (simp add: div_eq_0_iff)
    ultimately show ?thesis by auto
  qed
  finally show ?thesis by simp
qed

text \<open>One iteration: the shift never reaches the width and the sum never overflows.\<close>

lemma pos_mod_bound_nat7: "(n :: nat) mod 128 \<le> 127"
  by linarith

lemma varint_step_value:
  fixes b :: u8 and result :: u64
  assumes s: "s \<le> 9" and res: "unat result < 2 ^ (7 * s)"
  defines "sh \<equiv> word_of_nat (unat b mod 128 * 2 ^ (7 * s)) :: u64"
  shows "checked_shl (ucast (b AND 0x7F)) (s * 7) = Some sh"
    and "checked_add_u64 result sh = Some (result + sh)"
    and "s < 9 \<Longrightarrow> unat (result + sh) < 2 ^ (7 * Suc s)"
proof -
  show "checked_shl (ucast (b AND 0x7F)) (s * 7) = Some sh"
    using s by (simp add: checked_shl_def low_bits_byte sh_def push_bit_eq_mult mult.commute)
  let ?p = "2 ^ (7 * s) :: nat"
  let ?q = "2 ^ (64 - 7 * s) :: nat"
  have split64: "(2 :: nat) ^ 64 = ?p * ?q"
    using s by (simp flip: power_add)
  have sh_mod: "unat sh = (unat b mod 128 mod ?q) * ?p"
  proof -
    have "unat sh = (unat b mod 128 * ?p) mod (2 ^ 64)"
      unfolding sh_def by (simp only: unat_of_nat len_num1 len_bit0) simp
    also have "\<dots> = (?p * (unat b mod 128)) mod (?p * ?q)"
      by (simp only: split64 mult.commute)
    also have "\<dots> = ?p * (unat b mod 128 mod ?q)"
      by (rule mult_mod_right [symmetric])
    finally show ?thesis by (simp only: mult.commute)
  qed
  have "Suc (unat b mod 128 mod ?q) * ?p \<le> ?q * ?p"
    by (intro mult_le_mono1 Suc_leI) simp
  then have "unat sh + ?p \<le> 2 ^ 64"
    unfolding sh_mod split64 by (simp add: mult.commute)
  with res have sum: "unat result + unat sh < 2 ^ 64" by linarith
  then show "checked_add_u64 result sh = Some (result + sh)"
    by (simp add: checked_add_u64_def)
  assume "s < 9"
  have "unat sh \<le> 127 * ?p"
    unfolding sh_mod using mod_less_eq_dividend [of "unat b mod 128" ?q]
      pos_mod_bound_nat7 [of "unat b"] by (intro mult_le_mono1) linarith
  moreover have "unat (result + sh) = unat result + unat sh"
    using sum by (simp add: unat_word_ariths)
  ultimately show "unat (result + sh) < 2 ^ (7 * Suc s)"
    using res by (simp add: power_add)
qed

context quic_recv begin

lemma varint_loop_value:
  assumes "varint_bytes vs" "length vs \<le> left" "left + s = 10" "unat result < 2 ^ (7 * s)"
    and "content r = vs @ rest"
  shows "\<exists>r'. read_varint_loop R left s result r =
      (Inr (result + word_of_nat (uval vs * 2 ^ (7 * s))), r') \<and>
      content r' = rest \<and> ended r' = ended r"
  using assms
proof (induction vs arbitrary: left s result r)
  case Nil
  then show ?case by simp
next
  case (Cons b vs)
  from Cons.prems(2) obtain l where left: "left = Suc l" by (cases left) auto
  with Cons.prems(3) have s9: "s \<le> 9" by simp
  obtain sh where sh: "sh = (word_of_nat (unat b mod 128 * 2 ^ (7 * s)) :: u64)" by simp
  note step = varint_step_value [OF s9 Cons.prems(4), of b, folded sh]
  from Cons.prems(5) obtain r1 where r1: "rx_exact R r (Suc 0) = (Inr [b], r1)"
    "content r1 = vs @ rest" "ended r1 = ended r"
    by (auto elim: exact_one)
  show ?case
  proof (cases "vs = []")
    case True
    with Cons.prems(1) have "unat b < 128" by simp
    with True show ?thesis
      by (simp add: left r1 step(1,2) high_bit_byte) (simp add: sh)
  next
    case False
    with Cons.prems(1) have b: "128 \<le> unat b" and vs: "varint_bytes vs"
      by (simp_all add: varint_bytes_Cons)
    from False Cons.prems(2,3) left have s: "s < 9" by (cases vs) auto
    have "\<exists>r'. read_varint_loop R l (Suc s) (result + sh) r1 =
        (Inr (result + sh + word_of_nat (uval vs * 2 ^ (7 * Suc s))), r') \<and>
        content r' = rest \<and> ended r' = ended r1"
      using Cons.prems left r1(2) step(3) [OF s] by (intro Cons.IH [OF vs]) auto
    moreover have "word_of_nat (uval (b # vs) * 2 ^ (7 * s)) =
        sh + word_of_nat (uval vs * 2 ^ (7 * Suc s))"
      unfolding sh of_nat_add [symmetric] by (simp add: power_add algebra_simps)
    moreover have "read_varint_loop R left s result r = read_varint_loop R l (Suc s) (result + sh) r1"
      using b by (simp add: left r1 step(1,2) high_bit_byte)
    ultimately show ?thesis
      using r1(3) by (simp only: add.assoc)
  qed
qed

lemma varint_loop_open:
  assumes "\<forall>b \<in> set (take left (content r)). 128 \<le> unat b" "left + s = 10" "unat result < 2 ^ (7 * s)"
  shows "\<exists>e r'. read_varint_loop R left s result r = (Inl e, r') \<and>
      (if left \<le> length (content r) then e = MalformedFrame ''streaming varint > 10 bytes''
       else \<exists>m. e = TransportRead m)"
  using assms
proof (induction left arbitrary: s result r)
  case 0
  then show ?case by simp
next
  case (Suc left)
  show ?case
  proof (cases "content r")
    case Nil
    then obtain e r' where "rx_exact R r (Suc 0) = (Inl e, r')"
      by (metis exact_short length_0_conv zero_less_Suc)
    with Nil show ?thesis by simp
  next
    case (Cons b bs)
    then obtain r1 where r1: "rx_exact R r (Suc 0) = (Inr [b], r1)" "content r1 = bs"
      by (auto elim: exact_one)
    have b: "128 \<le> unat b" using Suc.prems(1) Cons by simp
    have s9: "s \<le> 9" using Suc.prems(2) by simp
    obtain sh where sh: "sh = (word_of_nat (unat b mod 128 * 2 ^ (7 * s)) :: u64)" by simp
    note step = varint_step_value [OF s9 Suc.prems(3), of b, folded sh]
    have eq: "read_varint_loop R (Suc left) s result r =
        read_varint_loop R left (Suc s) (result + sh) r1"
      using b by (simp add: r1 step(1,2) high_bit_byte)
    show ?thesis
    proof (cases "s < 9")
      case True
      have "\<exists>e r'. read_varint_loop R left (Suc s) (result + sh) r1 = (Inl e, r') \<and>
          (if left \<le> length (content r1) then e = MalformedFrame ''streaming varint > 10 bytes''
           else \<exists>m. e = TransportRead m)"
        using Suc.prems Cons r1(2) step(3) [OF True] by (intro Suc.IH) auto
      with eq Cons r1(2) show ?thesis by auto
    next
      case False
      with s9 Suc.prems(2) have "left = 0" by simp
      with eq Cons show ?thesis by simp
    qed
  qed
qed

lemma read_varint_value:
  assumes "varint_bytes vs" "length vs \<le> 10" "content r = vs @ rest"
  obtains r' where "read_varint_u64 R r = (Inr (word_of_nat (uval vs)), r')"
    "content r' = rest" "ended r' = ended r"
  using varint_loop_value [of vs 10 0 0 r rest] assms by (auto simp: read_varint_u64_def)

lemma read_varint_open:
  assumes "\<forall>b \<in> set (take 10 (content r)). 128 \<le> unat b"
  obtains e r' where "read_varint_u64 R r = (Inl e, r')"
    "if 10 \<le> length (content r) then e = MalformedFrame ''streaming varint > 10 bytes''
     else \<exists>m. e = TransportRead m"
  using varint_loop_open [of 10 r 0 0] assms by (auto simp: read_varint_u64_def)

end

lemma varint_split:
  "(\<exists>vs rest. bs = vs @ rest \<and> varint_bytes vs \<and> length vs \<le> n) \<or>
   (\<forall>b \<in> set (take n bs). 128 \<le> unat b)"
proof (induction bs arbitrary: n)
  case Nil
  then show ?case by simp
next
  case (Cons b bs)
  show ?case
  proof (cases n)
    case 0
    then show ?thesis by simp
  next
    case (Suc k)
    show ?thesis
    proof (cases "unat b < 128")
      case True
      then have "b # bs = [b] @ bs \<and> varint_bytes [b] \<and> length [b] \<le> n" using Suc by simp
      then show ?thesis by blast
    next
      case False
      from Cons.IH [of k] show ?thesis
      proof
        assume "\<exists>vs rest. bs = vs @ rest \<and> varint_bytes vs \<and> length vs \<le> k"
        then obtain vs rest where "bs = vs @ rest" "varint_bytes vs" "length vs \<le> k" by blast
        with False Suc have "b # bs = (b # vs) @ rest \<and> varint_bytes (b # vs) \<and> length (b # vs) \<le> n"
          by (cases vs) auto
        then show ?thesis by blast
      next
        assume "\<forall>b \<in> set (take k bs). 128 \<le> unat b"
        with False Suc show ?thesis by auto
      qed
    qed
  qed
qed

context quic_recv begin

lemma read_varint_cases:
  obtains (ok) vs r' where "read_varint_u64 R r = (Inr (word_of_nat (uval vs)), r')"
      "varint_bytes vs" "length vs \<le> 10" "content r = vs @ content r'" "ended r' = ended r"
    | (long) r' where "read_varint_u64 R r =
        (Inl (MalformedFrame ''streaming varint > 10 bytes''), r')"
      "10 \<le> length (content r)" "\<forall>b \<in> set (take 10 (content r)). 128 \<le> unat b"
    | (short) m r' where "read_varint_u64 R r = (Inl (TransportRead m), r')"
      "length (content r) < 10" "\<forall>b \<in> set (content r). 128 \<le> unat b"
  using varint_split [of "content r" 10]
proof
  assume "\<exists>vs rest. content r = vs @ rest \<and> varint_bytes vs \<and> length vs \<le> 10"
  then obtain vs rest where "content r = vs @ rest" "varint_bytes vs" "length vs \<le> 10" by blast
  then show thesis by (metis read_varint_value ok)
next
  assume a: "\<forall>b \<in> set (take 10 (content r)). 128 \<le> unat b"
  then obtain e r' where "read_varint_u64 R r = (Inl e, r')"
    "if 10 \<le> length (content r) then e = MalformedFrame ''streaming varint > 10 bytes''
     else \<exists>m. e = TransportRead m" by (rule read_varint_open)
  with a show thesis by (cases "10 \<le> length (content r)") (auto intro: long short)
qed

end

lemma uval_uleb [codec_laws]: "uval (uleb n) = n"
proof (induction n rule: uleb.induct)
  case (1 n)
  show ?case
  proof (cases "n < 128")
    case True
    then show ?thesis by (simp add: uleb_small unat_low_byte)
  next
    case False
    have "unat (word_of_nat (n mod 128 + 128) :: u8) = n mod 128 + 128"
      by (rule unat_low_byte) (use pos_mod_bound_nat7 [of n] in linarith)
    with False 1 show ?thesis by (simp add: uleb_big)
  qed
qed

lemma varint_bytes_uleb: "varint_bytes (uleb n)"
proof (induction n rule: uleb.induct)
  case (1 n)
  show ?case
  proof (cases "n < 128")
    case True
    then show ?thesis by (simp add: uleb_small unat_low_byte)
  next
    case False
    have "unat (word_of_nat (n mod 128 + 128) :: u8) = n mod 128 + 128"
      by (rule unat_low_byte) (use pos_mod_bound_nat7 [of n] in linarith)
    with False 1 show ?thesis by (simp add: uleb_big varint_bytes_Cons del: of_nat_add)
  qed
qed

context quic_recv begin

lemma read_varint_uleb:
  assumes "content r = uleb (unat v) @ rest"
  obtains r' where "read_varint_u64 R r = (Inr v, r')" "content r' = rest" "ended r' = ended r"
  using read_varint_value [OF varint_bytes_uleb length_uleb_u64 assms]
  by (auto simp: uval_uleb)

end

subsection \<open>The locale on the code's decoder\<close>

definition leb_ref :: leb128 where
  "leb_ref = \<lparr>
     leb_write = (\<lambda>v. Inr (uleb (unat v))),
     leb_read = (\<lambda>bs. case read_varint_u64 buf_recv (rx_of bs) of
        (Inl e, r') \<Rightarrow> Inl (rpc_display id e)
      | (Inr v, r') \<Rightarrow>
          (let n = length bs - length (rb_data r')
           in if uval (take n bs) = unat v then Inr (v, n) else Inl ''overflow''))\<rparr>"

lemma rb_rx_of [simp]: "rb_data (rx_of bs) = bs" "rb_end (rx_of bs) = None"
  by (simp_all add: rx_of_def)

interpretation lr: leb128_exact leb_ref
proof unfold_locales
  fix v :: u64 and rest bs :: bytes and n :: nat
  show "leb_write leb_ref v = Inr (uleb (unat v))" by (simp add: leb_ref_def)
  obtain r' where "read_varint_u64 buf_recv (rx_of (uleb (unat v) @ rest)) = (Inr v, r')"
    "rb_data r' = rest"
    by (rule buf_rx.read_varint_uleb [of "rx_of (uleb (unat v) @ rest)" v rest]) simp_all
  then show "leb_read leb_ref (uleb (unat v) @ rest) = Inr (v, length (uleb (unat v)))"
    by (simp add: leb_ref_def uval_uleb)
  show "varint_bytes (take n bs) \<and> uval (take n bs) = unat v" if "leb_read leb_ref bs = Inr (v, n)"
    by (rule buf_rx.read_varint_cases [of "rx_of bs"]) (use that in \<open>auto simp: leb_ref_def Let_def split: if_splits\<close>)
  show "0 < n \<and> n \<le> length bs" if "leb_read leb_ref bs = Inr (v, n)"
    by (rule buf_rx.read_varint_cases [of "rx_of bs"]) (use that in \<open>auto simp: leb_ref_def Let_def split: if_splits\<close>)
  show "\<exists>e. leb_read leb_ref bs = Inl e" if "\<forall>b \<in> set bs. 128 \<le> unat b"
    by (rule buf_rx.read_varint_open [of "rx_of bs"])
      (use that in \<open>auto simp: leb_ref_def dest: in_set_takeD\<close>)
qed

subsection \<open>Properties\<close>

text \<open>
  C25. The stream varint decoder on any input: it consumes exactly one varint of at most ten bytes and
  returns its value modulo 2^64, so a longer number loses its upper bits; ten bytes that all announce
  another are malformed; a stream that ends inside a varint, by a finish or a failure, is a TransportRead,
  not the MalformedFrame that the documentation of read_streaming_frame lists for a truncated varint. No
  other outcome exists, in particular neither overflow error of the code can be reached. Every u64 is read
  back from its encoding, with what follows left unread.
\<close>

theorem read_varint_total:
  assumes R: "quic_recv R content ended"
  shows "(case read_varint_u64 R r of
      (Inr v, r') \<Rightarrow> (\<exists>vs. content r = vs @ content r' \<and> varint_bytes vs \<and> length vs \<le> 10 \<and>
          v = word_of_nat (uval vs) \<and> ended r' = ended r)
    | (Inl e, r') \<Rightarrow>
        e = MalformedFrame ''streaming varint > 10 bytes'' \<and> 10 \<le> length (content r) \<and>
          (\<forall>b \<in> set (take 10 (content r)). 128 \<le> unat b) \<or>
        (\<exists>m. e = TransportRead m) \<and> length (content r) < 10 \<and> (\<forall>b \<in> set (content r). 128 \<le> unat b)) \<and>
    (content r = uleb (unat n) @ rest \<longrightarrow>
      (\<exists>r'. read_varint_u64 R r = (Inr n, r') \<and> content r' = rest \<and> ended r' = ended r))"
proof
  show "case read_varint_u64 R r of
      (Inr v, r') \<Rightarrow> (\<exists>vs. content r = vs @ content r' \<and> varint_bytes vs \<and> length vs \<le> 10 \<and>
          v = word_of_nat (uval vs) \<and> ended r' = ended r)
    | (Inl e, r') \<Rightarrow>
        e = MalformedFrame ''streaming varint > 10 bytes'' \<and> 10 \<le> length (content r) \<and>
          (\<forall>b \<in> set (take 10 (content r)). 128 \<le> unat b) \<or>
        (\<exists>m. e = TransportRead m) \<and> length (content r) < 10 \<and> (\<forall>b \<in> set (content r). 128 \<le> unat b)"
    by (rule quic_recv.read_varint_cases [OF R, of r]) (force, simp_all)
  show "content r = uleb (unat n) @ rest \<longrightarrow>
      (\<exists>r'. read_varint_u64 R r = (Inr n, r') \<and> content r' = rest \<and> ended r' = ended r)"
    using quic_recv.read_varint_uleb [OF R, of r n rest] by blast
qed

theorem read_varint_total_witness:
  "\<exists>r'. read_varint_u64 buf_recv (rx_of (uleb (unat (300 :: u64)) @ [7])) = (Inr 300, r') \<and> rb_data r' = [7]"
  using read_varint_total [OF buf_rx.quic_recv_axioms, of "rx_of (uleb (unat (300 :: u64)) @ [7])" 300 "[7]"]
  by (simp only: rb_rx_of) blast

text \<open>
  An overlong value is not detected: the bits of the tenth byte above the lowest are shifted
  out without an error, so the ten bytes that encode 2^64 are accepted as zero, like the one byte
  of zero, and the length of a frame can be understated.
\<close>

theorem varint_overflow_accepted:
  "uval [0x80, 0x80, 0x80, 0x80, 0x80, 0x80, 0x80, 0x80, 0x80, 2] = 2 ^ 64 \<and>
   fst (read_varint_u64 buf_recv (rx_of [0x80, 0x80, 0x80, 0x80, 0x80, 0x80, 0x80, 0x80, 0x80, 2])) = Inr 0 \<and>
   fst (read_varint_u64 buf_recv (rx_of [0])) = Inr 0"
proof (intro conjI)
  have v: "varint_bytes [0x80, 0x80, 0x80, 0x80, 0x80, 0x80, 0x80, 0x80, 0x80, 2]" "length [0x80 :: u8, 0x80, 0x80, 0x80, 0x80, 0x80, 0x80, 0x80, 0x80, 2] \<le> 10"
    by simp_all
  show u: "uval [0x80, 0x80, 0x80, 0x80, 0x80, 0x80, 0x80, 0x80, 0x80, 2] = 2 ^ 64" by simp
  have data: "rb_data (rx_of bs) = bs @ []" for bs by simp
  have read: "fst (read_varint_u64 buf_recv (rx_of bs)) = Inr (word_of_nat (uval bs))"
    if "varint_bytes bs" "length bs \<le> 10" for bs
    by (rule buf_rx.read_varint_value [OF that data]) simp
  have "(word_of_nat (2 ^ 64) :: u64) = 0" by simp
  with read [OF v] show
    "fst (read_varint_u64 buf_recv (rx_of [0x80, 0x80, 0x80, 0x80, 0x80, 0x80, 0x80, 0x80, 0x80, 2])) = Inr 0"
    unfolding u by metis
  show "fst (read_varint_u64 buf_recv (rx_of [0])) = Inr 0" using read [of "[0]"] by simp
qed

end
