(* ===== verification/Postcard.thy ===== *)
theory Postcard
  imports Varint
begin

section \<open>The postcard interface\<close>

text \<open>
  \<^verbatim>\<open>postcard\<close> is third-party: for every type the crate serializes, its three entry points
  (\<^verbatim>\<open>to_stdvec\<close>/\<^verbatim>\<open>to_allocvec\<close>, \<^verbatim>\<open>from_bytes\<close>,
  \<^verbatim>\<open>take_from_bytes\<close>) are a record, a parameter of the definitions that call them. The
  locale \<open>postcard_codec\<close> states what the documentation promises: what was serialized is read
  back, the unused bytes are returned by \<^verbatim>\<open>take_from_bytes\<close> and dropped by
  \<^verbatim>\<open>from_bytes\<close>, and reading never depends on bytes past the value.
  The format combinators below follow the published wire format (varints, length-prefixed
  strings and sequences, enum variant index first); with them each component builds the concrete
  codec its witnesses use.
\<close>

record 'a postcard =
  pc_to_vec :: "'a \<Rightarrow> postcard_error + bytes"
  pc_from_bytes :: "bytes \<Rightarrow> postcard_error + 'a"
  pc_take :: "bytes \<Rightarrow> postcard_error + ('a \<times> bytes)"

locale postcard_codec =
  fixes P :: "'a postcard"
  assumes take_ser: "pc_to_vec P x = Inr bs \<Longrightarrow> pc_take P (bs @ rest) = Inr (x, rest)"
    and from_take: "pc_from_bytes P bs =
      (case pc_take P bs of Inl e \<Rightarrow> Inl e | Inr (x, rest) \<Rightarrow> Inr x)"
    and take_used: "pc_take P bs = Inr (x, rest) \<Longrightarrow> \<exists>used. bs = used @ rest"
    and take_more: "pc_take P bs = Inr (x, rest) \<Longrightarrow> pc_take P (bs @ tl2) = Inr (x, rest @ tl2)"
begin

lemma take_exact: "pc_to_vec P x = Inr bs \<Longrightarrow> pc_take P bs = Inr (x, [])"
  using take_ser [of x bs "[]"] by simp

lemma from_ser: "pc_to_vec P x = Inr bs \<Longrightarrow> pc_from_bytes P bs = Inr x"
  by (simp add: from_take take_exact)

lemma from_ser_more: "pc_to_vec P x = Inr bs \<Longrightarrow> pc_from_bytes P (bs @ rest) = Inr x"
  by (simp add: from_take take_ser)

lemma ser_inject: "pc_to_vec P x = Inr bs \<Longrightarrow> pc_to_vec P y = Inr bs \<Longrightarrow> x = y"
  using from_ser [of x bs] from_ser [of y bs] by simp

lemma take_truncated:
  assumes "pc_to_vec P x = Inr bs" "n < length bs"
  shows "\<exists>e. pc_take P (take n bs) = Inl e"
proof (cases "pc_take P (take n bs)")
  case (Inr xr)
  obtain y rest where yr: "xr = (y, rest)" by (cases xr)
  with Inr have "pc_take P (take n bs @ drop n bs) = Inr (y, rest @ drop n bs)"
    by (simp only: take_more)
  with take_exact [OF assms(1)] have "drop n bs = []" by simp
  with assms(2) show ?thesis by simp
qed simp

lemma from_truncated:
  "pc_to_vec P x = Inr bs \<Longrightarrow> n < length bs \<Longrightarrow> \<exists>e. pc_from_bytes P (take n bs) = Inl e"
  using take_truncated by (fastforce simp: from_take)

end

subsection \<open>Wire formats\<close>

type_synonym 'a fmt = "('a \<Rightarrow> bytes option) \<times> (bytes \<Rightarrow> ('a \<times> bytes) option)"

text \<open>A decoder that reads from the front and never looks past what it consumes.\<close>

definition front_dec :: "(bytes \<Rightarrow> ('a \<times> bytes) option) \<Rightarrow> bool" where
  "front_dec d \<longleftrightarrow> (\<forall>bs x rest. d bs = Some (x, rest) \<longrightarrow>
     (\<exists>used. bs = used @ rest) \<and> (\<forall>cs. d (bs @ cs) = Some (x, rest @ cs)))"

definition fmt_ok :: "'a fmt \<Rightarrow> bool" where
  "fmt_ok f \<longleftrightarrow>
     (\<forall>x bs rest. fst f x = Some bs \<longrightarrow> snd f (bs @ rest) = Some (x, rest)) \<and> front_dec (snd f)"

named_theorems fmt_intros \<open>a format built from lawful formats is lawful\<close>

lemma front_decI:
  assumes "\<And>bs x rest. d bs = Some (x, rest) \<Longrightarrow>
    (\<exists>used. bs = used @ rest) \<and> (\<forall>cs. d (bs @ cs) = Some (x, rest @ cs))"
  shows "front_dec d"
  using assms by (simp add: front_dec_def)

lemma front_dec_used: "front_dec d \<Longrightarrow> d bs = Some (x, rest) \<Longrightarrow> \<exists>used. bs = used @ rest"
  by (simp add: front_dec_def)

lemma front_dec_ext: "front_dec d \<Longrightarrow> d bs = Some (x, rest) \<Longrightarrow> d (bs @ cs) = Some (x, rest @ cs)"
  by (simp add: front_dec_def)

lemma front_dec_return [fmt_intros]: "front_dec (\<lambda>bs. Some (x, bs))"
  by (rule front_decI) simp

lemma front_dec_fail [fmt_intros]: "front_dec (\<lambda>bs. None)"
  by (rule front_decI) simp

lemma front_dec_if [fmt_intros]:
  "front_dec d \<Longrightarrow> front_dec e \<Longrightarrow> front_dec (\<lambda>bs. if c then d bs else e bs)"
  by (cases c) simp_all

lemma front_dec_bind [fmt_intros]:
  assumes d: "front_dec d" and e: "\<And>x. front_dec (e x)"
  shows "front_dec (\<lambda>bs. case d bs of None \<Rightarrow> None | Some (x, r) \<Rightarrow> e x r)"
proof (rule front_decI)
  fix bs y rest
  assume "(case d bs of None \<Rightarrow> None | Some (x, r) \<Rightarrow> e x r) = Some (y, rest)"
  then obtain x r where x: "d bs = Some (x, r)" and y: "e x r = Some (y, rest)"
    by (auto split: option.splits)
  from front_dec_used [OF d x] front_dec_used [OF e y] have "\<exists>used. bs = used @ rest"
    by (metis append.assoc)
  with front_dec_ext [OF d x] front_dec_ext [OF e y]
  show "(\<exists>used. bs = used @ rest) \<and> (\<forall>cs. (case d (bs @ cs) of None \<Rightarrow> None
      | Some (x, r) \<Rightarrow> e x r) = Some (y, rest @ cs))" by simp
qed

lemma fmt_okI:
  assumes "\<And>x bs rest. fst f x = Some bs \<Longrightarrow> snd f (bs @ rest) = Some (x, rest)"
    and "front_dec (snd f)"
  shows "fmt_ok f"
  using assms by (simp add: fmt_ok_def)

lemma fmt_ok_enc: "fmt_ok f \<Longrightarrow> fst f x = Some bs \<Longrightarrow> snd f (bs @ rest) = Some (x, rest)"
  by (simp add: fmt_ok_def)

lemma fmt_ok_front [fmt_intros]: "fmt_ok f \<Longrightarrow> front_dec (snd f)"
  by (simp add: fmt_ok_def)

lemma fmt_ok_used: "fmt_ok f \<Longrightarrow> snd f bs = Some (x, rest) \<Longrightarrow> \<exists>used. bs = used @ rest"
  by (rule front_dec_used [OF fmt_ok_front])

lemma fmt_ok_ext:
  "fmt_ok f \<Longrightarrow> snd f bs = Some (x, rest) \<Longrightarrow> snd f (bs @ cs) = Some (x, rest @ cs)"
  by (rule front_dec_ext [OF fmt_ok_front])

definition postcard_of :: "'a fmt \<Rightarrow> 'a postcard" where
  "postcard_of f = \<lparr>
     pc_to_vec = (\<lambda>x. case fst f x of None \<Rightarrow> Inl ''serialize error'' | Some bs \<Rightarrow> Inr bs),
     pc_from_bytes = (\<lambda>bs. case snd f bs of None \<Rightarrow> Inl ''deserialize error'' | Some (x, _) \<Rightarrow> Inr x),
     pc_take = (\<lambda>bs. case snd f bs of None \<Rightarrow> Inl ''deserialize error'' | Some xr \<Rightarrow> Inr xr)\<rparr>"

lemma postcard_of_to_vec: "pc_to_vec (postcard_of f) x = Inr bs \<longleftrightarrow> fst f x = Some bs"
  by (simp add: postcard_of_def split: option.splits)

lemma postcard_of_take: "pc_take (postcard_of f) bs = Inr xr \<longleftrightarrow> snd f bs = Some xr"
  by (simp add: postcard_of_def split: option.splits)

lemma postcard_of_from:
  "pc_from_bytes (postcard_of f) bs =
    (case pc_take (postcard_of f) bs of Inl e \<Rightarrow> Inl e | Inr (x, rest) \<Rightarrow> Inr x)"
  by (cases "snd f bs") (auto simp: postcard_of_def)

lemma postcard_of_ok:
  assumes "fmt_ok f"
  shows "postcard_codec (postcard_of f)"
proof unfold_locales
  fix x bs rest tl2
  show "pc_from_bytes (postcard_of f) bs =
      (case pc_take (postcard_of f) bs of Inl e \<Rightarrow> Inl e | Inr (x, rest) \<Rightarrow> Inr x)"
    by (rule postcard_of_from)
  show "pc_take (postcard_of f) (bs @ rest) = Inr (x, rest)"
    if "pc_to_vec (postcard_of f) x = Inr bs"
    using that fmt_ok_enc [OF assms] by (simp add: postcard_of_take postcard_of_to_vec)
  show "\<exists>used. bs = used @ rest" if "pc_take (postcard_of f) bs = Inr (x, rest)"
    using that fmt_ok_used [OF assms] by (simp add: postcard_of_take)
  show "pc_take (postcard_of f) (bs @ tl2) = Inr (x, rest @ tl2)"
    if "pc_take (postcard_of f) bs = Inr (x, rest)"
    using that fmt_ok_ext [OF assms] by (simp add: postcard_of_take)
qed

fun uleb_take :: "bytes \<Rightarrow> (nat \<times> bytes) option" where
  "uleb_take [] = None"
| "uleb_take (b # bs) =
     (if unat b < 128 then Some (unat b, bs)
      else case uleb_take bs of None \<Rightarrow> None | Some (n, rest) \<Rightarrow> Some (unat b - 128 + 128 * n, rest))"

definition fmt_nat :: "nat fmt" where
  "fmt_nat = (\<lambda>n. Some (uleb n), uleb_take)"

definition fmt_u64 :: "u64 fmt" where
  "fmt_u64 = (\<lambda>w. Some (uleb (unat w)),
     \<lambda>bs. case uleb_take bs of None \<Rightarrow> None
          | Some (n, rest) \<Rightarrow> if n < 2 ^ 64 then Some (word_of_nat n, rest) else None)"

definition fmt_fixed :: "nat \<Rightarrow> bytes fmt" where
  "fmt_fixed k = (\<lambda>bs. if length bs = k then Some bs else None,
     \<lambda>bs. if k \<le> length bs then Some (take k bs, drop k bs) else None)"

definition fmt_bool :: "bool fmt" where
  "fmt_bool = (\<lambda>b. Some [if b then 1 else 0],
     \<lambda>bs. case bs of [] \<Rightarrow> None
          | x # rest \<Rightarrow> if x = 0 then Some (False, rest) else if x = 1 then Some (True, rest) else None)"

definition fmt_bytes :: "bytes fmt" where
  "fmt_bytes = (\<lambda>bs. Some (uleb (length bs) @ bs),
     \<lambda>bs. case uleb_take bs of None \<Rightarrow> None | Some (n, rest) \<Rightarrow> snd (fmt_fixed n) rest)"

definition fmt_str :: "string fmt" where
  "fmt_str = (\<lambda>s. if rust_str s then fst fmt_bytes (str_bytes s) else None,
     \<lambda>bs. case snd fmt_bytes bs of None \<Rightarrow> None
          | Some (x, rest) \<Rightarrow> (case from_utf8 x of Inl _ \<Rightarrow> None | Inr s \<Rightarrow> Some (s, rest)))"

definition fmt_pair :: "'a fmt \<Rightarrow> 'b fmt \<Rightarrow> ('a \<times> 'b) fmt" where
  "fmt_pair f g =
     (\<lambda>(x, y). case fst f x of None \<Rightarrow> None
        | Some bs \<Rightarrow> (case fst g y of None \<Rightarrow> None | Some cs \<Rightarrow> Some (bs @ cs)),
      \<lambda>bs. case snd f bs of None \<Rightarrow> None
        | Some (x, r) \<Rightarrow> (case snd g r of None \<Rightarrow> None | Some (y, r') \<Rightarrow> Some ((x, y), r')))"

definition fmt_map :: "('a \<Rightarrow> 'b) \<Rightarrow> ('b \<Rightarrow> 'a) \<Rightarrow> 'a fmt \<Rightarrow> 'b fmt" where
  "fmt_map mk un f = (\<lambda>y. if mk (un y) = y then fst f (un y) else None,
     \<lambda>bs. case snd f bs of None \<Rightarrow> None | Some (x, r) \<Rightarrow> Some (mk x, r))"

text \<open>An enum: the variant index, then the fields of that variant.\<close>

definition fmt_enum :: "('a \<Rightarrow> nat) \<Rightarrow> (nat \<Rightarrow> 'a fmt option) \<Rightarrow> 'a fmt" where
  "fmt_enum tag variant =
     (\<lambda>x. case variant (tag x) of None \<Rightarrow> None
        | Some f \<Rightarrow> (case fst f x of None \<Rightarrow> None | Some bs \<Rightarrow> Some (uleb (tag x) @ bs)),
      \<lambda>bs. case uleb_take bs of None \<Rightarrow> None
        | Some (t, r) \<Rightarrow> (case variant t of None \<Rightarrow> None | Some f \<Rightarrow> snd f r))"

fun enc_all :: "'a fmt \<Rightarrow> 'a list \<Rightarrow> bytes option" where
  "enc_all f [] = Some []"
| "enc_all f (x # xs) =
     (case fst f x of None \<Rightarrow> None
      | Some bs \<Rightarrow> (case enc_all f xs of None \<Rightarrow> None | Some cs \<Rightarrow> Some (bs @ cs)))"

fun dec_n :: "'a fmt \<Rightarrow> nat \<Rightarrow> bytes \<Rightarrow> ('a list \<times> bytes) option" where
  "dec_n f 0 bs = Some ([], bs)"
| "dec_n f (Suc n) bs =
     (case snd f bs of None \<Rightarrow> None
      | Some (x, r) \<Rightarrow> (case dec_n f n r of None \<Rightarrow> None | Some (xs, r') \<Rightarrow> Some (x # xs, r')))"

definition fmt_seq :: "'a fmt \<Rightarrow> 'a list fmt" where
  "fmt_seq f =
     (\<lambda>xs. case enc_all f xs of None \<Rightarrow> None | Some bs \<Rightarrow> Some (uleb (length xs) @ bs),
      \<lambda>bs. case uleb_take bs of None \<Rightarrow> None | Some (n, r) \<Rightarrow> dec_n f n r)"

definition fmt_unit :: "'a \<Rightarrow> 'a fmt" where
  "fmt_unit c = (\<lambda>x. if x = c then Some [] else None, \<lambda>bs. Some (c, bs))"

definition fmt_option :: "'a fmt \<Rightarrow> 'a option fmt" where
  "fmt_option f = fmt_enum (\<lambda>x. case x of None \<Rightarrow> 0 | Some _ \<Rightarrow> 1)
     (\<lambda>t. if t = 0 then Some (fmt_unit None)
          else if t = 1 then Some (fmt_map Some the f) else None)"

subsection \<open>Each combinator keeps the laws\<close>

lemma uleb_take_uleb [codec_laws]: "uleb_take (uleb n @ rest) = Some (n, rest)"
proof (induction n rule: uleb.induct)
  case (1 n)
  show ?case
  proof (cases "n < 128")
    case True
    then show ?thesis by (simp add: uleb_small unat_low_byte)
  next
    case False
    have "unat (word_of_nat (n mod 128 + 128) :: u8) = n mod 128 + 128"
      by (rule unat_low_byte) (use pos_mod_bound_nat7 [of n] in linarith)
    with False 1 show ?thesis by (simp add: uleb_big del: of_nat_add)
  qed
qed

lemma uleb_take_used: "uleb_take bs = Some (n, rest) \<Longrightarrow> \<exists>used. bs = used @ rest"
proof (induction bs arbitrary: n)
  case Nil
  then show ?case by simp
next
  case (Cons b bs)
  show ?case
  proof (cases "unat b < 128")
    case True
    with Cons.prems show ?thesis by (auto intro: exI [of _ "[b]"])
  next
    case False
    with Cons.prems obtain m where "uleb_take bs = Some (m, rest)" by (auto split: option.splits)
    then obtain used where "bs = used @ rest" using Cons.IH by blast
    then show ?thesis by (auto intro: exI [of _ "b # used"])
  qed
qed

lemma uleb_take_ext: "uleb_take bs = Some (n, rest) \<Longrightarrow> uleb_take (bs @ cs) = Some (n, rest @ cs)"
  by (induction bs arbitrary: n) (auto split: if_splits option.splits)

lemma front_dec_uleb [fmt_intros]: "front_dec uleb_take"
  by (rule front_decI) (simp add: uleb_take_used uleb_take_ext)

lemma fmt_fixed_ok [fmt_intros]: "fmt_ok (fmt_fixed k)"
proof (rule fmt_okI)
  show "front_dec (snd (fmt_fixed k))"
    by (rule front_decI)
      (auto simp: fmt_fixed_def split: if_splits intro: append_take_drop_id [symmetric])
qed (auto simp: fmt_fixed_def split: if_splits)

lemma fmt_bool_ok [fmt_intros]: "fmt_ok fmt_bool"
proof (rule fmt_okI)
  show "front_dec (snd fmt_bool)"
    by (rule front_decI) (auto simp: fmt_bool_def split: if_splits list.splits)
qed (auto simp: fmt_bool_def)

lemma fmt_nat_ok [fmt_intros]: "fmt_ok fmt_nat"
  by (rule fmt_okI) (auto simp: fmt_nat_def uleb_take_uleb intro: fmt_intros)

lemma fmt_u64_ok [fmt_intros]: "fmt_ok fmt_u64"
  by (rule fmt_okI) (auto simp: fmt_u64_def uleb_take_uleb unat_u64_less intro!: fmt_intros)

lemma fmt_bytes_ok [fmt_intros]: "fmt_ok fmt_bytes"
  by (rule fmt_okI) (auto simp: fmt_bytes_def uleb_take_uleb fmt_ok_enc [OF fmt_fixed_ok]
      fmt_fixed_def intro!: fmt_intros)

lemma fmt_str_ok [fmt_intros]: "fmt_ok fmt_str"
proof (rule fmt_okI)
  have "front_dec (\<lambda>r. case from_utf8 x of Inl _ \<Rightarrow> None | Inr s \<Rightarrow> Some (s, r))" for x
    by (cases "from_utf8 x") (simp_all add: fmt_intros)
  then show "front_dec (snd fmt_str)"
    by (simp add: fmt_str_def fmt_intros)
qed (auto simp: fmt_str_def fmt_ok_enc [OF fmt_bytes_ok] split: if_splits)

lemma fmt_pair_ok [fmt_intros]: "fmt_ok f \<Longrightarrow> fmt_ok g \<Longrightarrow> fmt_ok (fmt_pair f g)"
  by (rule fmt_okI)
    (auto simp: fmt_pair_def fmt_ok_enc intro!: fmt_intros split: option.splits)

lemma fmt_map_ok [fmt_intros]: "fmt_ok f \<Longrightarrow> fmt_ok (fmt_map mk un f)"
  by (rule fmt_okI)
    (auto simp: fmt_map_def fmt_ok_enc intro!: fmt_intros split: if_splits)

lemma fmt_unit_ok [fmt_intros]: "fmt_ok (fmt_unit c)"
  by (rule fmt_okI) (auto simp: fmt_unit_def intro!: fmt_intros split: if_splits)

lemma fmt_enum_ok [fmt_intros]:
  assumes "\<And>t. pred_option fmt_ok (variant t)"
  shows "fmt_ok (fmt_enum tag variant)"
proof (rule fmt_okI)
  have "front_dec (\<lambda>r. case variant t of None \<Rightarrow> None | Some f \<Rightarrow> snd f r)" for t
    using assms [of t] by (cases "variant t") (simp_all add: fmt_intros)
  then show "front_dec (snd (fmt_enum tag variant))"
    by (simp add: fmt_enum_def fmt_intros)
  fix x bs rest
  assume enc: "fst (fmt_enum tag variant) x = Some bs"
  show "snd (fmt_enum tag variant) (bs @ rest) = Some (x, rest)"
  proof (cases "variant (tag x)")
    case None
    with enc show ?thesis by (simp add: fmt_enum_def)
  next
    case (Some f)
    with assms [of "tag x"] have "fmt_ok f" by simp
    moreover from Some enc obtain cs where "fst f x = Some cs" "bs = uleb (tag x) @ cs"
      by (cases "fst f x") (simp_all add: fmt_enum_def)
    ultimately show ?thesis
      using Some by (simp add: fmt_enum_def uleb_take_uleb fmt_ok_enc)
  qed
qed

lemma dec_n_enc:
  "fmt_ok f \<Longrightarrow> enc_all f xs = Some bs \<Longrightarrow> dec_n f (length xs) (bs @ rest) = Some (xs, rest)"
  by (induction xs arbitrary: bs) (auto simp: fmt_ok_enc split: option.splits)

lemma front_dec_n [fmt_intros]: "fmt_ok f \<Longrightarrow> front_dec (dec_n f n)"
proof (induction n)
  case 0
  have "dec_n f 0 = (\<lambda>bs. Some ([], bs))" by (simp add: fun_eq_iff)
  then show ?case by (simp add: fmt_intros)
next
  case (Suc n)
  have "dec_n f (Suc n) = (\<lambda>bs. case snd f bs of None \<Rightarrow> None
      | Some (x, r) \<Rightarrow> (case dec_n f n r of None \<Rightarrow> None | Some (xs, r') \<Rightarrow> Some (x # xs, r')))"
    by (simp add: fun_eq_iff)
  with Suc show ?case by (simp add: fmt_intros)
qed

lemma fmt_seq_ok [fmt_intros]: "fmt_ok f \<Longrightarrow> fmt_ok (fmt_seq f)"
  by (rule fmt_okI)
    (auto simp: fmt_seq_def uleb_take_uleb dec_n_enc intro!: fmt_intros split: option.splits)

lemma fmt_option_ok [fmt_intros]: "fmt_ok f \<Longrightarrow> fmt_ok (fmt_option f)"
  unfolding fmt_option_def
  by (rule fmt_enum_ok) (simp add: fmt_intros)

interpretation pc_str: postcard_codec "postcard_of fmt_str"
  by (rule postcard_of_ok) (rule fmt_str_ok)

end
