(* ===== verification/Transit.thy ===== *)
theory Transit
  imports Context Postcard
begin

section \<open>transit.rs: relay frames and signed vouchers\<close>

text \<open>
  Frames, errors and vouchers of the peer-as-relay protocol. Ed25519 is third-party: key
  derivation, signing and verification are the record \<open>ed25519\<close>, with the laws of
  \<open>signature_scheme\<close> (what a key signs verifies under its public key) and, where a property
  needs it, unforgeability: a signature in circulation verifies only for signed messages.
\<close>

record 'sk ed25519 =
  ed_public :: "'sk \<Rightarrow> node_id"
  ed_sign :: "'sk \<Rightarrow> bytes \<Rightarrow> bytes"
  ed_verify :: "node_id \<Rightarrow> bytes \<Rightarrow> bytes \<Rightarrow> bool"

locale signature_scheme =
  fixes E :: "'sk ed25519"
  assumes public_length: "length (ed_public E sk) = 32"
    and verify_sign: "ed_verify E (ed_public E sk) m (ed_sign E sk m)"

definition VOUCHER_DOMAIN_TAG :: bytes where
  "VOUCHER_DOMAIN_TAG = str_bytes ''nerw/transit/voucher/v1''"

definition DEFAULT_RESERVATION_TTL_SECS :: u64 where
  "DEFAULT_RESERVATION_TTL_SECS = 600"

record capabilities =
  reserved_flags :: u32

definition capabilities_default :: capabilities where
  "capabilities_default = \<lparr>reserved_flags = 0\<rparr>"

record limits =
  max_circuit_bytes :: u64
  max_circuit_duration_secs :: u64

definition limits_default :: limits where
  "limits_default = \<lparr>max_circuit_bytes = 0, max_circuit_duration_secs = 0\<rparr>"

datatype transit_error =
    WhitelistRejected
  | CapacityFull
  | VoucherExpired
  | VoucherInvalidSig
  | TargetNotFound
  | TransitMalformedFrame
  | UnexpectedFrame

fun transit_error_display :: "transit_error \<Rightarrow> string" where
  "transit_error_display WhitelistRejected =
     ''caller is not in the relay'' @ [CHR 0x27] @ ''s whitelist''"
| "transit_error_display CapacityFull = ''relay reservation table is full''"
| "transit_error_display VoucherExpired = ''voucher expiry is in the past''"
| "transit_error_display VoucherInvalidSig = ''voucher signature does not verify''"
| "transit_error_display TargetNotFound = ''no active reservation for the requested target''"
| "transit_error_display TransitMalformedFrame = ''frame failed to decode''"
| "transit_error_display UnexpectedFrame = ''frame is valid but unexpected in current state''"

record voucher =
  v_relay_node_id :: node_id
  v_peer_node_id :: node_id
  v_expire_unix_secs :: u64
  v_signature :: bytes

definition to_be_bytes :: "u64 \<Rightarrow> bytes" where
  "to_be_bytes w = map (\<lambda>i. ucast (drop_bit (8 * i) w)) [7, 6, 5, 4, 3, 2, 1, 0]"

definition compose_signing_bytes :: "node_id \<Rightarrow> node_id \<Rightarrow> u64 \<Rightarrow> bytes" where
  "compose_signing_bytes relay_node_id peer_node_id expire_unix_secs =
     VOUCHER_DOMAIN_TAG @ relay_node_id @ peer_node_id @ to_be_bytes expire_unix_secs"

definition voucher_sign :: "'sk ed25519 \<Rightarrow> 'sk \<Rightarrow> node_id \<Rightarrow> u64 \<Rightarrow> voucher" where
  "voucher_sign E relay_secret peer_node_id expire_unix_secs =
     (let relay_node_id = ed_public E relay_secret;
          to_sign = compose_signing_bytes relay_node_id peer_node_id expire_unix_secs
      in \<lparr>v_relay_node_id = relay_node_id, v_peer_node_id = peer_node_id,
          v_expire_unix_secs = expire_unix_secs, v_signature = ed_sign E relay_secret to_sign\<rparr>)"

definition voucher_verify :: "'sk ed25519 \<Rightarrow> voucher \<Rightarrow> node_id \<Rightarrow> transit_error + unit" where
  "voucher_verify E v relay_pub_key =
     (if v_relay_node_id v \<noteq> relay_pub_key then Inl VoucherInvalidSig
      else
        (let to_verify = compose_signing_bytes (v_relay_node_id v) (v_peer_node_id v)
               (v_expire_unix_secs v)
         in if ed_verify E relay_pub_key to_verify (v_signature v) then Inr ()
            else Inl VoucherInvalidSig))"

definition is_expired :: "voucher \<Rightarrow> u64 \<Rightarrow> bool" where
  "is_expired v now_unix_secs \<longleftrightarrow> now_unix_secs \<ge> v_expire_unix_secs v"

definition signing_bytes :: "voucher \<Rightarrow> bytes" where
  "signing_bytes v = compose_signing_bytes (v_relay_node_id v) (v_peer_node_id v)
     (v_expire_unix_secs v)"

datatype reserve_outcome = ReserveGranted voucher limits | ReserveDenied transit_error

datatype connect_outcome = ConnectGranted | ConnectDenied transit_error

datatype transit_frame =
    Hello node_id capabilities
  | ReserveRequest node_id bytes
  | ReserveResponse reserve_outcome
  | ConnectRequest node_id "voucher option"
  | ConnectResponse connect_outcome
  | Bye "string option"

definition encode_frame :: "transit_frame postcard \<Rightarrow> transit_frame \<Rightarrow> transit_error + bytes" where
  "encode_frame P frame =
     (case pc_to_vec P frame of Inl _ \<Rightarrow> Inl TransitMalformedFrame | Inr bs \<Rightarrow> Inr bs)"

definition decode_frame :: "transit_frame postcard \<Rightarrow> bytes \<Rightarrow> transit_error + transit_frame" where
  "decode_frame P bs =
     (case pc_take P bs of
        Inl _ \<Rightarrow> Inl TransitMalformedFrame
      | Inr (frame, rest) \<Rightarrow> if rest \<noteq> [] then Inl TransitMalformedFrame else Inr frame)"

subsection \<open>Unforgeability\<close>

text \<open>
  A signature that circulates verifies only for what the owner of the key signed.
\<close>

locale unforgeable_scheme = signature_scheme E for E :: "'sk ed25519" +
  fixes circulating :: "bytes set"
    and has_signed :: "node_id \<Rightarrow> bytes \<Rightarrow> bool"
  assumes verify_signed: "s \<in> circulating \<Longrightarrow> ed_verify E pk m s \<Longrightarrow> has_signed pk m"
begin

lemma verified_voucher_signed:
  "v_signature v \<in> circulating \<Longrightarrow> voucher_verify E v pk = Inr () \<Longrightarrow>
   v_relay_node_id v = pk \<and> has_signed pk (signing_bytes v)"
  by (auto simp: voucher_verify_def signing_bytes_def Let_def verify_signed split: if_splits)

end

subsection \<open>Signing bytes\<close>

lemma length_to_be_bytes [simp]: "length (to_be_bytes w) = 8"
  by (simp add: to_be_bytes_def)

lemma to_be_bytes_inject: "to_be_bytes w = to_be_bytes w' \<longleftrightarrow> w = w'"
proof
  assume eq: "to_be_bytes w = to_be_bytes w'"
  show "w = w'"
  proof (rule bit_word_eqI)
    fix n assume n: "n < LENGTH(64)"
    then have "n div 8 \<in> set [7, 6, 5, 4, 3, 2, 1, 0]" by auto
    then have "(ucast (drop_bit (8 * (n div 8)) w) :: u8) = ucast (drop_bit (8 * (n div 8)) w')"
      using eq unfolding to_be_bytes_def map_eq_conv by blast
    then have "bit (ucast (drop_bit (8 * (n div 8)) w) :: u8) (n mod 8) =
        bit (ucast (drop_bit (8 * (n div 8)) w') :: u8) (n mod 8)" by simp
    then show "bit w n = bit w' n"
      by (simp add: bit_ucast_iff bit_drop_bit_eq)
  qed
qed simp

lemma compose_signing_bytes_inject:
  assumes "length r = 32" "length r' = 32" "length p = 32" "length p' = 32"
  shows "compose_signing_bytes r p e = compose_signing_bytes r' p' e' \<longleftrightarrow> r = r' \<and> p = p' \<and> e = e'"
  using assms by (auto simp: compose_signing_bytes_def to_be_bytes_inject)

lemma length_compose_signing_bytes:
  "length (compose_signing_bytes r p e) = 31 + length r + length p"
  by (simp add: compose_signing_bytes_def VOUCHER_DOMAIN_TAG_def)

lemma verify_Inr_iff:
  "voucher_verify E v pk = Inr () \<longleftrightarrow>
     v_relay_node_id v = pk \<and> ed_verify E pk (signing_bytes v) (v_signature v)"
  by (auto simp: voucher_verify_def signing_bytes_def)

lemma verify_error: "voucher_verify E v pk = Inl e \<Longrightarrow> e = VoucherInvalidSig"
  by (auto simp: voucher_verify_def Let_def split: if_splits)

subsection \<open>Concrete instances\<close>

definition ed_ref :: "u8 ed25519" where
  "ed_ref = \<lparr>ed_public = replicate 32, ed_sign = (\<lambda>k m. k # m),
     ed_verify = (\<lambda>pk m s. s \<noteq> [] \<and> pk = replicate 32 (hd s) \<and> tl s = m)\<rparr>"

definition voucher_ref :: voucher where
  "voucher_ref = voucher_sign ed_ref 1 (replicate 32 2) 1700000600"

interpretation ed: unforgeable_scheme ed_ref "{v_signature voucher_ref}"
  "\<lambda>pk m. pk = replicate 32 1 \<and> m = signing_bytes voucher_ref"
  by unfold_locales
    (auto simp: ed_ref_def voucher_ref_def voucher_sign_def signing_bytes_def Let_def)

definition fmt_u32 :: "u32 fmt" where
  "fmt_u32 = fmt_map word_of_nat unat fmt_nat"

fun transit_error_index :: "transit_error \<Rightarrow> nat" where
  "transit_error_index WhitelistRejected = 0"
| "transit_error_index CapacityFull = 1"
| "transit_error_index VoucherExpired = 2"
| "transit_error_index VoucherInvalidSig = 3"
| "transit_error_index TargetNotFound = 4"
| "transit_error_index TransitMalformedFrame = 5"
| "transit_error_index UnexpectedFrame = 6"

definition fmt_transit_error :: "transit_error fmt" where
  "fmt_transit_error = fmt_enum transit_error_index
     (\<lambda>t. if t < 7 then Some (fmt_unit ([WhitelistRejected, CapacityFull, VoucherExpired,
        VoucherInvalidSig, TargetNotFound, TransitMalformedFrame, UnexpectedFrame] ! t)) else None)"

definition fmt_voucher :: "voucher fmt" where
  "fmt_voucher = fmt_map
     (\<lambda>((r, p), e, s). \<lparr>v_relay_node_id = r, v_peer_node_id = p, v_expire_unix_secs = e, v_signature = s\<rparr>)
     (\<lambda>v. ((v_relay_node_id v, v_peer_node_id v), v_expire_unix_secs v, v_signature v))
     (fmt_pair (fmt_pair (fmt_fixed 32) (fmt_fixed 32)) (fmt_pair fmt_u64 (fmt_fixed 64)))"

definition fmt_limits :: "limits fmt" where
  "fmt_limits = fmt_map (\<lambda>(b, d). \<lparr>max_circuit_bytes = b, max_circuit_duration_secs = d\<rparr>)
     (\<lambda>l. (max_circuit_bytes l, max_circuit_duration_secs l)) (fmt_pair fmt_u64 fmt_u64)"

definition fmt_reserve_outcome :: "reserve_outcome fmt" where
  "fmt_reserve_outcome = fmt_enum (\<lambda>x. case x of ReserveGranted _ _ \<Rightarrow> 0 | ReserveDenied _ \<Rightarrow> 1)
     (\<lambda>t. if t = 0 then Some (fmt_map (\<lambda>(v, l). ReserveGranted v l)
            (\<lambda>x. case x of ReserveGranted v l \<Rightarrow> (v, l) | ReserveDenied _ \<Rightarrow> (voucher_ref, limits_default))
            (fmt_pair fmt_voucher fmt_limits))
          else if t = 1 then Some (fmt_map ReserveDenied
            (\<lambda>x. case x of ReserveDenied e \<Rightarrow> e | ReserveGranted _ _ \<Rightarrow> CapacityFull) fmt_transit_error)
          else None)"

definition fmt_connect_outcome :: "connect_outcome fmt" where
  "fmt_connect_outcome = fmt_enum (\<lambda>x. case x of ConnectGranted \<Rightarrow> 0 | ConnectDenied _ \<Rightarrow> 1)
     (\<lambda>t. if t = 0 then Some (fmt_unit ConnectGranted)
          else if t = 1 then Some (fmt_map ConnectDenied
            (\<lambda>x. case x of ConnectDenied e \<Rightarrow> e | ConnectGranted \<Rightarrow> CapacityFull) fmt_transit_error)
          else None)"

fun transit_frame_index :: "transit_frame \<Rightarrow> nat" where
  "transit_frame_index (Hello _ _) = 0"
| "transit_frame_index (ReserveRequest _ _) = 1"
| "transit_frame_index (ReserveResponse _) = 2"
| "transit_frame_index (ConnectRequest _ _) = 3"
| "transit_frame_index (ConnectResponse _) = 4"
| "transit_frame_index (Bye _) = 5"

definition fmt_transit_frame :: "transit_frame fmt" where
  "fmt_transit_frame = fmt_enum transit_frame_index
     (\<lambda>t. if t = 0 then Some (fmt_map (\<lambda>(p, f). Hello p \<lparr>reserved_flags = f\<rparr>)
            (\<lambda>x. case x of Hello p c \<Rightarrow> (p, reserved_flags c) | _ \<Rightarrow> ([], 0))
            (fmt_pair (fmt_fixed 32) fmt_u32))
      else if t = 1 then Some (fmt_map (\<lambda>(p, s). ReserveRequest p s)
            (\<lambda>x. case x of ReserveRequest p s \<Rightarrow> (p, s) | _ \<Rightarrow> ([], []))
            (fmt_pair (fmt_fixed 32) fmt_bytes))
      else if t = 2 then Some (fmt_map ReserveResponse
            (\<lambda>x. case x of ReserveResponse r \<Rightarrow> r | _ \<Rightarrow> ReserveDenied CapacityFull) fmt_reserve_outcome)
      else if t = 3 then Some (fmt_map (\<lambda>(p, v). ConnectRequest p v)
            (\<lambda>x. case x of ConnectRequest p v \<Rightarrow> (p, v) | _ \<Rightarrow> ([], None))
            (fmt_pair (fmt_fixed 32) (fmt_option fmt_voucher)))
      else if t = 4 then Some (fmt_map ConnectResponse
            (\<lambda>x. case x of ConnectResponse r \<Rightarrow> r | _ \<Rightarrow> ConnectGranted) fmt_connect_outcome)
      else if t = 5 then Some (fmt_map Bye
            (\<lambda>x. case x of Bye r \<Rightarrow> r | _ \<Rightarrow> None) (fmt_option fmt_str))
      else None)"

lemma fmt_u32_ok [fmt_intros]: "fmt_ok fmt_u32"
  by (simp add: fmt_u32_def fmt_intros)

lemma fmt_transit_error_ok [fmt_intros]: "fmt_ok fmt_transit_error"
  unfolding fmt_transit_error_def by (rule fmt_enum_ok) (simp add: fmt_intros)

lemma fmt_voucher_ok [fmt_intros]: "fmt_ok fmt_voucher"
  by (simp add: fmt_voucher_def fmt_intros)

lemma fmt_limits_ok [fmt_intros]: "fmt_ok fmt_limits"
  by (simp add: fmt_limits_def fmt_intros)

lemma fmt_reserve_outcome_ok [fmt_intros]: "fmt_ok fmt_reserve_outcome"
  unfolding fmt_reserve_outcome_def by (rule fmt_enum_ok) (simp add: fmt_intros)

lemma fmt_connect_outcome_ok [fmt_intros]: "fmt_ok fmt_connect_outcome"
  unfolding fmt_connect_outcome_def by (rule fmt_enum_ok) (simp add: fmt_intros)

lemma fmt_transit_frame_ok: "fmt_ok fmt_transit_frame"
  unfolding fmt_transit_frame_def by (rule fmt_enum_ok) (simp add: fmt_intros)

definition pc_frame_ref :: "transit_frame postcard" where
  "pc_frame_ref = postcard_of fmt_transit_frame"

interpretation pfr: postcard_codec pc_frame_ref
  unfolding pc_frame_ref_def by (rule postcard_of_ok) (rule fmt_transit_frame_ok)

subsection \<open>Properties\<close>

text \<open>
  A voucher a relay signs verifies against that relay's public key and against no other
  relay's key: the pinned key decides, not the key written in the voucher.
\<close>

theorem voucher_sign_verify:
  assumes "signature_scheme E"
  shows "voucher_verify E (voucher_sign E sk peer expire) pk =
    (if pk = ed_public E sk then Inr () else Inl VoucherInvalidSig)"
  using signature_scheme.verify_sign [OF assms]
  by (simp add: voucher_verify_def voucher_sign_def Let_def)

theorem voucher_sign_verify_witness:
  "voucher_verify ed_ref (voucher_sign ed_ref 1 (replicate 32 2) 1700000600) (replicate 32 1) = Inr () \<and>
   voucher_verify ed_ref (voucher_sign ed_ref 1 (replicate 32 2) 1700000600) (replicate 32 99) =
     Inl VoucherInvalidSig"
  using voucher_sign_verify [OF ed.signature_scheme_axioms, of 1 "replicate 32 2" 1700000600]
  by (simp add: ed_ref_def)

text \<open>
  The bytes a relay signs determine the voucher: the same relay, the same reservee and the
  same expiry, 95 bytes behind the domain tag. No two different grants share a signed message.
\<close>

theorem signing_bytes_determine_grant:
  assumes "length (v_relay_node_id v) = 32" "length (v_peer_node_id v) = 32"
    and "length (v_relay_node_id w) = 32" "length (v_peer_node_id w) = 32"
  shows "(signing_bytes v = signing_bytes w \<longleftrightarrow>
      v_relay_node_id v = v_relay_node_id w \<and> v_peer_node_id v = v_peer_node_id w \<and>
      v_expire_unix_secs v = v_expire_unix_secs w) \<and>
    length (signing_bytes v) = 95 \<and> prefix VOUCHER_DOMAIN_TAG (signing_bytes v)"
  using assms compose_signing_bytes_inject [OF assms(1,3,2,4)]
  by (simp add: signing_bytes_def length_compose_signing_bytes)
    (simp add: compose_signing_bytes_def)

theorem signing_bytes_determine_grant_witness:
  "(signing_bytes voucher_ref = signing_bytes (voucher_ref\<lparr>v_expire_unix_secs := 1700087000\<rparr>) \<longleftrightarrow> False) \<and>
   length (signing_bytes voucher_ref) = 95"
  using signing_bytes_determine_grant
    [of voucher_ref "voucher_ref\<lparr>v_expire_unix_secs := 1700087000\<rparr>"]
  by (simp add: voucher_ref_def voucher_sign_def Let_def ed_ref_def)

text \<open>
  C24. Authenticity: when the relay signs, under the voucher domain tag, only the grants it
  issued, then a voucher whose signature circulates and that verifies against the relay's key is
  one of those grants, with the reservee and the expiry the relay chose. A voucher with a reservee
  or an expiry the relay did not issue does not verify.
\<close>

theorem voucher_authentic:
  assumes "unforgeable_scheme E circulating has_signed"
    and "v_signature v \<in> circulating"
    and "voucher_verify E v pk = Inr ()"
    and "length pk = 32" "length (v_peer_node_id v) = 32"
    and issued: "\<forall>m. has_signed pk m \<and> prefix VOUCHER_DOMAIN_TAG m \<longrightarrow>
      (\<exists>(p, e) \<in> issued. length p = 32 \<and> m = compose_signing_bytes pk p e)"
  shows "v_relay_node_id v = pk \<and> (v_peer_node_id v, v_expire_unix_secs v) \<in> issued"
proof -
  from unforgeable_scheme.verified_voucher_signed [OF assms(1-3)]
  have relay: "v_relay_node_id v = pk" and "has_signed pk (signing_bytes v)" by auto
  moreover have "prefix VOUCHER_DOMAIN_TAG (signing_bytes v)"
    by (simp add: signing_bytes_def compose_signing_bytes_def)
  ultimately obtain p e where "(p, e) \<in> issued" "length p = 32"
    "signing_bytes v = compose_signing_bytes pk p e" using issued by blast
  with relay assms(4,5) show ?thesis
    by (simp add: signing_bytes_def compose_signing_bytes_inject)
qed

theorem voucher_authentic_witness:
  "v_relay_node_id voucher_ref = replicate 32 1 \<and>
   (v_peer_node_id voucher_ref, v_expire_unix_secs voucher_ref) \<in> {(replicate 32 2, 1700000600)}"
proof (rule voucher_authentic [OF ed.unforgeable_scheme_axioms])
  show "voucher_verify ed_ref voucher_ref (replicate 32 1) = Inr ()"
    using signature_scheme.verify_sign [OF ed.signature_scheme_axioms, of 1]
    by (simp add: voucher_ref_def voucher_verify_def voucher_sign_def Let_def ed_ref_def)
qed (auto simp: voucher_ref_def voucher_sign_def Let_def ed_ref_def signing_bytes_def)

text \<open>
  C32. The frame codec is exact: an encoded frame decodes to itself, and neither the encoding
  with any bytes appended nor any strict prefix of it decodes; both give
  MalformedFrame. In particular a peer that appends a field to a frame is rejected.
\<close>

theorem transit_frame_exact:
  assumes "postcard_codec P" and "encode_frame P frame = Inr bs"
  shows "decode_frame P bs = Inr frame \<and>
    (\<forall>tail. tail \<noteq> [] \<longrightarrow> decode_frame P (bs @ tail) = Inl TransitMalformedFrame) \<and>
    (\<forall>n < length bs. decode_frame P (take n bs) = Inl TransitMalformedFrame)"
proof -
  from assms(2) have ser: "pc_to_vec P frame = Inr bs"
    by (simp add: encode_frame_def split: sum.splits)
  have "decode_frame P (take n bs) = Inl TransitMalformedFrame" if "n < length bs" for n
    using postcard_codec.take_truncated [OF assms(1) ser that] by (auto simp: decode_frame_def)
  with postcard_codec.take_ser [OF assms(1) ser] postcard_codec.take_exact [OF assms(1) ser]
  show ?thesis by (simp add: decode_frame_def)
qed

theorem transit_frame_exact_witness:
  "decode_frame pc_frame_ref [5, 1, 2, 104, 105] = Inr (Bye (Some ''hi'')) \<and>
   decode_frame pc_frame_ref ([5, 1, 2, 104, 105] @ [0]) = Inl TransitMalformedFrame \<and>
   decode_frame pc_frame_ref (take 3 [5, 1, 2, 104, 105]) = Inl TransitMalformedFrame"
proof -
  have "encode_frame pc_frame_ref (Bye (Some ''hi'')) = Inr [5, 1, 2, 104, 105]"
    by code_simp
  note exact = transit_frame_exact [OF pfr.postcard_codec_axioms this]
  from exact show ?thesis
    using conjunct2 [OF conjunct2 [OF exact], rule_format, of 3] by simp
qed

end
