(* ===== verification/Payload_Codec.thy ===== *)
theory Payload_Codec
  imports Postcard
begin

section \<open>codec.rs: payload encoding with the crate's error type\<close>

text \<open>
  The three wrappers of \<^verbatim>\<open>src/codec.rs\<close> around postcard: a postcard failure becomes
  \<^verbatim>\<open>RpcError::Codec\<close>; \<open>encode_to\<close> appends to the buffer passed in. The codec of the
  payload type is the parameter \<open>P\<close>.
\<close>

definition codec_encode :: "'a postcard \<Rightarrow> 'a \<Rightarrow> bytes rpc_result" where
  "codec_encode P val =
     (case pc_to_vec P val of Inl e \<Rightarrow> Inl (Codec e) | Inr bs \<Rightarrow> Inr bs)"

definition codec_decode :: "'a postcard \<Rightarrow> bytes \<Rightarrow> 'a rpc_result" where
  "codec_decode P bs =
     (case pc_from_bytes P bs of Inl e \<Rightarrow> Inl (Codec e) | Inr x \<Rightarrow> Inr x)"

definition encode_to :: "'a postcard \<Rightarrow> 'a \<Rightarrow> bytes \<Rightarrow> bytes rpc_result" where
  "encode_to P val buf =
     (case pc_to_vec P val of Inl e \<Rightarrow> Inl (Codec e) | Inr bs \<Rightarrow> Inr (buf @ bs))"

context postcard_codec begin

lemma decode_encode: "codec_encode P x = Inr bs \<Longrightarrow> codec_decode P (bs @ rest) = Inr x"
  by (auto simp: codec_encode_def codec_decode_def from_ser_more split: sum.splits)

lemma encode_to_encode:
  "encode_to P x buf =
    (case codec_encode P x of Inl e \<Rightarrow> Inl e | Inr bs \<Rightarrow> Inr (buf @ bs))"
  by (simp add: encode_to_def codec_encode_def split: sum.split)

lemma decode_only_codec: "codec_decode P bs = Inl e \<Longrightarrow> \<exists>m. e = Codec m"
  by (auto simp: codec_decode_def split: sum.splits)

lemma decode_truncated:
  "codec_encode P x = Inr bs \<Longrightarrow> n < length bs \<Longrightarrow> \<exists>m. codec_decode P (take n bs) = Inl (Codec m)"
  using from_truncated [of x bs n]
  by (auto simp: codec_encode_def codec_decode_def split: sum.splits)

end

text \<open>
  A payload encoded into a buffer is found behind the bytes already there, and decodes to the
  value even with further bytes after it; every strict prefix of the encoding is a codec error,
  never a wrong value.
\<close>

theorem encode_to_roundtrip:
  assumes "postcard_codec P" and "encode_to P x buf = Inr out"
  shows "\<exists>bs. out = buf @ bs \<and> codec_decode P (bs @ rest) = Inr x \<and>
    (\<forall>n < length bs. \<exists>m. codec_decode P (take n bs) = Inl (Codec m))"
proof -
  from assms(2) obtain bs where bs: "codec_encode P x = Inr bs" "out = buf @ bs"
    by (auto simp: encode_to_def codec_encode_def split: sum.splits)
  with postcard_codec.decode_encode [OF assms(1) bs(1)] postcard_codec.decode_truncated [OF assms(1) bs(1)]
  show ?thesis by blast
qed

theorem encode_to_roundtrip_witness:
  "\<exists>bs. [0xFF, 0xFE, 2, 104, 105] = [0xFF, 0xFE] @ bs \<and>
     codec_decode (postcard_of fmt_str) (bs @ [7]) = Inr ''hi'' \<and>
     (\<forall>n < length bs. \<exists>m. codec_decode (postcard_of fmt_str) (take n bs) = Inl (Codec m))"
proof -
  have "encode_to (postcard_of fmt_str) ''hi'' [0xFF, 0xFE] = Inr [0xFF, 0xFE, 2, 104, 105]"
    by code_simp
  then show ?thesis
    by (rule encode_to_roundtrip [OF pc_str.postcard_codec_axioms])
qed

end
