(* ===== verification/Wire.thy ===== *)
theory Wire
  imports Postcard
begin

section \<open>wire.rs: opcodes, method-name prefix, stream-id prefix\<close>

text \<open>
  The opcode constants and size bounds, and the two length-prefix codecs of
  \<^verbatim>\<open>src/wire.rs\<close>. The third-party varint reader and writer are the parameter \<open>L\<close>.
  A buffer that the code appends to is passed in and returned.
\<close>

definition MAX_STREAMING_PAYLOAD_LEN :: nat where
  "MAX_STREAMING_PAYLOAD_LEN = 8 * 1024 * 1024"

definition MAX_METHOD_NAME_LEN :: nat where
  "MAX_METHOD_NAME_LEN = 4096"

definition OPCODE_UNARY_REQUEST :: u8 where "OPCODE_UNARY_REQUEST = 0x00"
definition OPCODE_UNARY_RESPONSE :: u8 where "OPCODE_UNARY_RESPONSE = 0x01"
definition OPCODE_UNARY_ERROR :: u8 where "OPCODE_UNARY_ERROR = 0x02"
definition OPCODE_STREAMING_OPEN_REQUEST :: u8 where "OPCODE_STREAMING_OPEN_REQUEST = 0x10"
definition OPCODE_STREAMING_OPEN_RESPONSE :: u8 where "OPCODE_STREAMING_OPEN_RESPONSE = 0x11"
definition OPCODE_STREAMING_REQUEST_CHUNK :: u8 where "OPCODE_STREAMING_REQUEST_CHUNK = 0x20"
definition OPCODE_STREAMING_RESPONSE_CHUNK :: u8 where "OPCODE_STREAMING_RESPONSE_CHUNK = 0x21"
definition OPCODE_STREAMING_REQUEST_END :: u8 where "OPCODE_STREAMING_REQUEST_END = 0x30"
definition OPCODE_STREAMING_RESPONSE_END :: u8 where "OPCODE_STREAMING_RESPONSE_END = 0x31"
definition OPCODE_STREAMING_ERROR :: u8 where "OPCODE_STREAMING_ERROR = 0x40"

lemmas opcode_defs = OPCODE_UNARY_REQUEST_def OPCODE_UNARY_RESPONSE_def OPCODE_UNARY_ERROR_def
  OPCODE_STREAMING_OPEN_REQUEST_def OPCODE_STREAMING_OPEN_RESPONSE_def
  OPCODE_STREAMING_REQUEST_CHUNK_def OPCODE_STREAMING_RESPONSE_CHUNK_def
  OPCODE_STREAMING_REQUEST_END_def OPCODE_STREAMING_RESPONSE_END_def OPCODE_STREAMING_ERROR_def

definition encode_method_name :: "leb128 \<Rightarrow> string \<Rightarrow> bytes \<Rightarrow> bytes rpc_result" where
  "encode_method_name L name buf =
     (let name_bytes = str_bytes name in
      case u64_try_from (length name_bytes) of
        Inl e \<Rightarrow> Inl (MalformedFrame (''method-name length overflow: '' @ e))
      | Inr len \<Rightarrow>
          (case leb_write L len of
             Inl e \<Rightarrow> Inl (MalformedFrame (''leb128 write: '' @ e))
           | Inr prefix_bytes \<Rightarrow> Inr (buf @ prefix_bytes @ name_bytes)))"

definition decode_method_name :: "leb128 \<Rightarrow> bytes \<Rightarrow> (string \<times> bytes) rpc_result" where
  "decode_method_name L input =
     (case leb_read L input of
        Inl e \<Rightarrow> Inl (MalformedFrame (''leb128 read: '' @ e))
      | Inr (name_len_u64, consumed) \<Rightarrow>
          (case usize_try_from name_len_u64 of
             Inl e \<Rightarrow> Inl (MalformedFrame (''name-length overflow: '' @ e))
           | Inr name_len \<Rightarrow>
               if name_len > MAX_METHOD_NAME_LEN then
                 Inl (MalformedFrame (''method-name length '' @ show_nat name_len @
                   '' exceeds maximum '' @ show_nat MAX_METHOD_NAME_LEN))
               else
                 (case checked_add_usize consumed name_len of
                    None \<Rightarrow> Inl (MalformedFrame ''method-name length exceeds buffer'')
                  | Some name_end \<Rightarrow>
                      if \<not> name_end \<le> length input then
                        Inl (MalformedFrame ''method-name length exceeds buffer'')
                      else
                        (case from_utf8 (drop consumed (take name_end input)) of
                           Inl e \<Rightarrow> Inl (MalformedFrame (''non-UTF-8 method-name: '' @ show_utf8_error e))
                         | Inr name \<Rightarrow> Inr (name, drop name_end input)))))"

definition encode_stream_id :: "leb128 \<Rightarrow> u64 \<Rightarrow> bytes \<Rightarrow> bytes rpc_result" where
  "encode_stream_id L stream_id buf =
     (case leb_write L stream_id of
        Inl e \<Rightarrow> Inl (MalformedFrame (''leb128 write stream-id: '' @ e))
      | Inr prefix_bytes \<Rightarrow> Inr (buf @ prefix_bytes))"

definition decode_stream_id :: "leb128 \<Rightarrow> bytes \<Rightarrow> (u64 \<times> bytes) rpc_result" where
  "decode_stream_id L input =
     (case leb_read L input of
        Inl e \<Rightarrow> Inl (MalformedFrame (''leb128 read stream-id: '' @ e))
      | Inr (stream_id, consumed) \<Rightarrow> Inr (stream_id, drop consumed input))"

subsection \<open>Lemmas under the varint contract\<close>

context leb128_codec begin

lemma encode_method_name_eq:
  "length name < 2 ^ 64 \<Longrightarrow>
   encode_method_name L name buf = Inr (buf @ uleb (length name) @ str_bytes name)"
  by (simp add: encode_method_name_def u64_try_from_def write_uleb unat_of_nat)

lemma read_uleb_nat:
  "n < 2 ^ 64 \<Longrightarrow> leb_read L (uleb n @ rest) = Inr (word_of_nat n, length (uleb n))"
  using read_uleb [of "word_of_nat n" rest] by (simp add: unat_of_nat)

lemma length_uleb_nat: "n < 2 ^ 64 \<Longrightarrow> length (uleb n) \<le> 10"
  using length_uleb_u64 [of "word_of_nat n"] by (simp add: unat_of_nat)

lemma decode_method_name_ok:
  assumes "rust_str name" "length name \<le> MAX_METHOD_NAME_LEN"
  shows "decode_method_name L (uleb (length name) @ str_bytes name @ rest) = Inr (name, rest)"
proof -
  have len: "length name \<le> 4096" using assms(2) by (simp add: MAX_METHOD_NAME_LEN_def)
  then have u: "length (uleb (length name)) \<le> 10" by (intro length_uleb_nat) simp
  show ?thesis
    using len u assms(1)
    by (simp add: decode_method_name_def read_uleb_nat usize_try_from_def unat_of_nat
        MAX_METHOD_NAME_LEN_def checked_add_usize_def)
qed

lemma decode_method_name_oversize:
  assumes "MAX_METHOD_NAME_LEN < n" "n < 2 ^ 64"
  shows "decode_method_name L (uleb n @ rest) =
    Inl (MalformedFrame (''method-name length '' @ show_nat n @ '' exceeds maximum '' @ show_nat 4096))"
  using assms by (simp add: decode_method_name_def read_uleb_nat usize_try_from_def unat_of_nat
      MAX_METHOD_NAME_LEN_def)

lemma decode_method_name_sound:
  assumes "decode_method_name L input = Inr (name, rest)"
  shows "\<exists>hdr. input = hdr @ str_bytes name @ rest \<and>
    leb_read L input = Inr (word_of_nat (length name), length hdr) \<and>
    rust_str name \<and> length name \<le> MAX_METHOD_NAME_LEN"
proof -
  from assms obtain w c where rd: "leb_read L input = Inr (w, c)"
    and max: "unat w \<le> MAX_METHOD_NAME_LEN" and fits: "c + unat w \<le> length input"
    and utf: "from_utf8 (drop c (take (c + unat w) input)) = Inr name"
    and rest: "rest = drop (c + unat w) input"
    by (auto simp: decode_method_name_def usize_try_from_def checked_add_usize_def
        split: sum.splits option.splits if_splits)
  from from_utf8_Inr [OF utf] have nm: "drop c (take (c + unat w) input) = str_bytes name"
    and ok: "rust_str name" by simp_all
  from nm have len: "length name = unat w"
    using fits length_str_bytes [of name] by (metis add_diff_cancel_left' length_drop length_take min.absorb2)
  have "input = take (c + unat w) input @ rest" by (simp add: rest)
  also have "take (c + unat w) input = take c input @ str_bytes name"
    using nm append_take_drop_id [of c "take (c + unat w) input"] by (simp add: min_def)
  finally have "input = take c input @ str_bytes name @ rest" by simp
  moreover have "length (take c input) = c" using fits by simp
  ultimately show ?thesis using rd max ok len by (intro exI [of _ "take c input"]) simp
qed

lemma decode_method_name_only_malformed:
  "decode_method_name L input = Inl e \<Longrightarrow> \<exists>m. e = MalformedFrame m"
  by (auto simp: decode_method_name_def Let_def split: sum.splits option.splits if_splits)

lemma encode_stream_id_eq: "encode_stream_id L sid buf = Inr (buf @ uleb (unat sid))"
  by (simp add: encode_stream_id_def write_uleb)

lemma decode_stream_id_ok: "decode_stream_id L (uleb (unat sid) @ rest) = Inr (sid, rest)"
  by (simp add: decode_stream_id_def read_uleb)

lemma decode_stream_id_only_malformed:
  "decode_stream_id L input = Inl e \<Longrightarrow> \<exists>m. e = MalformedFrame m"
  by (auto simp: decode_stream_id_def split: sum.splits)

lemma decode_stream_id_open:
  assumes "\<forall>b \<in> set input. 128 \<le> unat b"
  shows "\<exists>m. decode_stream_id L input = Inl (MalformedFrame m)"
  using read_open [OF assms] by (auto simp: decode_stream_id_def)

lemma decode_stream_id_used:
  assumes "decode_stream_id L input = Inr (sid, rest)"
  shows "\<exists>hdr. hdr \<noteq> [] \<and> input = hdr @ rest"
proof -
  from assms obtain n where "leb_read L input = Inr (sid, n)" "rest = drop n input"
    by (auto simp: decode_stream_id_def split: sum.splits)
  with read_bound [of input sid n] show ?thesis
    by (intro exI [of _ "take n input"]) auto
qed

end

text \<open>With the exact law the id is the number that the consumed bytes spell.\<close>

context leb128_exact begin

lemma decode_stream_id_header:
  assumes "varint_bytes hdr" "decode_stream_id L (hdr @ rest) = Inr (sid, tail_bytes)"
  shows "tail_bytes = rest \<and> uval hdr = unat sid"
proof -
  from assms(2) obtain n where "leb_read L (hdr @ rest) = Inr (sid, n)" "tail_bytes = drop n (hdr @ rest)"
    by (auto simp: decode_stream_id_def split: sum.splits)
  with read_header [OF assms(1) this(1)] show ?thesis by simp
qed

end

subsection \<open>Properties\<close>

text \<open>
  C26. The method-name prefix: a name of at most 4096 bytes written behind other bytes is read back
  from there with exactly the following bytes left over, while a longer one is still written but
  rejected by every reader; and whatever is decoded from any input was spelled in it, is valid
  UTF-8 and within the bound.
\<close>

theorem method_name_prefix:
  assumes L: "leb128_codec L" and name: "rust_str name" "length name < 2 ^ 64"
  shows "\<exists>pre. encode_method_name L name buf = Inr (buf @ pre) \<and>
     decode_method_name L (pre @ rest) =
       (if length name \<le> MAX_METHOD_NAME_LEN then Inr (name, rest)
        else Inl (MalformedFrame (''method-name length '' @ show_nat (length name) @
          '' exceeds maximum '' @ show_nat 4096))) \<and>
     (\<forall>s tail_bytes. decode_method_name L input = Inr (s, tail_bytes) \<longrightarrow>
       (\<exists>hdr. input = hdr @ str_bytes s @ tail_bytes) \<and> rust_str s \<and> length s \<le> MAX_METHOD_NAME_LEN)"
proof (rule exI [of _ "uleb (length name) @ str_bytes name"], intro conjI allI impI)
  show "encode_method_name L name buf = Inr (buf @ uleb (length name) @ str_bytes name)"
    by (rule leb128_codec.encode_method_name_eq [OF L name(2)])
  show "decode_method_name L ((uleb (length name) @ str_bytes name) @ rest) =
       (if length name \<le> MAX_METHOD_NAME_LEN then Inr (name, rest)
        else Inl (MalformedFrame (''method-name length '' @ show_nat (length name) @
          '' exceeds maximum '' @ show_nat 4096)))"
    using leb128_codec.decode_method_name_ok [OF L name(1), of rest]
      leb128_codec.decode_method_name_oversize [OF L _ name(2), of "str_bytes name @ rest"] by simp
  show "\<exists>hdr. input = hdr @ str_bytes s @ tail_bytes" "rust_str s" "length s \<le> MAX_METHOD_NAME_LEN"
    if "decode_method_name L input = Inr (s, tail_bytes)" for s tail_bytes
    using leb128_codec.decode_method_name_sound [OF L that] by blast+
qed

theorem method_name_prefix_witness:
  "\<exists>pre. encode_method_name leb_ref ''a/b/c'' [0] = Inr ([0] @ pre) \<and>
     decode_method_name leb_ref (pre @ [9]) = Inr (''a/b/c'', [9])"
proof -
  have "rust_str ''a/b/c''" by code_simp
  from method_name_prefix [OF lr.leb128_codec_axioms this, of "[0]" "[9]"] show ?thesis
    by (simp add: MAX_METHOD_NAME_LEN_def) blast
qed

end
