(* ===== verification/Streaming.thy ===== *)
theory Streaming
  imports Wire
begin

section \<open>streaming.rs: frames of a streaming call\<close>

text \<open>
  The bodies of the streaming frames, the frame reader and the frame writers. Streams are the
  abstract values of the interface \<open>Quic\<close>, threaded through; the codecs of the three typed
  bodies are the record \<open>stream_codecs\<close>. The parameters are \<open>L\<close> (leb128), \<open>C\<close> (postcard),
  \<open>R\<close> and \<open>T\<close> (stream operations).
\<close>

record streaming_open_request =
  oreq_method_name :: string
  oreq_request_id :: u64

datatype streaming_open_status = StatusOk | StatusErr string

record streaming_open_response =
  oresp_status :: streaming_open_status
  oresp_request_id :: u64

record streaming_error =
  se_message :: string
  se_terminal :: bool

datatype streaming_frame =
    FOpenRequest streaming_open_request
  | FOpenResponse streaming_open_response
  | FRequestChunk bytes
  | FResponseChunk bytes
  | FRequestEnd
  | FResponseEnd
  | FError streaming_error

record stream_codecs =
  sc_open_request :: "streaming_open_request postcard"
  sc_open_response :: "streaming_open_response postcard"
  sc_error :: "streaming_error postcard"

definition terminal_from :: "string \<Rightarrow> streaming_error" where
  "terminal_from shown = \<lparr>se_message = shown, se_terminal = True\<rparr>"

definition handler_err_to_terminal :: "(string \<Rightarrow> string) \<Rightarrow> rpc_error \<Rightarrow> streaming_error" where
  "handler_err_to_terminal dbg err = terminal_from (rpc_display dbg err)"

subsection \<open>Reading\<close>

fun classify_eof_or_error ::
  "'r recv_ops \<Rightarrow> read_exact_error \<Rightarrow> streaming_frame option rpc_result" where
  "classify_eof_or_error R (FinishedEarly n) =
     (if n = 0 then Inr None
      else Inl (TransportRead (''partial frame: read '' @ show_nat n @ '' bytes before EOF'')))"
| "classify_eof_or_error R (ReadError ClosedStream) = Inr None"
| "classify_eof_or_error R (ReadError (OtherReadError e)) =
     Inl (TransportRead (rx_show_read R (OtherReadError e)))"

definition read_length_prefixed :: "'r recv_ops \<Rightarrow> 'r \<Rightarrow> bytes rpc_result \<times> 'r" where
  "read_length_prefixed R recv =
     (case read_varint_u64 R recv of
        (Inl e, recv1) \<Rightarrow> (Inl e, recv1)
      | (Inr len, recv1) \<Rightarrow>
          (case usize_try_from len of
             Inl e \<Rightarrow> (Inl (MalformedFrame (''streaming payload length overflow: '' @ e)), recv1)
           | Inr len_usize \<Rightarrow>
               if len_usize > MAX_STREAMING_PAYLOAD_LEN then
                 (Inl (MalformedFrame (''streaming payload length '' @ show_nat len_usize @
                    '' exceeds maximum '' @ show_nat MAX_STREAMING_PAYLOAD_LEN)), recv1)
               else if len_usize = 0 then (Inr [], recv1)
               else
                 (case rx_exact R recv1 len_usize of
                    (Inl e, recv2) \<Rightarrow>
                      (Inl (TransportRead (''streaming payload body: '' @ rx_show R e)), recv2)
                  | (Inr buf, recv2) \<Rightarrow> (Inr buf, recv2))))"

text \<open>
  \<open>read_body\<close> is the shape four arms of the match share: read the length-prefixed bytes, then
  turn them into the frame.
\<close>

definition read_body ::
  "'r recv_ops \<Rightarrow> (bytes \<Rightarrow> streaming_frame rpc_result) \<Rightarrow> 'r \<Rightarrow> streaming_frame rpc_result \<times> 'r"
  where
  "read_body R parse recv =
     (case read_length_prefixed R recv of
        (Inl e, recv1) \<Rightarrow> (Inl e, recv1)
      | (Inr bs, recv1) \<Rightarrow> (parse bs, recv1))"

definition parse_typed ::
  "'a postcard \<Rightarrow> ('a \<Rightarrow> streaming_frame) \<Rightarrow> bytes \<Rightarrow> streaming_frame rpc_result" where
  "parse_typed P mk bs =
     (case pc_from_bytes P bs of Inl e \<Rightarrow> Inl (Codec e) | Inr body \<Rightarrow> Inr (mk body))"

definition read_streaming_frame_after_opcode ::
  "'r recv_ops \<Rightarrow> stream_codecs \<Rightarrow> 'r \<Rightarrow> u8 \<Rightarrow> streaming_frame rpc_result \<times> 'r" where
  "read_streaming_frame_after_opcode R C recv opcode =
     (if opcode = OPCODE_STREAMING_OPEN_REQUEST then
        read_body R (parse_typed (sc_open_request C) FOpenRequest) recv
      else if opcode = OPCODE_STREAMING_OPEN_RESPONSE then
        read_body R (parse_typed (sc_open_response C) FOpenResponse) recv
      else if opcode = OPCODE_STREAMING_REQUEST_CHUNK then
        read_body R (\<lambda>bs. Inr (FRequestChunk bs)) recv
      else if opcode = OPCODE_STREAMING_RESPONSE_CHUNK then
        read_body R (\<lambda>bs. Inr (FResponseChunk bs)) recv
      else if opcode = OPCODE_STREAMING_REQUEST_END then (Inr FRequestEnd, recv)
      else if opcode = OPCODE_STREAMING_RESPONSE_END then (Inr FResponseEnd, recv)
      else if opcode = OPCODE_STREAMING_ERROR then
        read_body R (parse_typed (sc_error C) FError) recv
      else (Inl (MalformedFrame (''unexpected streaming opcode 0x'' @ hex02 opcode)), recv))"

definition read_streaming_frame ::
  "'r recv_ops \<Rightarrow> stream_codecs \<Rightarrow> 'r \<Rightarrow> streaming_frame option rpc_result \<times> 'r" where
  "read_streaming_frame R C recv =
     (case rx_exact R recv 1 of
        (Inl e, recv1) \<Rightarrow> (classify_eof_or_error R e, recv1)
      | (Inr opcode_buf, recv1) \<Rightarrow>
          (case read_streaming_frame_after_opcode R C recv1 (hd opcode_buf) of
             (Inl e, recv2) \<Rightarrow> (Inl e, recv2)
           | (Inr frame, recv2) \<Rightarrow> (Inr (Some frame), recv2)))"

subsection \<open>Writing\<close>

definition write_length_prefixed ::
  "leb128 \<Rightarrow> 't send_ops \<Rightarrow> 't \<Rightarrow> u8 \<Rightarrow> bytes \<Rightarrow> unit rpc_result \<times> 't" where
  "write_length_prefixed L T send opcode body =
     (case u64_try_from (length body) of
        Inl e \<Rightarrow> (Inl (MalformedFrame (''streaming body length overflow: '' @ e)), send)
      | Inr body_len \<Rightarrow>
          (case encode_varint_u64 L body_len [opcode] of
             Inl e \<Rightarrow> (Inl e, send)
           | Inr buf \<Rightarrow>
               (case tx_write T send (buf @ body) of
                  (Inl e, send1) \<Rightarrow> (Inl (TransportWrite (''streaming write_all: '' @ e)), send1)
                | (Inr _, send1) \<Rightarrow> (Inr (), send1))))"

definition write_single_opcode :: "'t send_ops \<Rightarrow> 't \<Rightarrow> u8 \<Rightarrow> unit rpc_result \<times> 't" where
  "write_single_opcode T send opcode =
     (case tx_write T send [opcode] of
        (Inl e, send1) \<Rightarrow> (Inl (TransportWrite (''streaming opcode-only write: '' @ e)), send1)
      | (Inr _, send1) \<Rightarrow> (Inr (), send1))"

definition write_open_request ::
  "leb128 \<Rightarrow> 't send_ops \<Rightarrow> stream_codecs \<Rightarrow> 't \<Rightarrow> streaming_open_request \<Rightarrow> unit rpc_result \<times> 't" where
  "write_open_request L T C send body =
     (case pc_to_vec (sc_open_request C) body of
        Inl e \<Rightarrow> (Inl (Codec e), send)
      | Inr encoded \<Rightarrow> write_length_prefixed L T send OPCODE_STREAMING_OPEN_REQUEST encoded)"

definition write_open_response ::
  "leb128 \<Rightarrow> 't send_ops \<Rightarrow> stream_codecs \<Rightarrow> 't \<Rightarrow> streaming_open_response \<Rightarrow> unit rpc_result \<times> 't" where
  "write_open_response L T C send body =
     (case pc_to_vec (sc_open_response C) body of
        Inl e \<Rightarrow> (Inl (Codec e), send)
      | Inr encoded \<Rightarrow> write_length_prefixed L T send OPCODE_STREAMING_OPEN_RESPONSE encoded)"

definition write_request_chunk ::
  "leb128 \<Rightarrow> 't send_ops \<Rightarrow> 't \<Rightarrow> bytes \<Rightarrow> unit rpc_result \<times> 't" where
  "write_request_chunk L T send bs = write_length_prefixed L T send OPCODE_STREAMING_REQUEST_CHUNK bs"

definition write_response_chunk ::
  "leb128 \<Rightarrow> 't send_ops \<Rightarrow> 't \<Rightarrow> bytes \<Rightarrow> unit rpc_result \<times> 't" where
  "write_response_chunk L T send bs = write_length_prefixed L T send OPCODE_STREAMING_RESPONSE_CHUNK bs"

definition write_request_end :: "'t send_ops \<Rightarrow> 't \<Rightarrow> unit rpc_result \<times> 't" where
  "write_request_end T send = write_single_opcode T send OPCODE_STREAMING_REQUEST_END"

definition write_response_end :: "'t send_ops \<Rightarrow> 't \<Rightarrow> unit rpc_result \<times> 't" where
  "write_response_end T send = write_single_opcode T send OPCODE_STREAMING_RESPONSE_END"

definition write_streaming_error ::
  "leb128 \<Rightarrow> 't send_ops \<Rightarrow> stream_codecs \<Rightarrow> 't \<Rightarrow> streaming_error \<Rightarrow> unit rpc_result \<times> 't" where
  "write_streaming_error L T C send body =
     (case pc_to_vec (sc_error C) body of
        Inl e \<Rightarrow> (Inl (Codec e), send)
      | Inr encoded \<Rightarrow> write_length_prefixed L T send OPCODE_STREAMING_ERROR encoded)"

subsection \<open>The frame layout\<close>

text \<open>
  The wire layout the documentation draws, \<^verbatim>\<open>[opcode | varint(len) | bytes]\<close> or a
  single opcode: what a reader and a writer of a frame agree on. \<open>write_frame\<close> is the writer the
  code uses for each kind of frame.
\<close>

fun frame_opcode :: "streaming_frame \<Rightarrow> u8" where
  "frame_opcode (FOpenRequest _) = OPCODE_STREAMING_OPEN_REQUEST"
| "frame_opcode (FOpenResponse _) = OPCODE_STREAMING_OPEN_RESPONSE"
| "frame_opcode (FRequestChunk _) = OPCODE_STREAMING_REQUEST_CHUNK"
| "frame_opcode (FResponseChunk _) = OPCODE_STREAMING_RESPONSE_CHUNK"
| "frame_opcode FRequestEnd = OPCODE_STREAMING_REQUEST_END"
| "frame_opcode FResponseEnd = OPCODE_STREAMING_RESPONSE_END"
| "frame_opcode (FError _) = OPCODE_STREAMING_ERROR"

fun frame_payload :: "stream_codecs \<Rightarrow> streaming_frame \<Rightarrow> postcard_error + bytes option" where
  "frame_payload C (FOpenRequest b) = map_sum id Some (pc_to_vec (sc_open_request C) b)"
| "frame_payload C (FOpenResponse b) = map_sum id Some (pc_to_vec (sc_open_response C) b)"
| "frame_payload C (FRequestChunk bs) = Inr (Some bs)"
| "frame_payload C (FResponseChunk bs) = Inr (Some bs)"
| "frame_payload C FRequestEnd = Inr None"
| "frame_payload C FResponseEnd = Inr None"
| "frame_payload C (FError b) = map_sum id Some (pc_to_vec (sc_error C) b)"

definition frame_raw :: "streaming_frame \<Rightarrow> bytes option \<Rightarrow> bytes" where
  "frame_raw f p = frame_opcode f # (case p of None \<Rightarrow> [] | Some b \<Rightarrow> uleb (length b) @ b)"

definition frame_bytes :: "stream_codecs \<Rightarrow> streaming_frame \<Rightarrow> bytes option" where
  "frame_bytes C f = (case frame_payload C f of Inl _ \<Rightarrow> None | Inr p \<Rightarrow> Some (frame_raw f p))"

text \<open>The payload does not exceed the bound the reader enforces, or any length at all.\<close>

definition payload_within :: "nat \<Rightarrow> stream_codecs \<Rightarrow> streaming_frame \<Rightarrow> bool" where
  "payload_within n C f \<longleftrightarrow> (case frame_payload C f of Inr (Some b) \<Rightarrow> length b \<le> n | _ \<Rightarrow> True)"

definition codecs_ok :: "stream_codecs \<Rightarrow> bool" where
  "codecs_ok C \<longleftrightarrow> postcard_codec (sc_open_request C) \<and> postcard_codec (sc_open_response C) \<and>
     postcard_codec (sc_error C)"

fun write_frame ::
  "leb128 \<Rightarrow> 't send_ops \<Rightarrow> stream_codecs \<Rightarrow> 't \<Rightarrow> streaming_frame \<Rightarrow> unit rpc_result \<times> 't" where
  "write_frame L T C t (FOpenRequest b) = write_open_request L T C t b"
| "write_frame L T C t (FOpenResponse b) = write_open_response L T C t b"
| "write_frame L T C t (FRequestChunk bs) = write_request_chunk L T t bs"
| "write_frame L T C t (FResponseChunk bs) = write_response_chunk L T t bs"
| "write_frame L T C t FRequestEnd = write_request_end T t"
| "write_frame L T C t FResponseEnd = write_response_end T t"
| "write_frame L T C t (FError b) = write_streaming_error L T C t b"

lemmas write_defs = write_open_request_def write_open_response_def write_request_chunk_def
  write_response_chunk_def write_request_end_def write_response_end_def write_streaming_error_def

lemma map_sum_Some_Inr: "map_sum id Some x = Inr p \<longleftrightarrow> (\<exists>b. x = Inr b \<and> p = Some b)"
  by (cases x) auto

lemma frame_bytes_Some:
  "frame_bytes C f = Some bs \<longleftrightarrow> (\<exists>p. frame_payload C f = Inr p \<and> bs = frame_raw f p)"
  by (auto simp: frame_bytes_def split: sum.splits)

context quic_send begin

lemma write_length_prefixed_ok:
  assumes "leb128_codec L" "healthy t" "length body < 2 ^ 64"
  obtains t' where "write_length_prefixed L T t opc body = (Inr (), t')" "healthy t'"
    "written t' = written t @ opc # uleb (length body) @ body" "closed t' = closed t"
proof -
  from healthy_write [OF assms(2), of "opc # uleb (length body) @ body"]
  obtain t' where w: "tx_write T t (opc # uleb (length body) @ body) = (Inr (), t')" "healthy t'"
    by auto
  have "write_length_prefixed L T t opc body = (Inr (), t')"
    using w(1) assms(3) by (simp add: write_length_prefixed_def u64_try_from_def
        encode_varint_u64_def leb128_codec.write_uleb [OF assms(1)] unat_of_nat)
  with w write_ok [OF w(1)] show thesis by (simp add: that [of t'])
qed

lemma write_single_opcode_ok:
  assumes "healthy t"
  obtains t' where "write_single_opcode T t opc = (Inr (), t')" "healthy t'"
    "written t' = written t @ [opc]" "closed t' = closed t"
proof -
  from healthy_write [OF assms, of "[opc]"]
  obtain t' where w: "tx_write T t [opc] = (Inr (), t')" "healthy t'" by auto
  then have "write_single_opcode T t opc = (Inr (), t')" by (simp add: write_single_opcode_def)
  with w write_ok [OF w(1)] show thesis by (simp add: that [of t'])
qed

lemma write_frame_ok:
  assumes L: "leb128_codec L" and t: "healthy t" and f: "frame_bytes C f = Some bs"
    and len: "payload_within (2 ^ 64 - 1) C f"
  obtains t' where "write_frame L T C t f = (Inr (), t')" "healthy t'"
    "written t' = written t @ bs" "closed t' = closed t"
proof -
  from f obtain p where p: "frame_payload C f = Inr p" "bs = frame_raw f p"
    by (auto simp: frame_bytes_Some)
  show thesis
  proof (cases p)
    case None
    then have eq: "write_frame L T C t f = write_single_opcode T t (frame_opcode f)"
      using p(1) by (cases f) (auto simp: write_defs map_sum_Some_Inr)
    from write_single_opcode_ok [OF t, of "frame_opcode f"] obtain t' where
      "write_single_opcode T t (frame_opcode f) = (Inr (), t')" "healthy t'"
      "written t' = written t @ [frame_opcode f]" "closed t' = closed t" by blast
    with eq p(2) None show thesis by (simp add: that [of t'] frame_raw_def)
  next
    case (Some b)
    then have eq: "write_frame L T C t f = write_length_prefixed L T t (frame_opcode f) b"
      using p(1) by (cases f) (auto simp: write_defs map_sum_Some_Inr)
    have len: "length b < 2 ^ 64" using len p(1) Some by (simp add: payload_within_def)
    from write_length_prefixed_ok [OF L t len, of "frame_opcode f"] obtain t' where
      "write_length_prefixed L T t (frame_opcode f) b = (Inr (), t')" "healthy t'"
      "written t' = written t @ frame_opcode f # uleb (length b) @ b" "closed t' = closed t" by blast
    with eq p(2) Some show thesis by (simp add: that [of t'] frame_raw_def)
  qed
qed

end

lemma varint_bytes_take:
  "varint_bytes vs \<Longrightarrow> k < length vs \<Longrightarrow> \<forall>b \<in> set (take k vs). 128 \<le> unat b"
  by (induction vs arbitrary: k) (auto simp: varint_bytes_Cons take_Cons split: if_splits nat.splits)

context quic_recv begin

lemma read_uleb_nat:
  assumes "content r = uleb n @ rest" "n < 2 ^ 64"
  obtains r' where "read_varint_u64 R r = (Inr (word_of_nat n), r')" "content r' = rest"
    "ended r' = ended r"
  using read_varint_uleb [of r "word_of_nat n" rest] assms by (auto simp: unat_of_nat)

lemma read_length_prefixed_ok:
  assumes "content r = uleb (length b) @ b @ rest" "length b \<le> MAX_STREAMING_PAYLOAD_LEN"
  obtains r' where "read_length_prefixed R r = (Inr b, r')" "content r' = rest" "ended r' = ended r"
proof -
  have len: "length b < 2 ^ 64" using assms(2) by (simp add: MAX_STREAMING_PAYLOAD_LEN_def)
  from read_uleb_nat [OF assms(1) len] obtain r1 where
    r1: "read_varint_u64 R r = (Inr (word_of_nat (length b)), r1)" "content r1 = b @ rest"
    "ended r1 = ended r" by blast
  show thesis
  proof (cases "b = []")
    case True
    with r1 have "read_length_prefixed R r = (Inr b, r1)"
      by (simp add: read_length_prefixed_def usize_try_from_def)
    with r1 True show thesis by (simp add: that [of r1])
  next
    case False
    from exact_append [OF r1(2)] obtain r2 where
      r2: "rx_exact R r1 (length b) = (Inr b, r2)" "content r2 = rest" "ended r2 = ended r1" by blast
    with r1 False len assms(2) have "read_length_prefixed R r = (Inr b, r2)"
      by (simp add: read_length_prefixed_def usize_try_from_def unat_of_nat)
    with r1 r2 show thesis by (simp add: that [of r2])
  qed
qed

lemma read_length_prefixed_oversize:
  assumes "content r = uleb n @ rest" "MAX_STREAMING_PAYLOAD_LEN < n" "n < 2 ^ 64"
  obtains r' where "read_length_prefixed R r = (Inl (MalformedFrame (''streaming payload length '' @
      show_nat n @ '' exceeds maximum '' @ show_nat MAX_STREAMING_PAYLOAD_LEN)), r')"
    "content r' = rest"
proof -
  from read_uleb_nat [OF assms(1,3)] obtain r1 where
    r1: "read_varint_u64 R r = (Inr (word_of_nat n), r1)" "content r1 = rest" by blast
  with assms(2,3) show thesis
    by (intro that [of r1]) (simp_all add: read_length_prefixed_def usize_try_from_def unat_of_nat)
qed

lemma read_length_prefixed_short:
  assumes c: "content r = take k (uleb (length b) @ b)" and k: "k < length (uleb (length b) @ b)"
    and b: "length b \<le> MAX_STREAMING_PAYLOAD_LEN"
  obtains m r' where "read_length_prefixed R r = (Inl (TransportRead m), r')"
proof -
  have len: "length b < 2 ^ 64" using b by (simp add: MAX_STREAMING_PAYLOAD_LEN_def)
  show thesis
  proof (cases "k < length (uleb (length b))")
    case True
    have "length (uleb (length b)) \<le> 10"
      using length_uleb_u64 [of "word_of_nat (length b)"] len by (simp add: unat_of_nat)
    with True c have short: "length (content r) < 10" by simp
    then have "take 10 (content r) = take k (uleb (length b))" using c True by simp
    then have "\<forall>x \<in> set (take 10 (content r)). 128 \<le> unat x"
      using varint_bytes_take [OF varint_bytes_uleb True] by simp
    then obtain e r1 where "read_varint_u64 R r = (Inl e, r1)"
      "if 10 \<le> length (content r) then e = MalformedFrame ''streaming varint > 10 bytes''
       else \<exists>m. e = TransportRead m" by (rule read_varint_open)
    with short that [of _ r1] show thesis by (auto simp: read_length_prefixed_def)
  next
    case False
    then have "content r = uleb (length b) @ take (k - length (uleb (length b))) b" using c by simp
    from read_uleb_nat [OF this len] obtain r1 where
      r1: "read_varint_u64 R r = (Inr (word_of_nat (length b)), r1)"
      "content r1 = take (k - length (uleb (length b))) b" by blast
    have short: "length (content r1) < length b" using r1 k False by simp
    from exact_short [OF short] obtain e r2 where "rx_exact R r1 (length b) = (Inl e, r2)" by blast
    moreover have "b \<noteq> []" using short by auto
    ultimately have "read_length_prefixed R r =
      (Inl (TransportRead (''streaming payload body: '' @ rx_show R e)), r2)"
      using r1 len b by (simp add: read_length_prefixed_def usize_try_from_def unat_of_nat)
    then show thesis by (rule that)
  qed
qed

lemma after_opcode_ok:
  assumes C: "codecs_ok C" and p: "frame_payload C f = Inr p"
    and max: "payload_within MAX_STREAMING_PAYLOAD_LEN C f"
    and c: "content r = tl (frame_raw f p) @ rest"
  obtains r' where "read_streaming_frame_after_opcode R C r (frame_opcode f) = (Inr f, r')"
    "content r' = rest" "ended r' = ended r"
proof (cases p)
  case None
  with p have "read_streaming_frame_after_opcode R C r (frame_opcode f) = (Inr f, r)"
    by (cases f) (auto simp: read_streaming_frame_after_opcode_def opcode_defs map_sum_Some_Inr)
  with c None show thesis by (intro that [of r]) (simp_all add: frame_raw_def)
next
  case (Some b)
  with c have "content r = uleb (length b) @ b @ rest" by (simp add: frame_raw_def)
  moreover have "length b \<le> MAX_STREAMING_PAYLOAD_LEN"
    using max p Some by (simp add: payload_within_def)
  ultimately obtain r2 where
    r2: "read_length_prefixed R r = (Inr b, r2)" "content r2 = rest" "ended r2 = ended r"
    by (rule read_length_prefixed_ok)
  have "read_streaming_frame_after_opcode R C r (frame_opcode f) = (Inr f, r2)"
    using p Some r2(1) C
    by (cases f) (auto simp: read_streaming_frame_after_opcode_def read_body_def opcode_defs
        map_sum_Some_Inr parse_typed_def codecs_ok_def postcard_codec.from_ser)
  with r2 show thesis by (intro that [of r2])
qed

lemma read_frame_ok:
  assumes C: "codecs_ok C" and f: "frame_bytes C f = Some bs"
    and max: "payload_within MAX_STREAMING_PAYLOAD_LEN C f" and c: "content r = bs @ rest"
  obtains r' where "read_streaming_frame R C r = (Inr (Some f), r')" "content r' = rest"
    "ended r' = ended r"
proof -
  from f obtain p where p: "frame_payload C f = Inr p" "bs = frame_raw f p"
    by (auto simp: frame_bytes_Some)
  with c have "content r = frame_opcode f # tl (frame_raw f p) @ rest" by (simp add: frame_raw_def)
  from exact_one [OF this] obtain r1 where
    r1: "rx_exact R r (Suc 0) = (Inr [frame_opcode f], r1)" "content r1 = tl (frame_raw f p) @ rest"
    "ended r1 = ended r" .
  from after_opcode_ok [OF C p(1) max r1(2)] obtain r2 where
    "read_streaming_frame_after_opcode R C r1 (frame_opcode f) = (Inr f, r2)" "content r2 = rest"
    "ended r2 = ended r1" .
  with r1 show thesis by (intro that [of r2]) (simp_all add: read_streaming_frame_def)
qed

lemma read_frame_end:
  assumes "content r = []"
  obtains r' where "read_streaming_frame R C r =
    (case ended r of None \<Rightarrow> Inr None
     | Some e \<Rightarrow> classify_eof_or_error R (ReadError e), r')"
proof -
  have "length (content r) < Suc 0" using assms by simp
  from exact_short [OF this] obtain r' where "rx_exact R r (Suc 0) =
    (Inl (case ended r of None \<Rightarrow> FinishedEarly (length (content r)) | Some e \<Rightarrow> ReadError e), r')" .
  with assms show thesis
    by (intro that [of r']) (simp add: read_streaming_frame_def split: option.split)
qed

lemma read_frame_truncated:
  assumes C: "codecs_ok C" and f: "frame_bytes C f = Some bs"
    and max: "payload_within MAX_STREAMING_PAYLOAD_LEN C f"
    and c: "content r = take k bs" and k: "0 < k" "k < length bs"
  obtains m r' where "read_streaming_frame R C r = (Inl (TransportRead m), r')"
proof -
  from f obtain p where p: "frame_payload C f = Inr p" "bs = frame_raw f p"
    by (auto simp: frame_bytes_Some)
  with k obtain b where b: "p = Some b" by (cases p) (auto simp: frame_raw_def)
  obtain k' where k': "k = Suc k'" using k(1) by (cases k) auto
  from c p b k' have "content r = frame_opcode f # take k' (uleb (length b) @ b)"
    by (simp add: frame_raw_def)
  from exact_one [OF this] obtain r1 where
    r1: "rx_exact R r (Suc 0) = (Inr [frame_opcode f], r1)"
    "content r1 = take k' (uleb (length b) @ b)" .
  have "k' < length (uleb (length b) @ b)" using k(2) k' p(2) b by (simp add: frame_raw_def)
  moreover have "length b \<le> MAX_STREAMING_PAYLOAD_LEN"
    using max p(1) b by (simp add: payload_within_def)
  ultimately obtain m r2 where r2: "read_length_prefixed R r1 = (Inl (TransportRead m), r2)"
    using read_length_prefixed_short [OF r1(2)] by blast
  have "read_streaming_frame_after_opcode R C r1 (frame_opcode f) = (Inl (TransportRead m), r2)"
    using p(1) b r2
    by (cases f) (auto simp: read_streaming_frame_after_opcode_def read_body_def opcode_defs)
  with r1 show thesis by (intro that [of m r2]) (simp add: read_streaming_frame_def)
qed

end

subsection \<open>Reading a whole direction of a stream\<close>

text \<open>
  The frames a reader obtains by calling \<open>read_streaming_frame\<close> until it fails, reports the end,
  or \<open>n\<close> calls have been made; and the writer's side of the same list.
\<close>

fun read_frames ::
  "'r recv_ops \<Rightarrow> stream_codecs \<Rightarrow> nat \<Rightarrow> 'r \<Rightarrow> streaming_frame list \<times> unit rpc_result \<times> 'r" where
  "read_frames R C 0 r = ([], Inr (), r)"
| "read_frames R C (Suc n) r =
     (case read_streaming_frame R C r of
        (Inl e, r') \<Rightarrow> ([], Inl e, r')
      | (Inr None, r') \<Rightarrow> ([], Inr (), r')
      | (Inr (Some f), r') \<Rightarrow>
          (case read_frames R C n r' of (fs, res, r'') \<Rightarrow> (f # fs, res, r'')))"

fun write_frames ::
  "leb128 \<Rightarrow> 't send_ops \<Rightarrow> stream_codecs \<Rightarrow> streaming_frame list \<Rightarrow> 't \<Rightarrow> unit rpc_result \<times> 't" where
  "write_frames L T C [] t = (Inr (), t)"
| "write_frames L T C (f # fs) t =
     (case write_frame L T C t f of
        (Inl e, t') \<Rightarrow> (Inl e, t')
      | (Inr _, t') \<Rightarrow> write_frames L T C fs t')"

lemma write_frames_more:
  "write_frames L T C fs t = (Inr (), t1) \<Longrightarrow> write_frames L T C (fs @ gs) t = write_frames L T C gs t1"
  by (induction fs arbitrary: t) (auto split: prod.splits sum.splits)

definition frame_ok :: "stream_codecs \<Rightarrow> streaming_frame \<Rightarrow> bool" where
  "frame_ok C f \<longleftrightarrow> frame_bytes C f \<noteq> None \<and> payload_within MAX_STREAMING_PAYLOAD_LEN C f"

definition frames_bytes :: "stream_codecs \<Rightarrow> streaming_frame list \<Rightarrow> bytes" where
  "frames_bytes C fs = concat (map (\<lambda>f. the (frame_bytes C f)) fs)"

lemma frames_bytes_simps [simp]:
  "frames_bytes C [] = []" "frames_bytes C (f # fs) = the (frame_bytes C f) @ frames_bytes C fs"
  by (simp_all add: frames_bytes_def)

lemma frame_okE:
  assumes "frame_ok C f"
  obtains bs where "frame_bytes C f = Some bs" "payload_within MAX_STREAMING_PAYLOAD_LEN C f"
    "payload_within (2 ^ 64 - 1) C f"
  using assms
  by (auto simp: frame_ok_def payload_within_def MAX_STREAMING_PAYLOAD_LEN_def
      split: sum.splits option.splits)

context quic_send begin

lemma write_frames_ok:
  assumes "leb128_codec L" "healthy t" "\<forall>f \<in> set fs. frame_ok C f"
  shows "\<exists>t'. write_frames L T C fs t = (Inr (), t') \<and> healthy t' \<and>
    written t' = written t @ frames_bytes C fs"
  using assms(2,3)
proof (induction fs arbitrary: t)
  case Nil
  then show ?case by simp
next
  case (Cons f fs)
  then have "frame_ok C f" by simp
  then obtain bs where bs: "frame_bytes C f = Some bs" "payload_within (2 ^ 64 - 1) C f"
    by (rule frame_okE)
  from write_frame_ok [OF assms(1) Cons.prems(1) bs] obtain t1 where
    t1: "write_frame L T C t f = (Inr (), t1)" "healthy t1" "written t1 = written t @ bs" by blast
  from Cons.IH [OF t1(2)] Cons.prems(2) obtain t2 where
    "write_frames L T C fs t1 = (Inr (), t2)" "healthy t2" "written t2 = written t1 @ frames_bytes C fs"
    by auto
  with t1 bs show ?case by simp
qed

end

text \<open>
  On a healthy stream a frame is written whole or, when its body does not encode, not at all.
\<close>

definition writable :: "stream_codecs \<Rightarrow> streaming_frame \<Rightarrow> bool" where
  "writable C f \<longleftrightarrow> frame_bytes C f \<noteq> None \<and> payload_within (2 ^ 64 - 1) C f"

context quic_send begin

lemma write_frame_healthy:
  assumes L: "leb128_codec L" and t: "healthy t"
  obtains (written) t' where "writable C f" "write_frame L T C t f = (Inr (), t')" "healthy t'"
      "written t' = written t @ the (frame_bytes C f)"
    | (refused) e where "\<not> writable C f" "write_frame L T C t f = (Inl e, t)"
proof (cases "writable C f")
  case True
  then obtain bs where bs: "frame_bytes C f = Some bs" "payload_within (2 ^ 64 - 1) C f" by (auto simp: writable_def)
  from write_frame_ok [OF L t bs] obtain t' where
    "write_frame L T C t f = (Inr (), t')" "healthy t'" "written t' = written t @ bs" .
  then show thesis by (intro that(1) [OF True, of t']) (simp_all add: bs(1))
next
  case False
  have "\<exists>e. write_frame L T C t f = (Inl e, t)"
  proof (cases "frame_payload C f")
    case (Inl e)
    then show ?thesis by (cases f) (auto simp: write_defs split: sum.splits)
  next
    case (Inr p)
    with False obtain x where x: "p = Some x" "\<not> length x < 2 ^ 64"
      by (auto simp: writable_def frame_bytes_def payload_within_def split: option.splits)
    with Inr have "write_frame L T C t f = write_length_prefixed L T t (frame_opcode f) x"
      by (cases f) (auto simp: write_defs map_sum_Some_Inr)
    with x(2) show ?thesis by (simp add: write_length_prefixed_def u64_try_from_def)
  qed
  then obtain e where "write_frame L T C t f = (Inl e, t)" ..
  with False show thesis by (rule that(2))
qed

text \<open>Of several frames, those in front of the first that does not encode.\<close>

lemma write_frames_healthy:
  assumes L: "leb128_codec L" and t: "healthy t"
  shows "healthy (snd (write_frames L T C fs t)) \<and>
    written (snd (write_frames L T C fs t)) = written t @ frames_bytes C (takeWhile (writable C) fs)"
  using t
proof (induction fs arbitrary: t)
  case Nil
  then show ?case by simp
next
  case (Cons f fs)
  show ?case
    by (rule write_frame_healthy [OF L Cons.prems, of C f]) (use Cons in simp_all)
qed

end

context quic_recv begin

lemma read_frames_ok:
  assumes "codecs_ok C" "\<forall>f \<in> set fs. frame_ok C f" "content r = frames_bytes C fs"
    "ended r = None" "length fs < n"
  shows "\<exists>r'. read_frames R C n r = (fs, Inr (), r')"
  using assms(2-5)
proof (induction fs arbitrary: r n)
  case Nil
  then obtain k where "n = Suc k" by (cases n) auto
  moreover obtain r' where "read_streaming_frame R C r = (Inr None, r')"
    using read_frame_end [of r C] Nil by auto
  ultimately show ?case by simp
next
  case (Cons f fs)
  then obtain k where n: "n = Suc k" "length fs < k" by (cases n) auto
  from Cons.prems(1) have "frame_ok C f" by simp
  then obtain bs where bs: "frame_bytes C f = Some bs"
    "payload_within MAX_STREAMING_PAYLOAD_LEN C f" by (rule frame_okE)
  with Cons.prems(2) have "content r = bs @ frames_bytes C fs" by simp
  from read_frame_ok [OF assms(1) bs this] obtain r1 where
    r1: "read_streaming_frame R C r = (Inr (Some f), r1)" "content r1 = frames_bytes C fs"
    "ended r1 = ended r" .
  from Cons.IH [OF _ r1(2) _ n(2)] Cons.prems r1(3) obtain r2 where
    "read_frames R C k r1 = (fs, Inr (), r2)" by auto
  with n r1 show ?case by simp
qed

end

subsection \<open>The reader on arbitrary input\<close>

text \<open>
  \<open>frame_of C f b\<close>: the frame \<open>f\<close> is the one the payload \<open>b\<close> behind its opcode stands for.
  A header declares a length when it is one varint, of at most ten bytes, that spells it modulo 2^64.
\<close>

fun frame_of :: "stream_codecs \<Rightarrow> streaming_frame \<Rightarrow> bytes \<Rightarrow> bool" where
  "frame_of C (FOpenRequest x) b = (pc_from_bytes (sc_open_request C) b = Inr x)"
| "frame_of C (FOpenResponse x) b = (pc_from_bytes (sc_open_response C) b = Inr x)"
| "frame_of C (FRequestChunk x) b = (x = b)"
| "frame_of C (FResponseChunk x) b = (x = b)"
| "frame_of C FRequestEnd b = (b = [])"
| "frame_of C FResponseEnd b = (b = [])"
| "frame_of C (FError x) b = (pc_from_bytes (sc_error C) b = Inr x)"

definition body_opcode :: "u8 \<Rightarrow> bool" where
  "body_opcode opc \<longleftrightarrow> opc \<in> {OPCODE_STREAMING_OPEN_REQUEST, OPCODE_STREAMING_OPEN_RESPONSE,
     OPCODE_STREAMING_REQUEST_CHUNK, OPCODE_STREAMING_RESPONSE_CHUNK, OPCODE_STREAMING_ERROR}"

definition end_opcode :: "u8 \<Rightarrow> bool" where
  "end_opcode opc \<longleftrightarrow> opc \<in> {OPCODE_STREAMING_REQUEST_END, OPCODE_STREAMING_RESPONSE_END}"

definition declares :: "bytes \<Rightarrow> nat \<Rightarrow> bool" where
  "declares hdr n \<longleftrightarrow> varint_bytes hdr \<and> length hdr \<le> 10 \<and> n = uval hdr mod 2 ^ 64"

text \<open>
  Why no body can be read off some bytes: they end inside the varint or before the end of the body it
  declares (\<open>body_cut\<close>), or the varint does not end within ten bytes or declares too much (\<open>body_bad\<close>).
\<close>

definition body_cut :: "bytes \<Rightarrow> bool" where
  "body_cut bs \<longleftrightarrow> length bs < 10 \<and> (\<forall>b \<in> set bs. 128 \<le> unat b) \<or>
     (\<exists>hdr n part. bs = hdr @ part \<and> declares hdr n \<and> n \<le> MAX_STREAMING_PAYLOAD_LEN \<and> length part < n)"

definition body_bad :: "bytes \<Rightarrow> bool" where
  "body_bad bs \<longleftrightarrow> 10 \<le> length bs \<and> (\<forall>b \<in> set (take 10 bs). 128 \<le> unat b) \<or>
     (\<exists>hdr n rest. bs = hdr @ rest \<and> declares hdr n \<and> MAX_STREAMING_PAYLOAD_LEN < n)"

text \<open>What bytes, and what end behind them, make the reader fail with an error.\<close>

fun fails_with :: "stream_codecs \<Rightarrow> bytes \<Rightarrow> read_error option \<Rightarrow> rpc_error \<Rightarrow> bool" where
  "fails_with C bs end_state (TransportRead m) \<longleftrightarrow>
     bs = [] \<and> end_state \<notin> {None, Some ClosedStream} \<or>
     (\<exists>opc rest. bs = opc # rest \<and> body_opcode opc \<and> body_cut rest)"
| "fails_with C bs end_state (MalformedFrame m) \<longleftrightarrow>
     (\<exists>opc rest. bs = opc # rest \<and> (\<not> body_opcode opc \<and> \<not> end_opcode opc \<or> body_opcode opc \<and> body_bad rest))"
| "fails_with C bs end_state (Codec m) \<longleftrightarrow>
     (\<exists>opc hdr b rest. bs = opc # hdr @ b @ rest \<and> body_opcode opc \<and> declares hdr (length b) \<and>
        length b \<le> MAX_STREAMING_PAYLOAD_LEN \<and> (\<forall>f. frame_opcode f = opc \<longrightarrow> \<not> frame_of C f b))"
| "fails_with C bs end_state _ \<longleftrightarrow> False"

text \<open>The frame \<open>f\<close> is spelled by the bytes in front of \<open>rest\<close>.\<close>

definition spells :: "stream_codecs \<Rightarrow> bytes \<Rightarrow> streaming_frame \<Rightarrow> bytes \<Rightarrow> bool" where
  "spells C bs f rest \<longleftrightarrow>
     (if end_opcode (frame_opcode f) then bs = frame_opcode f # rest
      else \<exists>hdr b. bs = frame_opcode f # hdr @ b @ rest \<and> declares hdr (length b) \<and>
        length b \<le> MAX_STREAMING_PAYLOAD_LEN \<and> frame_of C f b)"

text \<open>The bytes decide the frame and where it ends.\<close>

lemma declares_unique:
  "declares hdr n \<Longrightarrow> declares hdr' n' \<Longrightarrow> hdr @ xs = hdr' @ ys \<Longrightarrow> hdr = hdr' \<and> n = n' \<and> xs = ys"
  using varint_bytes_unique [of hdr hdr' xs ys] by (auto simp: declares_def)

lemma body_or_end: "body_opcode (frame_opcode f) \<longleftrightarrow> \<not> end_opcode (frame_opcode f)"
  by (cases f) (simp_all add: body_opcode_def end_opcode_def opcode_defs)

lemma frame_of_unique: "frame_of C f b \<Longrightarrow> frame_of C g b \<Longrightarrow> frame_opcode f = frame_opcode g \<Longrightarrow> f = g"
  by (cases f; cases g) (simp_all add: opcode_defs)

lemma end_opcode_unique: "end_opcode (frame_opcode f) \<Longrightarrow> frame_opcode f = frame_opcode g \<Longrightarrow> f = g"
  by (cases f; cases g) (simp_all add: end_opcode_def opcode_defs)

lemma spells_unique:
  assumes "spells C bs f rest" "spells C bs g rest'"
  shows "f = g \<and> rest = rest'"
proof -
  from assms have opc: "frame_opcode f = frame_opcode g" by (auto simp: spells_def split: if_splits)
  show ?thesis
  proof (cases "end_opcode (frame_opcode f)")
    case True
    with assms end_opcode_unique [OF True opc] show ?thesis by (simp add: spells_def)
  next
    case False
    with assms(1) obtain hdr b where f: "bs = frame_opcode f # hdr @ b @ rest" "declares hdr (length b)" "frame_of C f b"
      by (auto simp: spells_def)
    from False opc assms(2) obtain hdr' b' where
      g: "bs = frame_opcode g # hdr' @ b' @ rest'" "declares hdr' (length b')" "frame_of C g b'"
      by (auto simp: spells_def)
    from f(1) g(1) have "hdr @ b @ rest = hdr' @ b' @ rest'" by simp
    from declares_unique [OF f(2) g(2) this] have "b = b'" "rest = rest'" by auto
    with frame_of_unique [OF f(3)] g(3) opc show ?thesis by simp
  qed
qed

lemma spells_shorter: "spells C bs f rest \<Longrightarrow> length rest < length bs"
  by (auto simp: spells_def split: if_splits)

context quic_recv begin

lemma read_length_prefixed_cases:
  obtains (ok) hdr b r' where "read_length_prefixed R r = (Inr b, r')" "declares hdr (length b)"
      "length b \<le> MAX_STREAMING_PAYLOAD_LEN" "content r = hdr @ b @ content r'" "ended r' = ended r"
    | (cut) m r' where "read_length_prefixed R r = (Inl (TransportRead m), r')" "body_cut (content r)"
    | (bad) m r' where "read_length_prefixed R r = (Inl (MalformedFrame m), r')" "body_bad (content r)"
proof (cases rule: read_varint_cases [of r, case_names ok long short])
  case vs: (ok vs r1)
  define n where "n = unat (word_of_nat (uval vs) :: u64)"
  have d: "declares vs n" using vs(2,3) by (simp add: declares_def n_def unat_of_nat)
  have z: "(word_of_nat (uval vs) :: u64) = 0 \<longleftrightarrow> n = 0" by (simp add: n_def unat_eq_0)
  note defs = read_length_prefixed_def usize_try_from_def n_def [symmetric] vs(1)
  show thesis
  proof (cases "MAX_STREAMING_PAYLOAD_LEN < n")
    case True
    with vs(4) d have "body_bad (content r)" by (auto simp: body_bad_def)
    with True show thesis by (intro bad [of _ r1]) (simp add: defs)
  next
    case False
    show thesis
    proof (cases rule: exact_cases [of r1 n, case_names ok short])
      case (ok r2)
      show thesis
      proof (cases "n = 0")
        case True
        with False d vs(4,5) show thesis
          by (intro that(1) [of "[]" r1 vs]) (simp_all add: defs)
      next
        case n: False
        have len: "length (take n (content r1)) = n" using ok(2) by simp
        have "read_length_prefixed R r = (Inr (take n (content r1)), r2)"
          using False n ok(1) by (simp add: defs)
        moreover have "content r = vs @ take n (content r1) @ content r2" using vs(4) ok(3) by simp
        ultimately show thesis using False d ok(4) vs(5) len
          by (intro that(1) [of "take n (content r1)" r2 vs]) simp_all
      qed
    next
      case (short e r2)
      with vs(4) d False have "body_cut (content r)" by (auto simp: body_cut_def)
      with short False show thesis by (intro cut [of _ r2]) (auto simp: defs)
    qed
  qed
next
  case (long r1)
  then show thesis by (intro bad [of _ r1]) (simp_all add: read_length_prefixed_def body_bad_def)
next
  case (short m r1)
  then show thesis by (intro cut [of m r1]) (simp_all add: read_length_prefixed_def body_cut_def)
qed

end

text \<open>An opcode with a body reads the body and then parses it, which fails exactly when no frame has this body.\<close>

lemma parse_typed_simps:
  "parse_typed P mk b = Inr f \<longleftrightarrow> (\<exists>x. f = mk x \<and> pc_from_bytes P b = Inr x)"
  "parse_typed P mk b = Inl e \<longleftrightarrow> (\<exists>m. e = Codec m \<and> pc_from_bytes P b = Inl m)"
  by (auto simp: parse_typed_def split: sum.splits)

definition parses :: "stream_codecs \<Rightarrow> u8 \<Rightarrow> (bytes \<Rightarrow> streaming_frame rpc_result) \<Rightarrow> bool" where
  "parses C opc parse \<longleftrightarrow> (\<forall>b. case parse b of
      Inr f \<Rightarrow> frame_opcode f = opc \<and> frame_of C f b
    | Inl e \<Rightarrow> (\<exists>m. e = Codec m) \<and> (\<forall>f. frame_opcode f = opc \<longrightarrow> \<not> frame_of C f b))"

lemma frame_opcode_eqs:
  "frame_opcode f = OPCODE_STREAMING_OPEN_REQUEST \<longleftrightarrow> (\<exists>x. f = FOpenRequest x)"
  "frame_opcode f = OPCODE_STREAMING_OPEN_RESPONSE \<longleftrightarrow> (\<exists>x. f = FOpenResponse x)"
  "frame_opcode f = OPCODE_STREAMING_ERROR \<longleftrightarrow> (\<exists>x. f = FError x)"
  by (cases f; simp add: opcode_defs)+

lemma parses_arms:
  "parses C OPCODE_STREAMING_OPEN_REQUEST (parse_typed (sc_open_request C) FOpenRequest)"
  "parses C OPCODE_STREAMING_OPEN_RESPONSE (parse_typed (sc_open_response C) FOpenResponse)"
  "parses C OPCODE_STREAMING_ERROR (parse_typed (sc_error C) FError)"
  "parses C OPCODE_STREAMING_REQUEST_CHUNK (\<lambda>b. Inr (FRequestChunk b))"
  "parses C OPCODE_STREAMING_RESPONSE_CHUNK (\<lambda>b. Inr (FResponseChunk b))"
  by (auto simp: parses_def parse_typed_def frame_opcode_eqs split: sum.split)

lemma after_opcode_body:
  assumes "body_opcode opc"
  shows "\<exists>parse. parses C opc parse \<and> read_streaming_frame_after_opcode R C r opc = read_body R parse r"
proof -
  from assms consider "opc = OPCODE_STREAMING_OPEN_REQUEST" | "opc = OPCODE_STREAMING_OPEN_RESPONSE"
    | "opc = OPCODE_STREAMING_ERROR" | "opc = OPCODE_STREAMING_REQUEST_CHUNK"
    | "opc = OPCODE_STREAMING_RESPONSE_CHUNK" by (auto simp: body_opcode_def)
  then show ?thesis
  proof cases
    case 1
    show ?thesis unfolding 1 by (rule exI, rule conjI, rule parses_arms(1)) (simp add: read_streaming_frame_after_opcode_def)
  next
    case 2
    show ?thesis unfolding 2 by (rule exI, rule conjI, rule parses_arms(2)) (simp add: read_streaming_frame_after_opcode_def opcode_defs)
  next
    case 3
    show ?thesis unfolding 3 by (rule exI, rule conjI, rule parses_arms(3)) (simp add: read_streaming_frame_after_opcode_def opcode_defs)
  next
    case 4
    show ?thesis unfolding 4 by (rule exI, rule conjI, rule parses_arms(4)) (simp add: read_streaming_frame_after_opcode_def opcode_defs)
  next
    case 5
    show ?thesis unfolding 5 by (rule exI, rule conjI, rule parses_arms(5)) (simp add: read_streaming_frame_after_opcode_def opcode_defs)
  qed
qed

context quic_recv begin

text \<open>The reader behind the opcode byte \<open>opc\<close>.\<close>

lemma after_opcode_spec:
  assumes "read_streaming_frame_after_opcode R C r opc = (res, r')"
  shows "case res of Inl e \<Rightarrow> fails_with C (opc # content r) end_state e
    | Inr f \<Rightarrow> spells C (opc # content r) f (content r') \<and> ended r' = ended r"
proof (cases "body_opcode opc")
  case True
  from after_opcode_body [OF this, of C R r] obtain parse where p: "parses C opc parse"
    "read_streaming_frame_after_opcode R C r opc = read_body R parse r" by auto
  show ?thesis
  proof (cases rule: read_length_prefixed_cases [of r, case_names ok cut bad])
    case (ok hdr b r1)
    then have res: "res = parse b" "r' = r1" using assms p(2) by (simp_all add: read_body_def)
    from p(1) have parse: "case parse b of
        Inr f \<Rightarrow> frame_opcode f = opc \<and> frame_of C f b
      | Inl e \<Rightarrow> (\<exists>m. e = Codec m) \<and> (\<forall>f. frame_opcode f = opc \<longrightarrow> \<not> frame_of C f b)" by (simp add: parses_def)
    show ?thesis
    proof (cases "parse b")
      case (Inl e)
      with parse obtain m where "e = Codec m" "\<forall>f. frame_opcode f = opc \<longrightarrow> \<not> frame_of C f b" by auto
      moreover have "opc # content r = opc # hdr @ b @ content r1" using ok(4) by simp
      ultimately show ?thesis using True ok(2,3) res(1) Inl by auto
    next
      case (Inr f)
      with parse have f: "frame_opcode f = opc" "frame_of C f b" by auto
      with True body_or_end [of f] have "\<not> end_opcode (frame_opcode f)" by simp
      with f ok(2-5) res Inr show ?thesis by (auto simp: spells_def)
    qed
  next
    case (cut m r1)
    then have "res = Inl (TransportRead m)" using assms p(2) by (simp add: read_body_def)
    with True cut(2) show ?thesis by simp
  next
    case (bad m r1)
    then have "res = Inl (MalformedFrame m)" using assms p(2) by (simp add: read_body_def)
    with True bad(2) show ?thesis by simp
  qed
next
  case False
  show ?thesis
  proof (cases "end_opcode opc")
    case True
    with assms show ?thesis
      by (auto simp: end_opcode_def read_streaming_frame_after_opcode_def spells_def opcode_defs)
  next
    case nend: False
    with False assms have "res = Inl (MalformedFrame (''unexpected streaming opcode 0x'' @ hex02 opc))"
      by (auto simp: body_opcode_def end_opcode_def read_streaming_frame_after_opcode_def)
    with False nend show ?thesis by simp
  qed
qed

lemma read_frame_spec:
  assumes "read_streaming_frame R C r = (res, r')"
  shows "case res of Inl e \<Rightarrow> fails_with C (content r) (ended r) e
    | Inr None \<Rightarrow> content r = [] \<and> ended r \<in> {None, Some ClosedStream}
    | Inr (Some f) \<Rightarrow> spells C (content r) f (content r') \<and> ended r' = ended r"
proof (cases "content r")
  case Nil
  then obtain r1 where "read_streaming_frame R C r =
    (case ended r of None \<Rightarrow> Inr None | Some e \<Rightarrow> classify_eof_or_error R (ReadError e), r1)"
    by (rule read_frame_end)
  with assms Nil show ?thesis
    by (cases "ended r"; cases "the (ended r)") auto
next
  case (Cons b bs)
  then obtain r1 where r1: "rx_exact R r (Suc 0) = (Inr [b], r1)" "content r1 = bs" "ended r1 = ended r"
    by (rule exact_one)
  obtain x r2 where x: "read_streaming_frame_after_opcode R C r1 b = (x, r2)"
    by (cases "read_streaming_frame_after_opcode R C r1 b")
  have "res = map_sum id Some x" "r' = r2"
    using assms r1 x by (auto simp: read_streaming_frame_def split: sum.splits)
  with after_opcode_spec [OF x] r1 Cons show ?thesis by (cases x) auto
qed

end

subsection \<open>Concrete body codecs\<close>

fun status_index :: "streaming_open_status \<Rightarrow> nat" where
  "status_index StatusOk = 0"
| "status_index (StatusErr _) = 1"

fun status_text :: "streaming_open_status \<Rightarrow> string" where
  "status_text StatusOk = []"
| "status_text (StatusErr m) = m"

definition fmt_open_request :: "streaming_open_request fmt" where
  "fmt_open_request = fmt_map (\<lambda>(n, i). \<lparr>oreq_method_name = n, oreq_request_id = i\<rparr>)
     (\<lambda>b. (oreq_method_name b, oreq_request_id b)) (fmt_pair fmt_str fmt_u64)"

definition fmt_open_status :: "streaming_open_status fmt" where
  "fmt_open_status = fmt_enum status_index
     (\<lambda>t. if t = 0 then Some (fmt_unit StatusOk)
      else if t = 1 then Some (fmt_map StatusErr status_text fmt_str) else None)"

definition fmt_open_response :: "streaming_open_response fmt" where
  "fmt_open_response = fmt_map (\<lambda>(s, i). \<lparr>oresp_status = s, oresp_request_id = i\<rparr>)
     (\<lambda>b. (oresp_status b, oresp_request_id b)) (fmt_pair fmt_open_status fmt_u64)"

definition fmt_streaming_error :: "streaming_error fmt" where
  "fmt_streaming_error = fmt_map (\<lambda>(m, t). \<lparr>se_message = m, se_terminal = t\<rparr>)
     (\<lambda>b. (se_message b, se_terminal b)) (fmt_pair fmt_str fmt_bool)"

definition ref_codecs :: stream_codecs where
  "ref_codecs = \<lparr>sc_open_request = postcard_of fmt_open_request,
     sc_open_response = postcard_of fmt_open_response, sc_error = postcard_of fmt_streaming_error\<rparr>"

lemma fmt_open_status_ok: "fmt_ok fmt_open_status"
  unfolding fmt_open_status_def by (rule fmt_enum_ok) (simp add: fmt_intros)

interpretation poreq: postcard_codec "postcard_of fmt_open_request"
  by (rule postcard_of_ok) (simp add: fmt_open_request_def fmt_intros)

interpretation poresp: postcard_codec "postcard_of fmt_open_response"
  by (rule postcard_of_ok) (simp add: fmt_open_response_def fmt_intros fmt_open_status_ok)

interpretation pserr: postcard_codec "postcard_of fmt_streaming_error"
  by (rule postcard_of_ok) (simp add: fmt_streaming_error_def fmt_intros)

lemma ref_codecs_ok: "codecs_ok ref_codecs"
  by (simp add: codecs_ok_def ref_codecs_def poreq.postcard_codec_axioms
      poresp.postcard_codec_axioms pserr.postcard_codec_axioms)

subsection \<open>Properties\<close>

text \<open>
  C6. Any list of frames whose payloads encode and respect the bound, written one after the other
  with the crate's writers, is read back by the frame reader as exactly that list, followed by a
  clean end of stream: the framing loses, merges and reorders nothing.
\<close>

theorem streaming_frames_roundtrip:
  assumes L: "leb128_codec L" and C: "codecs_ok C"
    and S: "quic_send T written closed healthy" and R: "quic_recv R content ended"
    and t: "healthy t" "written t = []" and fs: "list_all (frame_ok C) fs"
    and r: "content r = written (snd (write_frames L T C fs t))" "ended r = None"
  shows "fst (write_frames L T C fs t) = Inr () \<and>
    (\<exists>r'. read_frames R C (Suc (length fs)) r = (fs, Inr (), r'))"
proof -
  have fs': "\<forall>f \<in> set fs. frame_ok C f" using fs by (simp add: list_all_iff)
  from quic_send.write_frames_ok [OF S L t(1) fs'] t(2) obtain t' where
    t': "write_frames L T C fs t = (Inr (), t')" "written t' = frames_bytes C fs" by auto
  then have "content r = frames_bytes C fs" using r(1) by simp
  from quic_recv.read_frames_ok [OF R C fs' this r(2) lessI] t'(1) show ?thesis by simp
qed

theorem streaming_frames_roundtrip_witness:
  "let fs = [FOpenRequest \<lparr>oreq_method_name = ''a/b/c'', oreq_request_id = 7\<rparr>,
             FRequestChunk [1, 2, 3], FRequestChunk [], FRequestEnd];
       w = write_frames leb_ref buf_send ref_codecs fs tx_new
   in fst w = Inr () \<and>
     (\<exists>r'. read_frames buf_recv ref_codecs (Suc (length fs)) (rx_of (tb_out (snd w))) = (fs, Inr (), r'))"
proof -
  have "frame_payload ref_codecs (FOpenRequest \<lparr>oreq_method_name = ''a/b/c'', oreq_request_id = 7\<rparr>) =
      Inr (Some [5, 97, 47, 98, 47, 99, 7])"
    by code_simp
  then have ok: "list_all (frame_ok ref_codecs)
      [FOpenRequest \<lparr>oreq_method_name = ''a/b/c'', oreq_request_id = 7\<rparr>,
       FRequestChunk [1, 2, 3], FRequestChunk [], FRequestEnd]"
    by (simp add: frame_ok_def frame_bytes_def payload_within_def MAX_STREAMING_PAYLOAD_LEN_def)
  have "tx_healthy tx_new \<and> tb_out tx_new = []" by code_simp
  then show ?thesis
    unfolding Let_def
    by (intro streaming_frames_roundtrip [OF lr.leb128_codec_axioms ref_codecs_ok
          buf_tx.quic_send_axioms buf_rx.quic_recv_axioms _ _ ok]) simp_all
qed

text \<open>
  C7. The reader on any bytes a peer may send. A frame it returns is the one the consumed bytes spell: its
  opcode, for the kinds with a body one varint of at most ten bytes that declares the length of the body
  modulo 2^64, the body itself of at most 8 MiB, nothing else, and the bytes and the end of the stream
  behind it are left; this frame and this rest are the only ones the bytes spell. The end of the stream is
  reported only between frames, for a finished stream and also for one that is closed. Each failure has its
  one cause: TransportRead a failed stream between frames or a stream that ends inside the varint or the
  body, MalformedFrame an unknown opcode, a varint that does not end within ten bytes or a declared length
  above 8 MiB, and Codec a complete body that decodes to no frame of the opcode.
\<close>

theorem read_streaming_frame_sound:
  assumes "quic_recv R content ended" and "read_streaming_frame R C r = (res, r')"
  shows "case res of
      Inl e \<Rightarrow> fails_with C (content r) (ended r) e
    | Inr None \<Rightarrow> content r = [] \<and> ended r \<in> {None, Some ClosedStream}
    | Inr (Some f) \<Rightarrow> spells C (content r) f (content r') \<and> ended r' = ended r \<and>
        (\<forall>g rest. spells C (content r) g rest \<longrightarrow> g = f \<and> rest = content r')"
  using quic_recv.read_frame_spec [OF assms] spells_unique
  by (auto split: sum.splits option.splits)

theorem read_streaming_frame_sound_witness:
  "spells ref_codecs [0x20, 2, 104, 105, 0x31] (FRequestChunk [104, 105]) [0x31] \<and>
   (\<exists>m. fails_with ref_codecs [0x20, 2, 104] None (TransportRead m))"
proof
  have f: "frame_bytes ref_codecs (FRequestChunk [104, 105]) = Some [0x20, 2, 104, 105]"
    "payload_within MAX_STREAMING_PAYLOAD_LEN ref_codecs (FRequestChunk [104, 105])"
    by (simp_all add: frame_bytes_def frame_raw_def uleb_small opcode_defs payload_within_def MAX_STREAMING_PAYLOAD_LEN_def)
  have "rb_data (rx_of [0x20, 2, 104, 105, 0x31]) = [0x20, 2, 104, 105] @ [0x31]" by simp
  from buf_rx.read_frame_ok [OF ref_codecs_ok f this] obtain r' where
    "read_streaming_frame buf_recv ref_codecs (rx_of [0x20, 2, 104, 105, 0x31]) =
      (Inr (Some (FRequestChunk [104, 105])), r')" "rb_data r' = [0x31]" .
  with read_streaming_frame_sound [OF buf_rx.quic_recv_axioms this(1)]
  show "spells ref_codecs [0x20, 2, 104, 105, 0x31] (FRequestChunk [104, 105]) [0x31]" by simp
  have "rb_data (rx_of [0x20, 2, 104]) = take 3 [0x20, 2, 104, 105]" by simp
  then obtain m r2 where "read_streaming_frame buf_recv ref_codecs (rx_of [0x20, 2, 104]) = (Inl (TransportRead m), r2)"
    by (rule buf_rx.read_frame_truncated [OF ref_codecs_ok f]) simp_all
  from read_streaming_frame_sound [OF buf_rx.quic_recv_axioms this]
  show "\<exists>m. fails_with ref_codecs [0x20, 2, 104] None (TransportRead m)"
    by (auto simp del: fails_with.simps)
qed

text \<open>
  A stream cut inside a frame: after no byte of it, a finished stream is a clean end; after one
  or more bytes, but not all, the reader fails with a transport error, whether the peer finished
  or the connection broke, and never returns a frame.
\<close>

theorem truncated_frame_rejected:
  assumes "quic_recv R content ended" and "codecs_ok C" and "frame_bytes C f = Some bs"
    and "payload_within MAX_STREAMING_PAYLOAD_LEN C f"
    and "content r = take k bs" and "k < length bs"
  shows "if k = 0 then ended r = None \<longrightarrow> fst (read_streaming_frame R C r) = Inr None
    else \<exists>m. fst (read_streaming_frame R C r) = Inl (TransportRead m)"
proof (cases "k = 0")
  case True
  with assms(5) have "content r = []" by simp
  then obtain r' where "read_streaming_frame R C r =
    (case ended r of None \<Rightarrow> Inr None | Some e \<Rightarrow> classify_eof_or_error R (ReadError e), r')"
    by (rule quic_recv.read_frame_end [OF assms(1)])
  with True show ?thesis by simp
next
  case False
  then have "0 < k" by simp
  from quic_recv.read_frame_truncated [OF assms(1-5) this assms(6)] False show ?thesis by (metis fst_conv)
qed

theorem truncated_frame_rejected_witness:
  "if (3 :: nat) = 0 then rb_end (rx_of [0x20, 2, 104]) = None \<longrightarrow>
      fst (read_streaming_frame buf_recv ref_codecs (rx_of [0x20, 2, 104])) = Inr None
   else \<exists>m. fst (read_streaming_frame buf_recv ref_codecs (rx_of [0x20, 2, 104])) = Inl (TransportRead m)"
  by (rule truncated_frame_rejected [OF buf_rx.quic_recv_axioms ref_codecs_ok,
        where f = "FRequestChunk [104, 105]" and bs = "[0x20, 2, 104, 105]"])
    (simp_all add: frame_bytes_def frame_raw_def uleb_small opcode_defs payload_within_def
      MAX_STREAMING_PAYLOAD_LEN_def)

text \<open>
  C33. The bound is the reader's only: a chunk longer than 8 MiB is written without an error, and
  the reader of the written frame rejects it as malformed with the whole body left unread, so it
  buffers nothing of it.
\<close>

theorem oversized_chunk_unread:
  assumes L: "leb128_codec L" and S: "quic_send T written closed healthy"
    and R: "quic_recv R content ended"
    and t: "healthy t" "written t = []"
    and len: "MAX_STREAMING_PAYLOAD_LEN < length chunk" "length chunk < 2 ^ 64"
    and r: "content r = written (snd (write_request_chunk L T t chunk))"
  shows "fst (write_request_chunk L T t chunk) = Inr () \<and>
    (\<exists>m r'. read_streaming_frame R C r = (Inl (MalformedFrame m), r') \<and> content r' = chunk)"
proof -
  from quic_send.write_length_prefixed_ok [OF S L t(1) len(2)] t(2) obtain t' where
    t': "write_request_chunk L T t chunk = (Inr (), t')"
    "written t' = OPCODE_STREAMING_REQUEST_CHUNK # uleb (length chunk) @ chunk"
    unfolding write_request_chunk_def by (metis append_Nil)
  with r have "content r = OPCODE_STREAMING_REQUEST_CHUNK # uleb (length chunk) @ chunk" by simp
  from quic_recv.exact_one [OF R this] obtain r1 where
    r1: "rx_exact R r (Suc 0) = (Inr [OPCODE_STREAMING_REQUEST_CHUNK], r1)"
    "content r1 = uleb (length chunk) @ chunk" by blast
  from quic_recv.read_length_prefixed_oversize [OF R r1(2) len] obtain m r2 where
    "read_length_prefixed R r1 = (Inl (MalformedFrame m), r2)" "content r2 = chunk" by blast
  with r1(1) have "read_streaming_frame R C r = (Inl (MalformedFrame m), r2)"
    by (simp add: read_streaming_frame_def read_streaming_frame_after_opcode_def read_body_def
        opcode_defs)
  with t' \<open>content r2 = chunk\<close> show ?thesis by simp
qed

theorem oversized_chunk_unread_witness:
  "let chunk = replicate (2 ^ 23 + 1) 0;
       w = write_request_chunk leb_ref buf_send tx_new chunk
   in fst w = Inr () \<and> (\<exists>m r'. read_streaming_frame buf_recv ref_codecs (rx_of (tb_out (snd w))) =
        (Inl (MalformedFrame m), r') \<and> rb_data r' = chunk)"
proof -
  have "tx_healthy tx_new \<and> tb_out tx_new = []" by code_simp
  then show ?thesis
    unfolding Let_def
    by (intro oversized_chunk_unread [OF lr.leb128_codec_axioms buf_tx.quic_send_axioms
          buf_rx.quic_recv_axioms]) (simp_all add: MAX_STREAMING_PAYLOAD_LEN_def)
qed

end
