(* ===== verification/Channel.thy ===== *)
theory Channel
  imports Rust_Prelude
begin

section \<open>The channels between pumps, handlers and callers\<close>

text \<open>
  \<^verbatim>\<open>tokio::sync::mpsc\<close> is third-party. Its channel is the parameter \<open>mpsc_ops\<close>: a fresh
  channel, the send operation (\<open>False\<close>: the receiver is gone, the item comes back), and the items
  the receiver obtains until the last sender is dropped. The locale states what the documentation
  promises: items arrive in the order sent, none is lost or duplicated while the receiver lives,
  a refused item does not arrive. \<open>live\<close> holds of a channel whose receiver is kept until the end.
  The bounded capacity only delays a sender and is not part of the contract.
\<close>

record ('a, 'c) mpsc_ops =
  mp_new :: 'c
  mp_send :: "'c \<Rightarrow> 'a \<Rightarrow> bool \<times> 'c"
  mp_items :: "'c \<Rightarrow> 'a list"

locale mpsc =
  fixes M :: "('a, 'c) mpsc_ops"
    and live :: "'c \<Rightarrow> bool"
  assumes new_items: "mp_items M (mp_new M) = []"
    and new_live: "live (mp_new M)"
    and send_ok: "mp_send M c x = (True, c') \<Longrightarrow> mp_items M c' = mp_items M c @ [x]"
    and send_closed: "mp_send M c x = (False, c') \<Longrightarrow> mp_items M c' = mp_items M c"
    and live_send: "live c \<Longrightarrow> \<exists>c'. mp_send M c x = (True, c') \<and> live c'"
begin

lemma live_send_items:
  assumes "live c"
  obtains c' where "mp_send M c x = (True, c')" "live c'" "mp_items M c' = mp_items M c @ [x]"
  using live_send [OF assms] send_ok by blast

lemma send_cases:
  obtains (sent) c' where "mp_send M c x = (True, c')" "mp_items M c' = mp_items M c @ [x]"
    | (refused) c' where "mp_send M c x = (False, c')" "mp_items M c' = mp_items M c"
proof (cases "mp_send M c x")
  case (Pair b c')
  then show thesis
    using sent [of c'] refused [of c'] send_ok [of c x c'] send_closed [of c x c'] by (cases b) auto
qed

lemma send_keeps: "prefix (mp_items M c) (mp_items M (snd (mp_send M c x)))"
  by (cases rule: send_cases [of c x]) auto

end

subsection \<open>A channel as a list\<close>

text \<open>
  \<open>ch_left = Some n\<close>: the receiver is dropped after \<open>n\<close> further items.
\<close>

record 'a chan =
  ch_items :: "'a list"
  ch_left :: "nat option"

definition list_chan :: "('a, 'a chan) mpsc_ops" where
  "list_chan = \<lparr>mp_new = \<lparr>ch_items = [], ch_left = None\<rparr>,
     mp_send = (\<lambda>c x. case ch_left c of
        None \<Rightarrow> (True, c\<lparr>ch_items := ch_items c @ [x]\<rparr>)
      | Some 0 \<Rightarrow> (False, c)
      | Some (Suc n) \<Rightarrow> (True, c\<lparr>ch_items := ch_items c @ [x], ch_left := Some n\<rparr>)),
     mp_items = ch_items\<rparr>"

interpretation lc: mpsc list_chan "\<lambda>c. ch_left c = None"
  by unfold_locales (auto simp: list_chan_def split: option.splits nat.splits)

subsection \<open>A bounded channel between two tasks\<close>

text \<open>
  When the tasks at both ends are interleaved the capacity matters. \<open>bounded_send\<close> is one poll of
  \<^verbatim>\<open>Sender::send\<close> on the queue \<open>q\<close>: \<open>None\<close> while the queue is full (the sender waits),
  \<open>Some (False, q)\<close> when the receiver is gone. Both channels of a streaming call, on either side,
  are created with the capacity 16.
\<close>

definition STREAM_CHANNEL_CAPACITY :: nat where
  "STREAM_CHANNEL_CAPACITY = 16"

definition bounded_send :: "bool \<Rightarrow> 'a list \<Rightarrow> 'a \<Rightarrow> (bool \<times> 'a list) option" where
  "bounded_send rx_open q x =
     (if \<not> rx_open then Some (False, q)
      else if length q < STREAM_CHANNEL_CAPACITY then Some (True, q @ [x])
      else None)"

lemma bounded_send_Some:
  "bounded_send rx_open q x = Some (sent, q') \<longleftrightarrow>
     (if sent then rx_open \<and> length q < STREAM_CHANNEL_CAPACITY \<and> q' = q @ [x] else \<not> rx_open \<and> q' = q)"
  by (auto simp: bounded_send_def)

lemma bounded_send_None:
  "bounded_send rx_open q x = None \<longleftrightarrow> rx_open \<and> STREAM_CHANNEL_CAPACITY \<le> length q"
  by (auto simp: bounded_send_def)

end
