(* ===== verification/Pump.thy ===== *)
theory Pump
  imports Streaming Channel
begin

section \<open>The loop both inbound pumps share\<close>

text \<open>
  The server's request pump and the client's response pump are the same loop over frames with a
  different reaction to each kind of frame. The locale \<open>frame_pump\<close> is that loop: \<open>step\<close> is one
  turn, \<open>pump\<close> the loop, \<open>react\<close> the item a frame sends into the channel and whether the loop goes
  on after it. It is interpreted by both pumps, which take from it that they return on every
  input and what they deliver.
\<close>

type_synonym item = "bytes rpc_result"

type_synonym reaction = "streaming_frame \<Rightarrow> item option \<times> bool"

text \<open>The items a list of frames sends into the channel.\<close>

fun pump_items :: "reaction \<Rightarrow> streaming_frame list \<Rightarrow> item list" where
  "pump_items react [] = []"
| "pump_items react (f # fs) =
     (case react f of (x, go_on) \<Rightarrow>
        (case x of None \<Rightarrow> [] | Some i \<Rightarrow> [i]) @ (if go_on then pump_items react fs else []))"

definition pump_turn ::
  "'r recv_ops \<Rightarrow> stream_codecs \<Rightarrow> (item, 'c) mpsc_ops \<Rightarrow> reaction \<Rightarrow> 'r \<Rightarrow> 'c \<Rightarrow> bool \<times> 'r \<times> 'c"
  where
  "pump_turn R C M react r c =
     (case read_streaming_frame R C r of
        (Inl e, r1) \<Rightarrow> (False, r1, snd (mp_send M c (Inl e)))
      | (Inr None, r1) \<Rightarrow> (False, r1, c)
      | (Inr (Some f), r1) \<Rightarrow>
          (case react f of
             (None, go_on) \<Rightarrow> (go_on, r1, c)
           | (Some x, go_on) \<Rightarrow>
               (case mp_send M c x of (sent, c1) \<Rightarrow>
                 (go_on \<and> (sent \<or> (\<exists>e. x = Inl e)), r1, c1))))"

locale frame_pump =
  fixes R :: "'r recv_ops" and C :: stream_codecs and M :: "(item, 'c) mpsc_ops"
    and react :: reaction
    and step :: "'r \<Rightarrow> 'c \<Rightarrow> bool \<times> 'r \<times> 'c"
    and pump :: "'r \<Rightarrow> 'c \<Rightarrow> ('r \<times> 'c) option"
  assumes step: "step r c = pump_turn R C M react r c"
    and pump: "pump r c = (case step r c of (go_on, r1, c1) \<Rightarrow>
      if go_on then pump r1 c1 else Some (r1, c1))"
begin

text \<open>Every turn that goes on has consumed a frame, so the loop ends on every input.\<close>

lemma step_consumes:
  assumes "quic_recv R content ended" "step r c = (True, r1, c1)"
  shows "length (content r1) < length (content r)"
proof -
  from assms(2) obtain f where "read_streaming_frame R C r = (Inr (Some f), r1)"
    by (auto simp: step pump_turn_def split: sum.splits option.splits prod.splits)
  from quic_recv.read_frame_spec [OF assms(1) this] show ?thesis by (auto dest: spells_shorter)
qed

lemma pump_returns:
  assumes "quic_recv R content ended"
  shows "\<exists>r' c'. pump r c = Some (r', c')"
proof (induction "length (content r)" arbitrary: r c rule: less_induct)
  case less
  obtain go_on r1 c1 where s: "step r c = (go_on, r1, c1)" by (cases "step r c")
  show ?case
  proof (cases go_on)
    case True
    with less [OF step_consumes [OF assms]] s pump [of r c] show ?thesis by simp
  next
    case False
    with s pump [of r c] show ?thesis by simp
  qed
qed

text \<open>Whatever the peer sends, the items only grow.\<close>

lemma step_keeps:
  assumes "mpsc M live" "step r c = (go_on, r1, c1)"
  shows "prefix (mp_items M c) (mp_items M c1)"
proof -
  from assms(2) have "c1 = c \<or> (\<exists>x. c1 = snd (mp_send M c x))"
    by (auto simp: step pump_turn_def split: sum.splits option.splits prod.splits) (metis snd_conv)+
  with mpsc.send_keeps [OF assms(1)] show ?thesis by auto
qed

lemma step_frame:
  assumes R: "quic_recv R content ended" and M: "mpsc M live" and C: "codecs_ok C"
    and f: "frame_ok C f" and r: "content r = the (frame_bytes C f) @ rest" and c: "live c"
    and react: "react f = (x, go_on)"
  obtains r1 c1 where "step r c = (go_on, r1, c1)" "content r1 = rest" "ended r1 = ended r" "live c1"
    "mp_items M c1 = mp_items M c @ (case x of None \<Rightarrow> [] | Some i \<Rightarrow> [i])"
proof -
  from f obtain bs where bs: "frame_bytes C f = Some bs"
    "payload_within MAX_STREAMING_PAYLOAD_LEN C f" by (rule frame_okE)
  with r have "content r = bs @ rest" by simp
  from quic_recv.read_frame_ok [OF R C bs this] obtain r1 where
    r1: "read_streaming_frame R C r = (Inr (Some f), r1)" "content r1 = rest" "ended r1 = ended r" .
  show thesis
  proof (cases x)
    case None
    with r1 react c show thesis by (intro that [of r1 c]) (simp_all add: step pump_turn_def)
  next
    case (Some i)
    from mpsc.live_send_items [OF M c, of i] obtain c1 where
      "mp_send M c i = (True, c1)" "live c1" "mp_items M c1 = mp_items M c @ [i]" .
    with Some r1 react show thesis by (intro that [of r1 c1]) (simp_all add: step pump_turn_def)
  qed
qed

lemma pump_frames:
  assumes R: "quic_recv R content ended" and M: "mpsc M live" and C: "codecs_ok C"
  shows "list_all (frame_ok C) fs \<Longrightarrow> content r = frames_bytes C fs \<Longrightarrow> ended r = None \<Longrightarrow> live c \<Longrightarrow>
    \<exists>r' c'. pump r c = Some (r', c') \<and> live c' \<and> mp_items M c' = mp_items M c @ pump_items react fs"
proof (induction fs arbitrary: r c)
  case Nil
  then obtain r1 where "read_streaming_frame R C r = (Inr None, r1)"
    using quic_recv.read_frame_end [OF R, of r C] by auto
  with Nil pump [of r c] show ?case by (simp add: step pump_turn_def)
next
  case (Cons f fs)
  obtain x go_on where x: "react f = (x, go_on)" by (cases "react f")
  from Cons.prems have "frame_ok C f" "content r = the (frame_bytes C f) @ frames_bytes C fs" by simp_all
  from step_frame [OF R M C this Cons.prems(4) x] obtain r1 c1 where
    s: "step r c = (go_on, r1, c1)" "content r1 = frames_bytes C fs" "ended r1 = ended r" "live c1"
    "mp_items M c1 = mp_items M c @ (case x of None \<Rightarrow> [] | Some i \<Rightarrow> [i])" .
  show ?case
  proof (cases go_on)
    case True
    from Cons.IH [of r1 c1] Cons.prems s obtain r' c' where
      "pump r1 c1 = Some (r', c')" "live c'" "mp_items M c' = mp_items M c1 @ pump_items react fs"
      by auto
    with True s x pump [of r c] show ?thesis by simp
  next
    case False
    with s x pump [of r c] show ?thesis by simp
  qed
qed

end

end
