(* ===== verification/Pump_Task.thy ===== *)
theory Pump_Task
  imports Pump
begin

section \<open>An inbound pump as a task\<close>

text \<open>
  The loop of \<open>Pump\<close> seen from a scheduler: one step is either the read of one frame or one poll
  of the send into the bounded channel, so that other tasks may move between the two. \<open>Stopped\<close> is
  a task that has returned or was aborted; its sender is dropped. \<open>stream_items\<close> are the items the
  stream content stands for; both the loop and the task deliver exactly these to a receiver that
  stays.
\<close>

abbreviation option_items :: "item option \<Rightarrow> item list" where
  "option_items x \<equiv> (case x of None \<Rightarrow> [] | Some i \<Rightarrow> [i])"

partial_function (option) stream_items ::
  "'r recv_ops \<Rightarrow> stream_codecs \<Rightarrow> reaction \<Rightarrow> 'r \<Rightarrow> item list option" where
  "stream_items R C react r =
     (case read_streaming_frame R C r of
        (Inl e, _) \<Rightarrow> Some [Inl e]
      | (Inr None, _) \<Rightarrow> Some []
      | (Inr (Some f), r1) \<Rightarrow>
          (case react f of (x, go_on) \<Rightarrow>
             if go_on then Option.bind (stream_items R C react r1) (\<lambda>xs. Some (option_items x @ xs))
             else Some (option_items x)))"

lemma stream_items_total:
  assumes R: "quic_recv R content ended"
  shows "\<exists>xs. stream_items R C react r = Some xs"
proof (induction "length (content r)" arbitrary: r rule: less_induct)
  case less
  obtain res r1 where rd: "read_streaming_frame R C r = (res, r1)" by (cases "read_streaming_frame R C r")
  show ?case
  proof (cases "\<exists>f. res = Inr (Some f)")
    case True
    then obtain f where f: "res = Inr (Some f)" by blast
    from quic_recv.read_frame_spec [OF R rd] f have "length (content r1) < length (content r)" by (auto dest: spells_shorter)
    from less [OF this] obtain xs where "stream_items R C react r1 = Some xs" by blast
    with rd f show ?thesis by (subst stream_items.simps) (simp split: prod.split)
  next
    case False
    then show ?thesis using rd
      by (subst stream_items.simps) (auto split: sum.split option.split)
  qed
qed

context frame_pump
begin

lemma pump_delivers:
  assumes R: "quic_recv R content ended" and M: "mpsc M live"
  shows "live c \<Longrightarrow> \<exists>xs r' c'. stream_items R C react r = Some xs \<and> pump r c = Some (r', c') \<and> live c' \<and>
    mp_items M c' = mp_items M c @ xs"
proof (induction "length (content r)" arbitrary: r c rule: less_induct)
  case less
  obtain res r1 where rd: "read_streaming_frame R C r = (res, r1)" by (cases "read_streaming_frame R C r")
  show ?case
  proof (cases res)
    case (Inl e)
    from mpsc.live_send_items [OF M less.prems] obtain c1 where
      "mp_send M c (Inl e) = (True, c1)" "live c1" "mp_items M c1 = mp_items M c @ [Inl e]" .
    with rd Inl pump [of r c] show ?thesis
      by (subst stream_items.simps) (simp add: step pump_turn_def)
  next
    case (Inr fo)
    show ?thesis
    proof (cases fo)
      case None
      with rd Inr less.prems pump [of r c] show ?thesis
        by (subst stream_items.simps) (simp add: step pump_turn_def)
    next
      case (Some f)
      from quic_recv.read_frame_spec [OF R rd] Inr Some have
        shorter: "length (content r1) < length (content r)" by (auto dest: spells_shorter)
      obtain x go_on where x: "react f = (x, go_on)" by (cases "react f")
      obtain c1 where c1: "step r c = (go_on, r1, c1)" "live c1" "mp_items M c1 = mp_items M c @ option_items x"
      proof (cases x)
        case None
        with rd Inr Some x less.prems show thesis
          by (intro that [of c]) (simp_all add: step pump_turn_def)
      next
        case (Some i)
        from mpsc.live_send_items [OF M less.prems, of i] obtain c1 where
          "mp_send M c i = (True, c1)" "live c1" "mp_items M c1 = mp_items M c @ [i]" .
        with rd Inr \<open>fo = Some f\<close> x Some show thesis
          by (intro that [of c1]) (simp_all add: step pump_turn_def)
      qed
      show ?thesis
      proof (cases go_on)
        case True
        from less.hyps [OF shorter c1(2)] obtain xs r' c' where
          "stream_items R C react r1 = Some xs" "pump r1 c1 = Some (r', c')" "live c'"
          "mp_items M c' = mp_items M c1 @ xs" by blast
        with True c1 rd Inr Some x pump [of r c] show ?thesis
          by (subst stream_items.simps) simp
      next
        case False
        with c1 rd Inr Some x pump [of r c] show ?thesis
          by (subst stream_items.simps) simp
      qed
    qed
  qed
qed

end

subsection \<open>The steps of the task\<close>

datatype 'r pump_task = Reading 'r | Sending item bool 'r | Stopped

definition pump_read :: "'r recv_ops \<Rightarrow> stream_codecs \<Rightarrow> reaction \<Rightarrow> 'r \<Rightarrow> 'r pump_task" where
  "pump_read R C react r =
     (case read_streaming_frame R C r of
        (Inl e, r1) \<Rightarrow> Sending (Inl e) False r1
      | (Inr None, r1) \<Rightarrow> Stopped
      | (Inr (Some f), r1) \<Rightarrow>
          (case react f of
             (None, go_on) \<Rightarrow> if go_on then Reading r1 else Stopped
           | (Some x, go_on) \<Rightarrow> Sending x go_on r1))"

text \<open>A refused chunk ends the loop; the result of sending an error is ignored.\<close>

definition pump_sent :: "bool \<Rightarrow> item \<Rightarrow> bool \<Rightarrow> 'r \<Rightarrow> 'r pump_task" where
  "pump_sent sent x go_on r = (if go_on \<and> (sent \<or> isl x) then Reading r else Stopped)"

fun pump_poll :: "'r recv_ops \<Rightarrow> stream_codecs \<Rightarrow> reaction \<Rightarrow> bool \<Rightarrow> item list \<Rightarrow> 'r pump_task \<Rightarrow>
  ('r pump_task \<times> item list) option" where
  "pump_poll R C react rx_open q (Reading r) = Some (pump_read R C react r, q)"
| "pump_poll R C react rx_open q (Sending x go_on r) =
     (case bounded_send rx_open q x of
        None \<Rightarrow> None
      | Some (sent, q1) \<Rightarrow> Some (pump_sent sent x go_on r, q1))"
| "pump_poll R C react rx_open q Stopped = None"

text \<open>What the task still delivers to a receiver that stays.\<close>

fun pump_pending :: "'r recv_ops \<Rightarrow> stream_codecs \<Rightarrow> reaction \<Rightarrow> 'r pump_task \<Rightarrow> item list" where
  "pump_pending R C react (Reading r) = the (stream_items R C react r)"
| "pump_pending R C react (Sending x go_on r) = x # (if go_on then the (stream_items R C react r) else [])"
| "pump_pending R C react Stopped = []"

lemma pump_read_pending:
  assumes R: "quic_recv R content ended"
  shows "pump_pending R C react (pump_read R C react r) = the (stream_items R C react r)"
proof -
  obtain res r1 where rd: "read_streaming_frame R C r = (res, r1)" by (cases "read_streaming_frame R C r")
  obtain xs where "stream_items R C react r1 = Some xs" using stream_items_total [OF R] by blast
  with rd show ?thesis
    by (subst stream_items.simps) (auto simp: pump_read_def split: sum.split option.split prod.split)
qed

lemma pump_poll_pending:
  assumes R: "quic_recv R content ended" and "pump_poll R C react True q p = Some (p', q')"
  shows "q' @ pump_pending R C react p' = q @ pump_pending R C react p"
  using assms(2)
  by (cases p) (auto simp: pump_read_pending [OF R] bounded_send_def pump_sent_def
      split: option.splits prod.splits if_splits)

lemma pump_poll_bound:
  assumes "pump_poll R C react rx_open q p = Some (p', q')" "length q \<le> STREAM_CHANNEL_CAPACITY"
  shows "length q' \<le> STREAM_CHANNEL_CAPACITY"
  using assms by (cases p) (auto simp: bounded_send_def split: option.splits prod.splits if_splits)

lemma pump_poll_blocked:
  "pump_poll R C react rx_open q p = None \<longleftrightarrow>
     p = Stopped \<or> (\<exists>x go_on r. p = Sending x go_on r \<and> rx_open \<and> STREAM_CHANNEL_CAPACITY \<le> length q)"
  by (cases p) (auto simp: bounded_send_def split: option.splits prod.splits)

end
