(* ===== verification/Wire_Error.thy ===== *)
theory Wire_Error
  imports Postcard
begin

section \<open>wire_error.rs: the typed error envelope of unary calls\<close>

text \<open>
  \<^verbatim>\<open>WireError\<close>, its mapping from the server's \<^verbatim>\<open>RpcError\<close> and back on the
  client. \<open>wire_error_index\<close> is the declaration index of a variant, which postcard writes first.
\<close>

definition WIRE_ERROR_UNKNOWN_METHOD :: u8 where "WIRE_ERROR_UNKNOWN_METHOD = 0x00"
definition WIRE_ERROR_VERSION_MISMATCH :: u8 where "WIRE_ERROR_VERSION_MISMATCH = 0x01"
definition WIRE_ERROR_INVALID_METHOD_NAME :: u8 where "WIRE_ERROR_INVALID_METHOD_NAME = 0x02"
definition WIRE_ERROR_MALFORMED_FRAME :: u8 where "WIRE_ERROR_MALFORMED_FRAME = 0x03"
definition WIRE_ERROR_HANDLER_ERROR :: u8 where "WIRE_ERROR_HANDLER_ERROR = 0x04"
definition WIRE_ERROR_CODEC :: u8 where "WIRE_ERROR_CODEC = 0x05"

datatype wire_error =
    WireUnknownMethod string
  | WireVersionMismatch string "string list"
  | WireInvalidMethodName string
  | WireMalformedFrame string
  | WireHandlerError string
  | WireCodec string

fun wire_discriminant :: "wire_error \<Rightarrow> u8" where
  "wire_discriminant (WireUnknownMethod _) = WIRE_ERROR_UNKNOWN_METHOD"
| "wire_discriminant (WireVersionMismatch _ _) = WIRE_ERROR_VERSION_MISMATCH"
| "wire_discriminant (WireInvalidMethodName _) = WIRE_ERROR_INVALID_METHOD_NAME"
| "wire_discriminant (WireMalformedFrame _) = WIRE_ERROR_MALFORMED_FRAME"
| "wire_discriminant (WireHandlerError _) = WIRE_ERROR_HANDLER_ERROR"
| "wire_discriminant (WireCodec _) = WIRE_ERROR_CODEC"

lemmas wire_error_const_defs = WIRE_ERROR_UNKNOWN_METHOD_def WIRE_ERROR_VERSION_MISMATCH_def
  WIRE_ERROR_INVALID_METHOD_NAME_def WIRE_ERROR_MALFORMED_FRAME_def WIRE_ERROR_HANDLER_ERROR_def
  WIRE_ERROR_CODEC_def

fun from_rpc_error :: "(string \<Rightarrow> string) \<Rightarrow> rpc_error \<Rightarrow> wire_error" where
  "from_rpc_error dbg (UnknownMethod name) = WireUnknownMethod name"
| "from_rpc_error dbg (VersionMismatch requested available) = WireVersionMismatch requested available"
| "from_rpc_error dbg (InvalidMethodName input) = WireInvalidMethodName input"
| "from_rpc_error dbg (MalformedFrame reason) = WireMalformedFrame reason"
| "from_rpc_error dbg (Codec e) = WireCodec e"
| "from_rpc_error dbg other = WireHandlerError (rpc_display dbg other)"

fun into_rpc_error :: "wire_error \<Rightarrow> rpc_error" where
  "into_rpc_error (WireUnknownMethod method_name) = UnknownMethod method_name"
| "into_rpc_error (WireVersionMismatch requested available) = VersionMismatch requested available"
| "into_rpc_error (WireInvalidMethodName input) = InvalidMethodName input"
| "into_rpc_error (WireMalformedFrame reason) = MalformedFrame reason"
| "into_rpc_error (WireHandlerError display) =
     Handler (case strip_prefix ''handler error: '' display of Some s \<Rightarrow> s | None \<Rightarrow> display)"
| "into_rpc_error (WireCodec display) = Handler (''server codec error: '' @ display)"

text \<open>Errors that keep their variant and payload across the wire.\<close>

fun crosses_unchanged :: "rpc_error \<Rightarrow> bool" where
  "crosses_unchanged (UnknownMethod _) = True"
| "crosses_unchanged (VersionMismatch _ _) = True"
| "crosses_unchanged (InvalidMethodName _) = True"
| "crosses_unchanged (MalformedFrame _) = True"
| "crosses_unchanged (Handler _) = True"
| "crosses_unchanged _ = False"

lemma into_from_unchanged:
  "crosses_unchanged e \<Longrightarrow> into_rpc_error (from_rpc_error dbg e) = e"
  using strip_prefix_append [of "''handler error: ''"] by (cases e) simp_all

lemma into_from_collapsed:
  assumes "\<not> crosses_unchanged e"
  shows "into_rpc_error (from_rpc_error dbg e) = Handler
    (case e of Codec m \<Rightarrow> ''server codec error: '' @ m | _ \<Rightarrow> rpc_display dbg e)"
proof -
  have "strip_prefix ''handler error: '' (rpc_display dbg e) = None" if "\<forall>m. e \<noteq> Handler m"
    using that rpc_display_handler_prefix [of dbg e] by (simp add: strip_prefix_def)
  with assms show ?thesis by (cases e) simp_all
qed

lemma into_rpc_error_crosses: "crosses_unchanged (into_rpc_error w)"
  by (cases w) simp_all

subsection \<open>A concrete codec\<close>

fun wire_error_index :: "wire_error \<Rightarrow> nat" where
  "wire_error_index (WireUnknownMethod _) = 0"
| "wire_error_index (WireVersionMismatch _ _) = 1"
| "wire_error_index (WireInvalidMethodName _) = 2"
| "wire_error_index (WireMalformedFrame _) = 3"
| "wire_error_index (WireHandlerError _) = 4"
| "wire_error_index (WireCodec _) = 5"

fun wire_error_text :: "wire_error \<Rightarrow> string" where
  "wire_error_text (WireUnknownMethod s) = s"
| "wire_error_text (WireVersionMismatch s _) = s"
| "wire_error_text (WireInvalidMethodName s) = s"
| "wire_error_text (WireMalformedFrame s) = s"
| "wire_error_text (WireHandlerError s) = s"
| "wire_error_text (WireCodec s) = s"

fun wire_error_available :: "wire_error \<Rightarrow> string list" where
  "wire_error_available (WireVersionMismatch _ xs) = xs"
| "wire_error_available _ = []"

definition fmt_wire_error :: "wire_error fmt" where
  "fmt_wire_error = fmt_enum wire_error_index
     (\<lambda>t. if t = 0 then Some (fmt_map WireUnknownMethod wire_error_text fmt_str)
      else if t = 1 then Some (fmt_map (\<lambda>(r, a). WireVersionMismatch r a)
          (\<lambda>w. (wire_error_text w, wire_error_available w)) (fmt_pair fmt_str (fmt_seq fmt_str)))
      else if t = 2 then Some (fmt_map WireInvalidMethodName wire_error_text fmt_str)
      else if t = 3 then Some (fmt_map WireMalformedFrame wire_error_text fmt_str)
      else if t = 4 then Some (fmt_map WireHandlerError wire_error_text fmt_str)
      else if t = 5 then Some (fmt_map WireCodec wire_error_text fmt_str)
      else None)"

lemma fmt_wire_error_ok: "fmt_ok fmt_wire_error"
  unfolding fmt_wire_error_def by (rule fmt_enum_ok) (simp add: fmt_intros)

definition pc_wire_error_ref :: "wire_error postcard" where
  "pc_wire_error_ref = postcard_of fmt_wire_error"

interpretation pwe: postcard_codec pc_wire_error_ref
  unfolding pc_wire_error_ref_def by (rule postcard_of_ok) (rule fmt_wire_error_ok)

subsection \<open>Properties\<close>

text \<open>
  C27. What a client sees of a server's error, through the encoded envelope: unknown method, version
  mismatch, invalid name, malformed frame and handler errors arrive as they were; a codec error
  arrives as a handler error marked as the server's; all transport, datagram and serving errors
  arrive as handler errors with their display text. No envelope becomes a transport error.
\<close>

theorem server_error_as_seen_by_client:
  assumes P: "postcard_codec P" and enc: "pc_to_vec P (from_rpc_error dbg e) = Inr bs"
  shows "\<exists>w. pc_from_bytes P bs = Inr w \<and>
    into_rpc_error w =
      (if crosses_unchanged e then e
       else Handler (case e of Codec m \<Rightarrow> ''server codec error: '' @ m | _ \<Rightarrow> rpc_display dbg e)) \<and>
    (\<forall>w'. crosses_unchanged (into_rpc_error w'))"
  using postcard_codec.from_ser [OF P enc] into_from_unchanged [of e dbg] into_from_collapsed [of e dbg]
    into_rpc_error_crosses by auto

theorem server_error_as_seen_by_client_witness:
  "\<exists>w. pc_from_bytes pc_wire_error_ref [4, 21, 104, 97, 110, 100, 108, 101, 114, 32, 101, 114, 114, 111, 114, 58, 32,
      104, 111, 115, 116, 33, 33] = Inr w \<and> into_rpc_error w = Handler ''host!!'' "
proof -
  have "pc_to_vec pc_wire_error_ref (from_rpc_error id (Handler ''host!!'')) =
    Inr [4, 21, 104, 97, 110, 100, 108, 101, 114, 32, 101, 114, 114, 111, 114, 58, 32,
      104, 111, 115, 116, 33, 33]" by code_simp
  from server_error_as_seen_by_client [OF pwe.postcard_codec_axioms this] show ?thesis by auto
qed

end
