(* ===== verification/Keyed_Map.thy ===== *)
theory Keyed_Map
  imports Rust_Prelude "HOL-Library.AList"
begin

section \<open>Keyed maps: the contract of HashMap and DashMap\<close>

text \<open>
  Two components keep a keyed table: the method registry a \<^verbatim>\<open>std::collections::HashMap\<close>,
  the datagram dispatcher and the ALPN table of the server a \<^verbatim>\<open>dashmap::DashMap\<close>. The
  std map is modelled as an association list with distinct keys (\<open>hm_*\<close>; its order stands for
  the unspecified iteration order). \<^verbatim>\<open>DashMap\<close> is a third-party type: it is a record of its
  operations, a parameter of the definitions that use it, with the laws of the locale
  \<open>keyed_map\<close> as hypotheses. The association list satisfies the same laws.
\<close>

record ('k, 'v, 'm) map_ops =
  mo_new :: 'm
  mo_get :: "'m \<Rightarrow> 'k \<Rightarrow> 'v option"
  mo_insert :: "'k \<Rightarrow> 'v \<Rightarrow> 'm \<Rightarrow> 'm"
  mo_remove :: "'k \<Rightarrow> 'm \<Rightarrow> 'm"
  mo_len :: "'m \<Rightarrow> nat"

locale keyed_map =
  fixes M :: "('k, 'v, 'm) map_ops"
    and mo_inv :: "'m \<Rightarrow> bool"
  assumes inv_new: "mo_inv (mo_new M)"
    and inv_insert: "mo_inv m \<Longrightarrow> mo_inv (mo_insert M k v m)"
    and inv_remove: "mo_inv m \<Longrightarrow> mo_inv (mo_remove M k m)"
    and get_new: "mo_get M (mo_new M) k = None"
    and get_insert: "mo_inv m \<Longrightarrow> mo_get M (mo_insert M k v m) = (mo_get M m)(k \<mapsto> v)"
    and get_remove: "mo_inv m \<Longrightarrow> mo_get M (mo_remove M k m) = (mo_get M m)(k := None)"
    and finite_dom: "mo_inv m \<Longrightarrow> finite (dom (mo_get M m))"
    and len_dom: "mo_inv m \<Longrightarrow> mo_len M m = card (dom (mo_get M m))"
begin

lemma get_insert_same: "mo_inv m \<Longrightarrow> mo_get M (mo_insert M k v m) k = Some v"
  by (simp add: get_insert)

lemma get_insert_other: "mo_inv m \<Longrightarrow> k' \<noteq> k \<Longrightarrow> mo_get M (mo_insert M k v m) k' = mo_get M m k'"
  by (simp add: get_insert)

lemma len_new: "mo_len M (mo_new M) = 0"
  using len_dom [OF inv_new] by (simp add: get_new dom_def)

lemma len_insert:
  assumes "mo_inv m"
  shows "mo_len M (mo_insert M k v m) =
    (if mo_get M m k = None then Suc (mo_len M m) else mo_len M m)"
  using assms finite_dom [OF assms]
  by (auto simp: len_dom inv_insert get_insert card_insert_if domIff insert_absorb)

lemma len_remove:
  assumes "mo_inv m"
  shows "mo_len M (mo_remove M k m) =
    (if mo_get M m k = None then mo_len M m else mo_len M m - 1)"
  using assms finite_dom [OF assms]
  by (auto simp: len_dom inv_remove get_remove card_Diff_singleton domIff)

lemma insert_remove_get:
  "mo_inv m \<Longrightarrow> mo_get M m k = None \<Longrightarrow>
   mo_get M (mo_remove M k (mo_insert M k v m)) = mo_get M m"
  by (auto simp: get_insert get_remove inv_insert)

end

subsection \<open>HashMap as an association list\<close>

type_synonym ('k, 'v) hash_map = "('k \<times> 'v) list"

definition hm_inv :: "('k, 'v) hash_map \<Rightarrow> bool" where
  "hm_inv m \<longleftrightarrow> distinct (map fst m)"

definition hm_get :: "('k, 'v) hash_map \<Rightarrow> 'k \<Rightarrow> 'v option" where
  "hm_get m = map_of m"

definition hm_insert :: "'k \<Rightarrow> 'v \<Rightarrow> ('k, 'v) hash_map \<Rightarrow> ('k, 'v) hash_map" where
  "hm_insert k v m = AList.update k v m"

definition hm_remove :: "'k \<Rightarrow> ('k, 'v) hash_map \<Rightarrow> ('k, 'v) hash_map" where
  "hm_remove k m = AList.delete k m"

definition hm_keys :: "('k, 'v) hash_map \<Rightarrow> 'k list" where
  "hm_keys m = map fst m"

definition hm_ops :: "('k, 'v, ('k, 'v) hash_map) map_ops" where
  "hm_ops = \<lparr>mo_new = [], mo_get = hm_get, mo_insert = hm_insert,
     mo_remove = hm_remove, mo_len = length\<rparr>"

lemma hm_ops_sel [simp]:
  "mo_new hm_ops = []" "mo_get hm_ops = hm_get" "mo_insert hm_ops = hm_insert"
  "mo_remove hm_ops = hm_remove" "mo_len hm_ops = length"
  by (simp_all add: hm_ops_def)

lemma hm_len_dom:
  assumes "hm_inv m"
  shows "length m = card (dom (hm_get m))"
proof -
  have "card (fst ` set m) = length (map fst m)"
    using assms distinct_card [of "map fst m"] by (simp add: hm_inv_def)
  then show ?thesis by (simp add: hm_get_def dom_map_of_conv_image_fst)
qed

interpretation hm: keyed_map hm_ops hm_inv
proof unfold_locales
  fix m :: "('k, 'v) hash_map"
  assume "hm_inv m"
  then show "mo_len hm_ops m = card (dom (mo_get hm_ops m))"
    by (simp add: hm_len_dom)
qed (simp_all add: hm_inv_def hm_get_def hm_insert_def hm_remove_def update_conv' delete_conv'
      distinct_update distinct_delete finite_dom_map_of)

lemma hm_keys_set: "set (hm_keys m) = dom (hm_get m)"
  by (simp add: hm_keys_def hm_get_def dom_map_of_conv_image_fst)

lemma hm_keys_insert: "set (hm_keys (hm_insert k v m)) = insert k (set (hm_keys m))"
  by (simp add: hm_keys_set hm_insert_def hm_get_def update_conv')

lemma hm_keys_distinct: "hm_inv m \<Longrightarrow> distinct (hm_keys m)"
  by (simp add: hm_inv_def hm_keys_def)

end
