(* ===== verification/Method.thy ===== *)
theory Method
  imports Keyed_Map
begin

section \<open>method.rs: canonical method names and the registry\<close>

text \<open>
  \<^verbatim>\<open>MethodName\<close> with its parser and printer, and \<^verbatim>\<open>MethodRegistry\<close> over
  the std hash map. A handler is an opaque value of the type parameters: \<open>'u\<close> for
  \<^verbatim>\<open>Arc<dyn MethodHandler>\<close>, \<open>'s\<close> for \<^verbatim>\<open>Arc<dyn StreamingMethodHandler>\<close>;
  \<open>handler_entry\<close> is \<^verbatim>\<open>HandlerEntry\<close> of \<^verbatim>\<open>streaming.rs\<close>. A panic is
  \<open>Inl\<close> of its message.
\<close>

record method_name =
  mn_package :: string
  mn_version :: "string option"
  mn_interface :: string
  mn_method :: string

definition parse_method_name :: "string \<Rightarrow> method_name option" where
  "parse_method_name s =
     (case splitn 3 (CHR ''/'') s of
        pkg_part # interface # meth # _ \<Rightarrow>
          if pkg_part = [] \<or> interface = [] \<or> meth = [] then None
          else
            (case split_once (CHR ''@'') pkg_part of
               Some (pkg, ver) \<Rightarrow>
                 if pkg = [] \<or> ver = [] then None
                 else Some \<lparr>mn_package = pkg, mn_version = Some ver,
                            mn_interface = interface, mn_method = meth\<rparr>
             | None \<Rightarrow> Some \<lparr>mn_package = pkg_part, mn_version = None,
                             mn_interface = interface, mn_method = meth\<rparr>)
      | _ \<Rightarrow> None)"

definition to_canonical :: "method_name \<Rightarrow> string" where
  "to_canonical n =
     (case mn_version n of
        None \<Rightarrow> mn_package n @ ''/'' @ mn_interface n @ ''/'' @ mn_method n
      | Some v \<Rightarrow> mn_package n @ ''@'' @ v @ ''/'' @ mn_interface n @ ''/'' @ mn_method n)"

datatype ('u, 's) handler_entry = Unary 'u | Streaming 's

definition is_streaming :: "('u, 's) handler_entry \<Rightarrow> bool" where
  "is_streaming e = (case e of Streaming _ \<Rightarrow> True | Unary _ \<Rightarrow> False)"

record ('u, 's) method_registry =
  handlers :: "(string, ('u, 's) handler_entry) hash_map"

definition registry_new :: "('u, 's) method_registry" where
  "registry_new = \<lparr>handlers = []\<rparr>"

definition validate_canonical :: "string \<Rightarrow> string + unit" where
  "validate_canonical canonical_name =
     (case parse_method_name canonical_name of
        None \<Rightarrow> Inl (''invalid method name: '' @ canonical_name)
      | Some parsed \<Rightarrow>
          if mn_version parsed \<noteq> None then Inr ()
          else Inl (''registered handlers must include version: got '' @ canonical_name))"

definition register ::
  "string \<Rightarrow> 'u \<Rightarrow> ('u, 's) method_registry \<Rightarrow> string + ('u, 's) method_registry" where
  "register canonical_name handler reg =
     (case validate_canonical canonical_name of
        Inl p \<Rightarrow> Inl p
      | Inr _ \<Rightarrow> Inr (reg\<lparr>handlers := hm_insert canonical_name (Unary handler) (handlers reg)\<rparr>))"

definition register_streaming ::
  "string \<Rightarrow> 's \<Rightarrow> ('u, 's) method_registry \<Rightarrow> string + ('u, 's) method_registry" where
  "register_streaming canonical_name handler reg =
     (case validate_canonical canonical_name of
        Inl p \<Rightarrow> Inl p
      | Inr _ \<Rightarrow> Inr (reg\<lparr>handlers := hm_insert canonical_name (Streaming handler) (handlers reg)\<rparr>))"

text \<open>\<^verbatim>\<open>Iterator::max\<close>: the last of the largest elements, none of an empty iterator.\<close>

definition iter_max :: "'a :: linorder list \<Rightarrow> 'a option" where
  "iter_max xs = (case xs of [] \<Rightarrow> None | y # ys \<Rightarrow> Some (fold (\<lambda>z m. if m \<le> z then z else m) ys y))"

definition lookup_entry ::
  "('u, 's) method_registry \<Rightarrow> string \<Rightarrow> ('u, 's) handler_entry option" where
  "lookup_entry reg name =
     (case hm_get (handlers reg) name of
        Some h \<Rightarrow> Some h
      | None \<Rightarrow>
          (case parse_method_name name of
             None \<Rightarrow> None
           | Some parsed \<Rightarrow>
               if mn_version parsed \<noteq> None then None
               else
                 (let pre = mn_package parsed @ ''@'';
                      suf = ''/'' @ mn_interface parsed @ ''/'' @ mn_method parsed
                  in case iter_max (filter (\<lambda>k. prefix pre k \<and> suffix suf k)
                                     (hm_keys (handlers reg))) of
                       None \<Rightarrow> None
                     | Some max_key \<Rightarrow> hm_get (handlers reg) max_key)))"

definition lookup :: "('u, 's) method_registry \<Rightarrow> string \<Rightarrow> 'u option" where
  "lookup reg name =
     (case lookup_entry reg name of
        None \<Rightarrow> None
      | Some (Unary h) \<Rightarrow> Some h
      | Some (Streaming _) \<Rightarrow> None)"

definition lookup_streaming :: "('u, 's) method_registry \<Rightarrow> string \<Rightarrow> 's option" where
  "lookup_streaming reg name =
     (case lookup_entry reg name of
        None \<Rightarrow> None
      | Some (Streaming h) \<Rightarrow> Some h
      | Some (Unary _) \<Rightarrow> None)"

definition registry_is_empty :: "('u, 's) method_registry \<Rightarrow> bool" where
  "registry_is_empty reg \<longleftrightarrow> handlers reg = []"

definition registry_len :: "('u, 's) method_registry \<Rightarrow> nat" where
  "registry_len reg = length (handlers reg)"

definition method_names :: "('u, 's) method_registry \<Rightarrow> string list" where
  "method_names reg = sort (hm_keys (handlers reg))"

subsection \<open>Names\<close>

text \<open>The grammar \<^verbatim>\<open>package[@version]/interface/method\<close>; only the method may contain a slash.\<close>

definition wf_name :: "method_name \<Rightarrow> bool" where
  "wf_name n \<longleftrightarrow>
     mn_package n \<noteq> [] \<and> CHR ''/'' \<notin> set (mn_package n) \<and> CHR ''@'' \<notin> set (mn_package n) \<and>
     (case mn_version n of None \<Rightarrow> True | Some v \<Rightarrow> v \<noteq> [] \<and> CHR ''/'' \<notin> set v) \<and>
     mn_interface n \<noteq> [] \<and> CHR ''/'' \<notin> set (mn_interface n) \<and> mn_method n \<noteq> []"

definition name_head :: "method_name \<Rightarrow> string" where
  "name_head n =
     (case mn_version n of None \<Rightarrow> mn_package n | Some v \<Rightarrow> mn_package n @ ''@'' @ v)"

lemma to_canonical_head:
  "to_canonical n = name_head n @ ''/'' @ mn_interface n @ ''/'' @ mn_method n"
  by (simp add: to_canonical_def name_head_def split: option.splits)

lemma wf_name_head: "wf_name n \<Longrightarrow> name_head n \<noteq> [] \<and> CHR ''/'' \<notin> set (name_head n)"
  by (auto simp: wf_name_def name_head_def split: option.splits)

lemma splitn_3:
  "splitn 3 c s = (case split_once c s of None \<Rightarrow> [s]
     | Some (a, b) \<Rightarrow> a # (case split_once c b of None \<Rightarrow> [b] | Some (d, e) \<Rightarrow> [d, e]))"
proof (cases "split_once c s")
  case (Some ab)
  then show ?thesis
    by (cases ab; cases "split_once c (snd ab)") (auto simp: numeral_3_eq_3)
qed (simp add: numeral_3_eq_3)

lemma splitn_canonical:
  "wf_name n \<Longrightarrow> splitn 3 (CHR ''/'') (to_canonical n) = [name_head n, mn_interface n, mn_method n]"
  using wf_name_head [of n] by (simp add: to_canonical_head splitn_3 wf_name_def)

lemma parse_canonical:
  assumes "wf_name n"
  shows "parse_method_name (to_canonical n) = Some n"
proof (cases "mn_version n")
  case None
  with assms show ?thesis
    by (simp add: parse_method_name_def splitn_canonical) (simp add: wf_name_def name_head_def)
next
  case (Some v)
  with assms show ?thesis
    by (simp add: parse_method_name_def splitn_canonical) (simp add: wf_name_def name_head_def)
qed

lemma parse_Some_wf: "parse_method_name s = Some n \<Longrightarrow> wf_name n \<and> s = to_canonical n"
  by (auto simp: parse_method_name_def splitn_3 to_canonical_def wf_name_def split_once_Some
      split: option.splits if_splits list.splits)

lemma parse_iff: "parse_method_name s = Some n \<longleftrightarrow> wf_name n \<and> s = to_canonical n"
  using parse_canonical parse_Some_wf by blast

lemma to_canonical_inject: "wf_name m \<Longrightarrow> wf_name n \<Longrightarrow> to_canonical m = to_canonical n \<Longrightarrow> m = n"
  using parse_canonical by (metis option.inject)

subsection \<open>The registry: invariant, abstraction, resolution\<close>

text \<open>
  The abstract registry is the partial map from canonical names to entries. Resolution depends
  on that map only, not on the iteration order of the hash map: \<open>resolve\<close> states it over the
  map, with the largest matching key in the bytewise order of strings.
\<close>

definition pinned :: "string \<Rightarrow> bool" where
  "pinned s \<longleftrightarrow> (case parse_method_name s of None \<Rightarrow> False | Some n \<Rightarrow> mn_version n \<noteq> None)"

definition registry_inv :: "('u, 's) method_registry \<Rightarrow> bool" where
  "registry_inv reg \<longleftrightarrow> hm_inv (handlers reg) \<and> list_all pinned (hm_keys (handlers reg))"

definition registry_map :: "('u, 's) method_registry \<Rightarrow> string \<Rightarrow> ('u, 's) handler_entry option" where
  "registry_map reg = hm_get (handlers reg)"

definition candidates :: "string set \<Rightarrow> method_name \<Rightarrow> string set" where
  "candidates K n = {k \<in> K. prefix (mn_package n @ ''@'') k \<and>
     suffix (''/'' @ mn_interface n @ ''/'' @ mn_method n) k}"

definition resolve :: "(string \<Rightarrow> 'e option) \<Rightarrow> string \<Rightarrow> 'e option" where
  "resolve m name =
     (if name \<in> dom m then m name
      else case parse_method_name name of
        None \<Rightarrow> None
      | Some n \<Rightarrow>
          if mn_version n \<noteq> None \<or> candidates (dom m) n = {} then None
          else m (Max (candidates (dom m) n)))"

lemma fold_max_Max: "fold (\<lambda>z m. if m \<le> z then z else m) ys y = Max (set (y # ys))"
proof (induction ys arbitrary: y)
  case Nil
  then show ?case by simp
next
  case (Cons z zs)
  have "Max (set (max y z # zs)) = Max (set (y # z # zs))"
    by (cases "zs = []") (simp_all add: max.assoc max.left_commute)
  with Cons [of "max y z"] show ?case
    by (simp add: max_def)
qed

lemma iter_max_eq: "iter_max xs = (if set xs = {} then None else Some (Max (set xs)))"
  by (simp add: iter_max_def fold_max_Max del: list.set split: list.split)

lemma registry_inv_new: "registry_inv registry_new"
  by (simp add: registry_inv_def registry_new_def hm_inv_def hm_keys_def)

lemma validate_pinned: "validate_canonical s = Inr u \<longleftrightarrow> pinned s"
  by (auto simp: validate_canonical_def pinned_def split: option.splits)

lemma registry_inv_insert:
  "registry_inv reg \<Longrightarrow> pinned k \<Longrightarrow> registry_inv (reg\<lparr>handlers := hm_insert k e (handlers reg)\<rparr>)"
  using hm.inv_insert [of "handlers reg" k e]
  by (simp add: registry_inv_def list_all_iff hm_keys_insert)

lemma register_inv: "registry_inv reg \<Longrightarrow> register k h reg = Inr reg' \<Longrightarrow> registry_inv reg'"
  by (auto simp: register_def registry_inv_insert validate_pinned split: sum.splits)

lemma register_streaming_inv:
  "registry_inv reg \<Longrightarrow> register_streaming k h reg = Inr reg' \<Longrightarrow> registry_inv reg'"
  by (auto simp: register_streaming_def registry_inv_insert validate_pinned split: sum.splits)

lemma register_map:
  "registry_inv reg \<Longrightarrow> register k h reg = Inr reg' \<Longrightarrow>
   pinned k \<and> registry_map reg' = (registry_map reg)(k \<mapsto> Unary h)"
  using hm.get_insert [of "handlers reg" k "Unary h"]
  by (auto simp: register_def registry_map_def registry_inv_def validate_pinned split: sum.splits)

lemma register_streaming_map:
  "registry_inv reg \<Longrightarrow> register_streaming k h reg = Inr reg' \<Longrightarrow>
   pinned k \<and> registry_map reg' = (registry_map reg)(k \<mapsto> Streaming h)"
  using hm.get_insert [of "handlers reg" k "Streaming h"]
  by (auto simp: register_streaming_def registry_map_def registry_inv_def validate_pinned
      split: sum.splits)

lemma candidates_keys:
  "set (filter (\<lambda>k. prefix (mn_package n @ ''@'') k \<and>
     suffix (''/'' @ mn_interface n @ ''/'' @ mn_method n) k) (hm_keys (handlers reg))) =
   candidates (dom (registry_map reg)) n"
  by (auto simp: candidates_def registry_map_def hm_keys_set)

lemma iter_max_candidates:
  "iter_max (filter (\<lambda>k. prefix (mn_package n @ ''@'') k \<and>
     suffix (''/'' @ mn_interface n @ ''/'' @ mn_method n) k) (hm_keys (handlers reg))) =
   (if candidates (dom (registry_map reg)) n = {} then None
    else Some (Max (candidates (dom (registry_map reg)) n)))"
  by (simp only: iter_max_eq candidates_keys)

lemma lookup_entry_resolve: "lookup_entry reg name = resolve (registry_map reg) name"
proof (cases "registry_map reg name")
  case None
  then have hm: "hm_get (handlers reg) name = None" by (simp add: registry_map_def)
  show ?thesis
  proof (cases "parse_method_name name")
    case None
    with hm show ?thesis by (simp add: lookup_entry_def resolve_def registry_map_def domIff)
  next
    case (Some n)
    show ?thesis
      unfolding lookup_entry_def hm Some resolve_def Let_def option.case iter_max_candidates
      using hm by (simp add: registry_map_def domIff)
  qed
qed (simp add: lookup_entry_def resolve_def registry_map_def domIff)

lemma pinned_iff:
  "pinned s \<longleftrightarrow> (\<exists>n v. wf_name n \<and> mn_version n = Some v \<and> s = to_canonical n)"
proof
  assume "pinned s"
  then obtain n where "parse_method_name s = Some n" "mn_version n \<noteq> None"
    by (auto simp: pinned_def split: option.splits)
  then show "\<exists>n v. wf_name n \<and> mn_version n = Some v \<and> s = to_canonical n"
    using parse_Some_wf by blast
qed (auto simp: pinned_def parse_canonical)

text \<open>
  Which keys match a version-omitted name. A key of the registry is the canonical form of a
  well-formed versioned name; its package is always the requested one, and where methods hold no
  slash its interface and method are too.
\<close>

lemma prefix_package_iff:
  assumes "wf_name m" "mn_version m = Some v" "CHR ''@'' \<notin> set p"
  shows "prefix (p @ ''@'') (to_canonical m) \<longleftrightarrow> mn_package m = p"
proof
  assume "prefix (p @ ''@'') (to_canonical m)"
  then obtain t where "to_canonical m = p @ CHR ''@'' # t" by (auto simp: prefix_def)
  then have "split_once (CHR ''@'') (to_canonical m) = Some (p, t)"
    using assms(3) by simp
  moreover have "split_once (CHR ''@'') (to_canonical m) =
      Some (mn_package m, v @ ''/'' @ mn_interface m @ ''/'' @ mn_method m)"
    using assms by (simp add: to_canonical_def wf_name_def)
  ultimately show "mn_package m = p" by simp
qed (use assms in \<open>simp add: to_canonical_def prefix_def\<close>)

lemma split_last_unique:
  fixes c :: char
  assumes "a @ c # b = a' @ c # b'" "c \<notin> set b" "c \<notin> set b'"
  shows "a = a' \<and> b = b'"
proof -
  have "split_once c (rev b @ c # rev a) = split_once c (rev b' @ c # rev a')"
    using arg_cong [OF assms(1), of rev] by simp
  with assms(2,3) show ?thesis by simp
qed

lemma suffix_triple_iff:
  assumes "wf_name m" "CHR ''/'' \<notin> set (mn_method m)" "CHR ''/'' \<notin> set i" "CHR ''/'' \<notin> set me"
  shows "suffix (''/'' @ i @ ''/'' @ me) (to_canonical m) \<longleftrightarrow>
    mn_interface m = i \<and> mn_method m = me"
proof
  assume "suffix (''/'' @ i @ ''/'' @ me) (to_canonical m)"
  then obtain t where t: "to_canonical m = t @ ''/'' @ i @ ''/'' @ me" by (auto simp: suffix_def)
  then have "(name_head m @ CHR ''/'' # mn_interface m) @ CHR ''/'' # mn_method m =
      (t @ CHR ''/'' # i) @ CHR ''/'' # me"
    by (simp add: to_canonical_head)
  then have *: "name_head m @ CHR ''/'' # mn_interface m = t @ CHR ''/'' # i \<and> mn_method m = me"
    using assms(2,4) by (rule split_last_unique)
  moreover have "CHR ''/'' \<notin> set (mn_interface m)" using assms(1) by (simp add: wf_name_def)
  ultimately show "mn_interface m = i \<and> mn_method m = me"
    using assms(3) split_last_unique [of "name_head m" "CHR ''/''" "mn_interface m" t i] by blast
next
  assume "mn_interface m = i \<and> mn_method m = me"
  then show "suffix (''/'' @ i @ ''/'' @ me) (to_canonical m)"
    by (auto simp: to_canonical_head suffix_def)
qed

definition plain_method :: "string \<Rightarrow> bool" where
  "plain_method s \<longleftrightarrow>
     (case parse_method_name s of None \<Rightarrow> False | Some n \<Rightarrow> CHR ''/'' \<notin> set (mn_method n))"

definition same_triple :: "method_name \<Rightarrow> method_name \<Rightarrow> bool" where
  "same_triple m n \<longleftrightarrow> mn_package m = mn_package n \<and> mn_interface m = mn_interface n \<and>
     mn_method m = mn_method n"

lemma candidates_triple:
  assumes "\<forall>k \<in> K. pinned k \<and> plain_method k" "wf_name n" "CHR ''/'' \<notin> set (mn_method n)"
  shows "candidates K n = {k \<in> K. \<exists>m. parse_method_name k = Some m \<and> same_triple m n}"
proof -
  have "prefix (mn_package n @ ''@'') k \<and> suffix (''/'' @ mn_interface n @ ''/'' @ mn_method n) k
    \<longleftrightarrow> (\<exists>m. parse_method_name k = Some m \<and> same_triple m n)" if k: "k \<in> K" for k
  proof -
    from assms(1) k obtain m v where m: "wf_name m" "mn_version m = Some v" "k = to_canonical m"
      by (auto simp: pinned_iff)
    with assms(1) k have plain: "CHR ''/'' \<notin> set (mn_method m)"
      by (force simp: plain_method_def parse_canonical)
    show ?thesis
      using m plain assms(2,3) prefix_package_iff [of m v "mn_package n"]
        suffix_triple_iff [of m "mn_interface n" "mn_method n"]
      by (simp only: parse_canonical same_triple_def wf_name_def [of n]) simp
  qed
  then show ?thesis by (auto simp: candidates_def)
qed

subsection \<open>A registry built by registrations\<close>

text \<open>
  The registrations of a program, in order: the name and the handler of each. A call with a name
  that is not pinned panics.
\<close>

fun register_entry ::
  "string \<times> ('u, 's) handler_entry \<Rightarrow> ('u, 's) method_registry \<Rightarrow> string + ('u, 's) method_registry" where
  "register_entry (name, Unary h) reg = register name h reg"
| "register_entry (name, Streaming h) reg = register_streaming name h reg"

fun register_entries ::
  "(string \<times> ('u, 's) handler_entry) list \<Rightarrow> ('u, 's) method_registry \<Rightarrow> string + ('u, 's) method_registry" where
  "register_entries [] reg = Inr reg"
| "register_entries (x # xs) reg =
     (case register_entry x reg of Inl p \<Rightarrow> Inl p | Inr reg1 \<Rightarrow> register_entries xs reg1)"

lemma register_entry_result:
  assumes "registry_inv reg"
  shows "case register_entry (name, e) reg of Inl _ \<Rightarrow> \<not> pinned name
    | Inr reg1 \<Rightarrow> pinned name \<and> registry_inv reg1 \<and> registry_map reg1 = (registry_map reg)(name \<mapsto> e)"
proof (cases "register_entry (name, e) reg")
  case (Inl p)
  then show ?thesis
    by (cases e; cases "validate_canonical name")
      (simp_all add: register_def register_streaming_def flip: validate_pinned [of name "()"])
next
  case (Inr reg1)
  then show ?thesis
    by (cases e) (simp_all add: register_inv [OF assms] register_streaming_inv [OF assms]
        register_map [OF assms] register_streaming_map [OF assms])
qed

lemma register_entries_result:
  assumes "registry_inv reg"
  shows "case register_entries ops reg of Inl _ \<Rightarrow> \<not> list_all pinned (map fst ops)
    | Inr reg1 \<Rightarrow> list_all pinned (map fst ops) \<and> registry_inv reg1 \<and>
        registry_map reg1 = registry_map reg ++ map_of (rev ops)"
  using assms
proof (induction ops arbitrary: reg)
  case Nil
  then show ?case by simp
next
  case (Cons x xs)
  obtain name e where x: "x = (name, e)" by (cases x)
  show ?case
  proof (cases "register_entry x reg")
    case (Inl p)
    with register_entry_result [OF Cons.prems, of name e] show ?thesis by (simp add: x)
  next
    case (Inr reg1)
    with register_entry_result [OF Cons.prems, of name e] have
      reg1: "pinned name" "registry_inv reg1" "registry_map reg1 = (registry_map reg)(name \<mapsto> e)"
      by (simp_all add: x)
    from Cons.IH [OF reg1(2)] Inr reg1(1,3) show ?thesis
      by (auto simp: x fun_eq_iff map_add_def split: sum.splits option.split)
  qed
qed

lemma registry_len_card: "registry_inv reg \<Longrightarrow> registry_len reg = card (dom (registry_map reg))"
  using distinct_card [of "hm_keys (handlers reg)"] hm_keys_set [of "handlers reg"]
  by (simp add: registry_inv_def registry_len_def registry_map_def hm_inv_def hm_keys_def)

subsection \<open>Properties\<close>

text \<open>
  C31. The parser and the printer of method names are inverse: a string parses to a name exactly when
  the name is well-formed and prints to that string, so no string has two readings, everything else
  is rejected, and every well-formed name can be parsed back.
\<close>

theorem method_name_parse_print:
  "parse_method_name s = Some n \<longleftrightarrow> wf_name n \<and> s = to_canonical n"
  by (rule parse_iff)

text \<open>
  Registration: a name is accepted exactly when it is well-formed and pins a version (otherwise
  the call panics), the registry stays well-formed, the name then resolves to the new handler of
  its kind and to none of the other kind, and every other exact name keeps its entry.
\<close>

theorem registration_takes_effect:
  assumes reg: "registry_inv reg"
  shows "(\<exists>p. register name h reg = Inl p) \<noteq> pinned name \<and>
    (\<exists>p. register_streaming name g reg = Inl p) \<noteq> pinned name \<and>
    (\<forall>reg'. register name h reg = Inr reg' \<longrightarrow>
       registry_inv reg' \<and> lookup reg' name = Some h \<and> lookup_streaming reg' name = None \<and>
       registry_map reg' = (registry_map reg)(name \<mapsto> Unary h)) \<and>
    (\<forall>reg'. register_streaming name g reg = Inr reg' \<longrightarrow>
       registry_inv reg' \<and> lookup_streaming reg' name = Some g \<and> lookup reg' name = None \<and>
       registry_map reg' = (registry_map reg)(name \<mapsto> Streaming g))"
proof (intro conjI allI impI)
  show "(\<exists>p. register name h reg = Inl p) \<noteq> pinned name"
    "(\<exists>p. register_streaming name g reg = Inl p) \<noteq> pinned name"
    using validate_pinned [of name]
    by (auto simp: register_def register_streaming_def split: sum.split)
next
  fix reg' assume r: "register name h reg = Inr reg'"
  note m = register_map [OF reg r]
  then show "lookup reg' name = Some h" "lookup_streaming reg' name = None"
    by (simp_all add: lookup_def lookup_streaming_def lookup_entry_resolve resolve_def domIff)
  from m show "registry_map reg' = (registry_map reg)(name \<mapsto> Unary h)" by simp
  show "registry_inv reg'" by (rule register_inv [OF reg r])
next
  fix reg' assume r: "register_streaming name g reg = Inr reg'"
  note m = register_streaming_map [OF reg r]
  then show "lookup_streaming reg' name = Some g" "lookup reg' name = None"
    by (simp_all add: lookup_def lookup_streaming_def lookup_entry_resolve resolve_def domIff)
  from m show "registry_map reg' = (registry_map reg)(name \<mapsto> Streaming g)" by simp
  show "registry_inv reg'" by (rule register_streaming_inv [OF reg r])
qed

theorem registration_takes_effect_witness:
  "\<exists>reg'. register ''a@1/i/m'' (7 :: nat) (registry_new :: (nat, nat) method_registry) = Inr reg' \<and>
    lookup reg' ''a@1/i/m'' = Some 7 \<and> (\<exists>p. register ''a/i/m'' 7 (registry_new :: (nat, nat) method_registry) = Inl p)"
proof -
  note th = registration_takes_effect [OF registry_inv_new, where 'a = nat and 'b = nat]
  have "pinned ''a@1/i/m''" "\<not> pinned ''a/i/m''" by code_simp+
  with th [of "''a@1/i/m''" 7 0] th [of "''a/i/m''" 7 0] show ?thesis
    by (cases "register ''a@1/i/m'' (7 :: nat) (registry_new :: (nat, nat) method_registry)") auto
qed

text \<open>
  C19. Lookup implements resolution over the abstract map from names to entries: the result depends
  on what is registered only, never on the iteration order of the hash map. An exact name wins; a
  version-omitted name resolves to the bytewise largest registered key with the requested package,
  interface and method (where methods contain no slash); a pinned name never falls back.
\<close>

theorem lookup_resolves:
  assumes plain: "\<forall>k \<in> dom (registry_map reg). pinned k \<and> plain_method k"
  shows "lookup_entry reg name = resolve (registry_map reg) name \<and>
    (name \<in> dom (registry_map reg) \<longrightarrow> lookup_entry reg name = registry_map reg name) \<and>
    (name \<notin> dom (registry_map reg) \<longrightarrow> pinned name \<longrightarrow> lookup_entry reg name = None) \<and>
    (\<forall>n. parse_method_name name = Some n \<longrightarrow> mn_version n = None \<longrightarrow> CHR ''/'' \<notin> set (mn_method n) \<longrightarrow>
       (let K = {k \<in> dom (registry_map reg). \<exists>m. parse_method_name k = Some m \<and> same_triple m n}
        in lookup_entry reg name = (if K = {} then None else registry_map reg (Max K))))"
proof (intro conjI allI impI)
  show r: "lookup_entry reg name = resolve (registry_map reg) name" by (rule lookup_entry_resolve)
  show "lookup_entry reg name = registry_map reg name" if "name \<in> dom (registry_map reg)"
    using that r by (simp add: resolve_def)
  show "lookup_entry reg name = None" if "name \<notin> dom (registry_map reg)" "pinned name"
    using that r by (auto simp: resolve_def pinned_def split: option.splits)
  show "let K = {k \<in> dom (registry_map reg). \<exists>m. parse_method_name k = Some m \<and> same_triple m n}
        in lookup_entry reg name = (if K = {} then None else registry_map reg (Max K))"
    if n: "parse_method_name name = Some n" "mn_version n = None" "CHR ''/'' \<notin> set (mn_method n)" for n
  proof -
    from n(1,2) have "\<not> pinned name" by (simp add: pinned_def)
    with plain have "name \<notin> dom (registry_map reg)" by blast
    moreover have "candidates (dom (registry_map reg)) n =
        {k \<in> dom (registry_map reg). \<exists>m. parse_method_name k = Some m \<and> same_triple m n}"
      by (rule candidates_triple [OF plain _ n(3)]) (use n(1) parse_Some_wf in blast)
    moreover from n(1,2) r calculation(1) have "lookup_entry reg name =
      (if candidates (dom (registry_map reg)) n = {} then None
       else registry_map reg (Max (candidates (dom (registry_map reg)) n)))"
      by (simp add: resolve_def)
    ultimately show ?thesis by (simp only: Let_def)
  qed
qed

theorem lookup_resolves_witness:
  "lookup_entry \<lparr>handlers = [(''a@1/i/m'', Unary (1 :: nat)), (''a@2/i/m'', Streaming (2 :: nat))]\<rparr> ''a@3/i/m'' = None"
proof -
  let ?reg = "\<lparr>handlers = [(''a@1/i/m'', Unary (1 :: nat)), (''a@2/i/m'', Streaming (2 :: nat))]\<rparr>"
  have "list_all (\<lambda>k. pinned k \<and> plain_method k) [''a@1/i/m'', ''a@2/i/m'']" by code_simp
  moreover have dom: "dom (registry_map ?reg) = {''a@1/i/m'', ''a@2/i/m''}"
    by (auto simp: registry_map_def hm_get_def split: if_splits)
  ultimately have "\<forall>k \<in> dom (registry_map ?reg). pinned k \<and> plain_method k" by simp
  moreover have "pinned ''a@3/i/m''" by code_simp
  moreover have "''a@3/i/m'' \<notin> dom (registry_map ?reg)" unfolding dom by simp
  ultimately show ?thesis using lookup_resolves [of ?reg "''a@3/i/m''"] by blast
qed

text \<open>
  C30. The registry a program builds. A sequence of registrations panics exactly when one of its names
  does not pin a version. Otherwise the registry is well-formed (distinct pinned keys), it is the map
  of the last registration of each name, its length counts the names, a lookup of either kind only
  ever returns a handler registered as that kind, and no name resolves to both kinds.
\<close>

theorem registry_built_by_registrations:
  "case register_entries ops (registry_new :: ('u, 's) method_registry) of
     Inl _ \<Rightarrow> \<not> list_all pinned (map fst ops)
   | Inr reg \<Rightarrow> list_all pinned (map fst ops) \<and> registry_inv reg \<and> registry_map reg = map_of (rev ops) \<and>
       registry_len reg = card (fst ` set ops) \<and>
       (\<forall>name. lookup reg name = None \<or> lookup_streaming reg name = None) \<and>
       (\<forall>name h. lookup reg name = Some h \<longrightarrow> Unary h \<in> snd ` set ops) \<and>
       (\<forall>name h. lookup_streaming reg name = Some h \<longrightarrow> Streaming h \<in> snd ` set ops)"
proof (cases "register_entries ops (registry_new :: ('u, 's) method_registry)")
  case (Inl p)
  with register_entries_result [OF registry_inv_new, of ops] show ?thesis by simp
next
  case (Inr reg)
  have "registry_map (registry_new :: ('u, 's) method_registry) = Map.empty"
    by (simp add: registry_map_def registry_new_def hm_get_def fun_eq_iff)
  with Inr register_entries_result [OF registry_inv_new, of ops] have
    reg: "list_all pinned (map fst ops)" "registry_inv reg" "registry_map reg = map_of (rev ops)"
    by simp_all
  have entry: "x \<in> snd ` set ops" if "lookup_entry reg name = Some x" for name x
  proof -
    from that reg(3) obtain k where "map_of (rev ops) k = Some x"
      by (auto simp: lookup_entry_resolve resolve_def split: if_splits option.splits)
    then have "(k, x) \<in> set (rev ops)" by (rule map_of_SomeD)
    then show ?thesis by force
  qed
  have "registry_len reg = card (fst ` set ops)"
    using reg by (simp add: registry_len_card dom_map_of_conv_image_fst)
  moreover have "lookup reg name = None \<or> lookup_streaming reg name = None" for name
    by (auto simp: lookup_def lookup_streaming_def split: option.split handler_entry.split)
  moreover have "Unary h \<in> snd ` set ops" if "lookup reg name = Some h" for name h
    using that by (intro entry [of name]) (auto simp: lookup_def split: option.splits handler_entry.splits)
  moreover have "Streaming h \<in> snd ` set ops" if "lookup_streaming reg name = Some h" for name h
    using that by (intro entry [of name]) (auto simp: lookup_streaming_def split: option.splits handler_entry.splits)
  ultimately show ?thesis using Inr reg by simp
qed

theorem registry_built_by_registrations_witness:
  "(let ops = [(''a@1/i/m'', Unary (1 :: nat)), (''a@1/i/s'', Streaming (2 :: nat)), (''a@1/i/m'', Unary 3)] in
    \<exists>reg. register_entries ops registry_new = Inr reg \<and> registry_len reg = 2 \<and>
      registry_map reg ''a@1/i/m'' = Some (Unary 3)) \<and>
   (\<exists>p. register_entries [(''a/i/m'', Unary (1 :: nat))] (registry_new :: (nat, nat) method_registry) = Inl p)"
proof -
  let ?ops = "[(''a@1/i/m'', Unary (1 :: nat)), (''a@1/i/s'', Streaming (2 :: nat)), (''a@1/i/m'', Unary 3)]"
  have pinned: "list_all pinned (map fst ?ops)" "\<not> pinned ''a/i/m''" by code_simp+
  with registry_built_by_registrations [of ?ops] obtain reg where
    reg: "register_entries ?ops registry_new = Inr reg" "registry_map reg = map_of (rev ?ops)"
      "registry_len reg = card (fst ` set ?ops)"
    by (auto split: sum.splits simp del: rev.simps register_entries.simps)
  moreover have "fst ` set ?ops = {''a@1/i/m'', ''a@1/i/s''}" by auto
  moreover from registry_built_by_registrations [of "[(''a/i/m'', Unary 1 :: (nat, nat) handler_entry)]"] pinned(2)
  have "\<exists>p. register_entries [(''a/i/m'', Unary (1 :: nat))] (registry_new :: (nat, nat) method_registry) = Inl p"
    by (auto split: sum.splits simp del: register_entries.simps)
  ultimately show ?thesis unfolding Let_def by (intro conjI exI [of _ reg]) simp_all
qed

text \<open>
  The order that picks the version is the bytewise order of the whole key. It is not the order of
  versions: of 1.9.0 and 1.10.0 the older 1.9.0 is chosen, and of 1.0 and 1.0.1 the older 1.0, whose
  following slash is larger than the dot.
\<close>

theorem version_choice_is_bytewise:
  "lookup \<lparr>handlers = [(''a@1.9.0/i/m'', Unary (9 :: nat)), (''a@1.10.0/i/m'', Unary 10)]\<rparr> ''a/i/m'' = Some 9 \<and>
   lookup \<lparr>handlers = [(''a@1.0/i/m'', Unary (0 :: nat)), (''a@1.0.1/i/m'', Unary 1)]\<rparr> ''a/i/m'' = Some 0"
  by code_simp

text \<open>
  A version-omitted lookup compares the end of the key as text: a registered method name that
  contains a slash can answer for another interface. The key below is method i/m of interface
  x, and it is found for method m of interface i.
\<close>

theorem omitted_lookup_crosses_interfaces:
  "parse_method_name ''a@1/x/i/m'' =
     Some \<lparr>mn_package = ''a'', mn_version = Some ''1'', mn_interface = ''x'', mn_method = ''i/m''\<rparr> \<and>
   lookup \<lparr>handlers = [(''a@1/x/i/m'', Unary (5 :: nat))]\<rparr> ''a/i/m'' = Some 5"
  by code_simp

end
