(* ===== verification/Transport.thy ===== *)
theory Transport
  imports Rust_Prelude
begin

section \<open>transport.rs: protocol names and the transport handle\<close>

text \<open>
  The ALPN byte strings of \<^verbatim>\<open>src/transport.rs\<close>, and the handle that server, client and
  dispatcher share: a wrapper around the client of nerw-core, whose type is the parameter \<open>'c\<close> and whose
  own identity is given by the function \<open>core_node_id\<close>. What the crate calls of that client is the parameter
  \<open>net_ops\<close> of the theory \<open>Client\<close>. The handler trait has no body; its implementations are
  parameters of the theory \<open>Server\<close>.
\<close>

definition ALPN_NERW_RPC_1_0_0 :: bytes where
  "ALPN_NERW_RPC_1_0_0 = str_bytes ''nerw/rpc/1.0.0''"

definition ALPN_NERW_DATAGRAM_1_0_0 :: bytes where
  "ALPN_NERW_DATAGRAM_1_0_0 = str_bytes ''nerw/datagram/1.0.0''"

definition ALPN_NERW_MESH_1_0_0 :: bytes where
  "ALPN_NERW_MESH_1_0_0 = str_bytes ''nerw/mesh/1.0.0''"

definition ALPN_NERW_TRANSIT_1_0_0 :: bytes where
  "ALPN_NERW_TRANSIT_1_0_0 = str_bytes ''nerw/transit/1.0.0''"

definition NERW_RPC_ALPNS :: "bytes list" where
  "NERW_RPC_ALPNS = [ALPN_NERW_RPC_1_0_0, ALPN_NERW_DATAGRAM_1_0_0, ALPN_NERW_MESH_1_0_0,
     ALPN_NERW_TRANSIT_1_0_0]"

text \<open>The protocols are told apart by their names.\<close>

lemma alpns_distinct: "distinct NERW_RPC_ALPNS"
  by code_simp

record 'c transport_client =
  tc_inner :: 'c

definition transport_new :: "'c \<Rightarrow> 'c transport_client" where
  "transport_new client = \<lparr>tc_inner = client\<rparr>"

definition transport_inner :: "'c transport_client \<Rightarrow> 'c" where
  "transport_inner t = tc_inner t"

definition transport_node_id :: "('c \<Rightarrow> 'n) \<Rightarrow> 'c transport_client \<Rightarrow> 'n" where
  "transport_node_id core_node_id t = core_node_id (tc_inner t)"

text \<open>Services built on clones of one handle act as one node.\<close>

lemma transport_shared:
  "transport_inner (transport_new client) = client"
  "transport_inner t = transport_inner u \<Longrightarrow> transport_node_id core_node_id t = transport_node_id core_node_id u"
  by (simp_all add: transport_new_def transport_inner_def transport_node_id_def)

end
