(* ===== verification/Server_Unary.thy ===== *)
theory Server_Unary
  imports Wire Wire_Error Context Method Transport
begin

section \<open>server.rs: one unary call\<close>

text \<open>
  The path of one inbound substream that carries a unary request: read the frame, look the method
  up, build the context, run the handler, write the response or error frame, finish the stream.
  Application handlers are values of the registry; \<open>run\<close> runs one on a context, a payload and
  the state \<open>'w\<close> all handlers act on, and \<open>None\<close> of its result is a panic of the handler. What the
  code reads of the connection and the clocks is the record \<open>call_env\<close>: it is an input of the
  model, so nothing is assumed of the clocks.
\<close>

definition RPC_STREAM_READ_LIMIT :: nat where
  "RPC_STREAM_READ_LIMIT = 8 * 1024 * 1024"

record call_env =
  env_remote_id :: node_id
  env_connection_id :: u64
  env_stream_id :: u64
  env_unix_ms :: "nat option"
  env_elapsed_us :: nat
  env_elapsed_ns :: nat
  env_fresh_ids :: "uuid \<times> uuid"

definition u64_saturating :: "nat \<Rightarrow> u64" where
  "u64_saturating n = (if n < 2 ^ 64 then word_of_nat n else 0xFFFFFFFFFFFFFFFF)"

definition i64_or_zero :: "nat \<Rightarrow> int" where
  "i64_or_zero n = (if n < 2 ^ 63 then int n else 0)"

definition build_inbound_context :: "call_env \<Rightarrow> u64 \<Rightarrow> rpc_context" where
  "build_inbound_context env frame_decode_duration_us =
     (let now_ms = i64_or_zero (case env_unix_ms env of Some d \<Rightarrow> d | None \<Rightarrow> 0);
          received_at_monotonic_ns = u64_saturating (env_elapsed_ns env);
          peer = \<lparr>pm_node_id = env_remote_id env, pm_connection_id = env_connection_id env,
                  pm_stream_id = env_stream_id env, pm_alpn = ALPN_NERW_RPC_1_0_0,
                  pm_handshake_at_ms = now_ms, pm_tls_cipher_suite = None\<rparr>
      in \<lparr>ctx_peer = peer,
          ctx_timing = \<lparr>ti_received_at_ms = now_ms,
            ti_received_at_monotonic_ns = received_at_monotonic_ns,
            ti_frame_decode_duration_us = frame_decode_duration_us\<rparr>,
          ctx_auth = None, ctx_session = None, ctx_tracing = tracing_fresh (env_fresh_ids env)\<rparr>)"

subsection \<open>Frames\<close>

definition build_unary_request_frame :: "leb128 \<Rightarrow> string \<Rightarrow> bytes \<Rightarrow> bytes rpc_result" where
  "build_unary_request_frame L method_name request =
     (case encode_method_name L method_name [OPCODE_UNARY_REQUEST] of
        Inl e \<Rightarrow> Inl e
      | Inr buf \<Rightarrow> Inr (buf @ request))"

definition write_response :: "'t send_ops \<Rightarrow> 't \<Rightarrow> bytes \<Rightarrow> unit rpc_result \<times> 't" where
  "write_response T send response =
     (case tx_write T send (OPCODE_UNARY_RESPONSE # response) of
        (Inl e, send1) \<Rightarrow> (Inl (TransportWrite e), send1)
      | (Inr _, send1) \<Rightarrow>
          (case tx_finish T send1 of
             (Inl e, send2) \<Rightarrow> (Inl (TransportWrite (''finish: '' @ e)), send2)
           | (Inr _, send2) \<Rightarrow> (Inr (), send2)))"

definition write_error ::
  "'t send_ops \<Rightarrow> wire_error postcard \<Rightarrow> (string \<Rightarrow> string) \<Rightarrow> 't \<Rightarrow> rpc_error \<Rightarrow>
   unit rpc_result \<times> 't" where
  "write_error T W dbg send err =
     (case pc_to_vec W (from_rpc_error dbg err) of
        Inl e \<Rightarrow> (Inl (Codec e), send)
      | Inr body_bytes \<Rightarrow>
          (case tx_write T send (OPCODE_UNARY_ERROR # body_bytes) of
             (Inl e, send1) \<Rightarrow> (Inl (TransportWrite e), send1)
           | (Inr _, send1) \<Rightarrow>
               (case tx_finish T send1 of (_, send2) \<Rightarrow> (Inr (), send2))))"

subsection \<open>Dispatch\<close>

definition dispatch_unary ::
  "leb128 \<Rightarrow> ('u \<Rightarrow> rpc_context \<Rightarrow> bytes \<Rightarrow> 'w \<Rightarrow> bytes rpc_result option \<times> 'w) \<Rightarrow>
   ('u, 's) method_registry \<Rightarrow> call_env \<Rightarrow> bytes \<Rightarrow> 'w \<Rightarrow> bytes rpc_result option \<times> 'w" where
  "dispatch_unary L run registry env buf w =
     (case buf of
        [] \<Rightarrow> (Some (Inl (MalformedFrame ''empty request frame'')), w)
      | opcode # tail_bytes \<Rightarrow>
          if opcode \<noteq> OPCODE_UNARY_REQUEST then
            (Some (Inl (MalformedFrame (''expected unary-request opcode 0x'' @
               hex02 OPCODE_UNARY_REQUEST @ '', got 0x'' @ hex02 opcode))), w)
          else
            (case decode_method_name L tail_bytes of
               Inl e \<Rightarrow> (Some (Inl e), w)
             | Inr (method_name, payload_slice) \<Rightarrow>
                 (let consumed_prefix = length buf - length payload_slice;
                      payload = drop consumed_prefix buf
                  in case lookup registry method_name of
                       None \<Rightarrow> (Some (Inl (UnknownMethod method_name)), w)
                     | Some handler \<Rightarrow>
                         (let frame_decode_duration_us = u64_saturating (env_elapsed_us env);
                              ctx = build_inbound_context env frame_decode_duration_us
                          in run handler ctx payload w))))"

text \<open>
  A task that panics drops its stream half unfinished: nothing more is written.
\<close>

definition handle_unary_stream_with_opcode_consumed ::
  "leb128 \<Rightarrow> 'r recv_ops \<Rightarrow> 't send_ops \<Rightarrow> wire_error postcard \<Rightarrow> (string \<Rightarrow> string) \<Rightarrow>
   ('u \<Rightarrow> rpc_context \<Rightarrow> bytes \<Rightarrow> 'w \<Rightarrow> bytes rpc_result option \<times> 'w) \<Rightarrow>
   ('u, 's) method_registry \<Rightarrow> call_env \<Rightarrow> 't \<Rightarrow> 'r \<Rightarrow> 'w \<Rightarrow> 't \<times> 'w" where
  "handle_unary_stream_with_opcode_consumed L R T W dbg run registry env send recv w =
     (case rx_to_end R recv RPC_STREAM_READ_LIMIT of
        (Inl e, _) \<Rightarrow> (send, w)
      | (Inr tail_bytes, _) \<Rightarrow>
          (let buf = OPCODE_UNARY_REQUEST # tail_bytes
           in case dispatch_unary L run registry env buf w of
                (None, w1) \<Rightarrow> (send, w1)
              | (Some (Inr response_bytes), w1) \<Rightarrow> (snd (write_response T send response_bytes), w1)
              | (Some (Inl err), w1) \<Rightarrow> (snd (write_error T W dbg send err), w1)))"

subsection \<open>Lemmas\<close>

text \<open>The two frames a reply can be.\<close>

definition reply_bytes ::
  "wire_error postcard \<Rightarrow> (string \<Rightarrow> string) \<Rightarrow> bytes rpc_result \<Rightarrow> bytes option" where
  "reply_bytes W dbg reply =
     (case reply of
        Inr response \<Rightarrow> Some (OPCODE_UNARY_RESPONSE # response)
      | Inl err \<Rightarrow> (case pc_to_vec W (from_rpc_error dbg err) of
            Inl _ \<Rightarrow> None
          | Inr body \<Rightarrow> Some (OPCODE_UNARY_ERROR # body)))"

definition write_reply ::
  "'t send_ops \<Rightarrow> wire_error postcard \<Rightarrow> (string \<Rightarrow> string) \<Rightarrow> 't \<Rightarrow> bytes rpc_result \<Rightarrow>
   unit rpc_result \<times> 't" where
  "write_reply T W dbg send reply =
     (case reply of Inr response \<Rightarrow> write_response T send response
      | Inl err \<Rightarrow> write_error T W dbg send err)"

context quic_send begin

lemma write_reply_ok:
  assumes "healthy t" "reply_bytes W dbg reply = Some bs"
  obtains t' where "write_reply T W dbg t reply = (Inr (), t')" "written t' = written t @ bs"
    "closed t'"
proof -
  from healthy_write [OF assms(1), of bs] obtain t1 where
    t1: "tx_write T t bs = (Inr (), t1)" "healthy t1" by blast
  from healthy_finish [OF t1(2)] obtain t2 where t2: "tx_finish T t1 = (Inr (), t2)" by blast
  have "write_reply T W dbg t reply = (Inr (), t2)"
    using assms(2) t1(1) t2
    by (auto simp: reply_bytes_def write_reply_def write_response_def write_error_def
        split: sum.splits)
  moreover have "written t2 = written t @ bs" "closed t2"
    using write_ok [OF t1(1)] finish_ok [OF t2] by simp_all
  ultimately show thesis by (rule that)
qed

text \<open>Whatever fails, what is written is a prefix of the reply frame.\<close>

lemma write_reply_prefix:
  assumes "write_reply T W dbg t reply = (res, t')"
  shows "\<exists>k. written t' = written t @ (case reply_bytes W dbg reply of None \<Rightarrow> [] | Some bs \<Rightarrow> take k bs)"
proof (cases "reply_bytes W dbg reply")
  case None
  then have "t' = t"
    using assms by (auto simp: reply_bytes_def write_reply_def write_error_def split: sum.splits)
  with None show ?thesis by simp
next
  case (Some bs)
  obtain x t1 where w: "tx_write T t bs = (x, t1)" by (cases "tx_write T t bs")
  from write_prefix [OF w] obtain k where k: "written t1 = written t @ take k bs" by blast
  obtain y t2 where f: "tx_finish T t1 = (y, t2)" by (cases "tx_finish T t1")
  have "t' = t1 \<or> t' = t2"
    using Some assms w f
    by (auto simp: reply_bytes_def write_reply_def write_response_def write_error_def
        split: sum.splits)
  with k finish_written [OF f] Some show ?thesis by auto
qed

end

lemma handle_unary_write_reply:
  "handle_unary_stream_with_opcode_consumed L R T W dbg run registry env send recv w =
     (case rx_to_end R recv RPC_STREAM_READ_LIMIT of
        (Inl e, _) \<Rightarrow> (send, w)
      | (Inr tail_bytes, _) \<Rightarrow>
          (case dispatch_unary L run registry env (OPCODE_UNARY_REQUEST # tail_bytes) w of
             (None, w1) \<Rightarrow> (send, w1)
           | (Some reply, w1) \<Rightarrow> (snd (write_reply T W dbg send reply), w1)))"
  by (simp add: handle_unary_stream_with_opcode_consumed_def write_reply_def
      split: sum.split prod.split option.split)

context leb128_codec begin

lemma request_frame_eq:
  "length name < 2 ^ 64 \<Longrightarrow> build_unary_request_frame L name request =
     Inr (OPCODE_UNARY_REQUEST # uleb (length name) @ str_bytes name @ request)"
  by (simp add: build_unary_request_frame_def encode_method_name_eq)

end

text \<open>The outcome of a call of \<open>name\<close> with \<open>request\<close>: what a client is to receive.\<close>

definition call_outcome ::
  "('u \<Rightarrow> rpc_context \<Rightarrow> bytes \<Rightarrow> 'w \<Rightarrow> bytes rpc_result option \<times> 'w) \<Rightarrow>
   ('u, 's) method_registry \<Rightarrow> call_env \<Rightarrow> string \<Rightarrow> bytes \<Rightarrow> 'w \<Rightarrow> bytes rpc_result option \<times> 'w" where
  "call_outcome run registry env name request w =
     (case lookup registry name of
        None \<Rightarrow> (Some (Inl (UnknownMethod name)), w)
      | Some h \<Rightarrow> run h (build_inbound_context env (u64_saturating (env_elapsed_us env))) request w)"

context leb128_codec begin

lemma dispatch_request:
  assumes "rust_str name" "length name \<le> MAX_METHOD_NAME_LEN"
    and "build_unary_request_frame L name request = Inr frame"
  shows "dispatch_unary L run registry env frame w = call_outcome run registry env name request w"
proof -
  have "length name < 2 ^ 64" using assms(2) by (simp add: MAX_METHOD_NAME_LEN_def)
  with assms(3) have "frame = OPCODE_UNARY_REQUEST # uleb (length name) @ str_bytes name @ request"
    by (simp add: request_frame_eq)
  moreover from this have "drop (length frame - length request) frame = request" by simp
  ultimately show ?thesis
    using decode_method_name_ok [OF assms(1,2), of request]
    by (simp add: dispatch_unary_def call_outcome_def Let_def split: option.split)
qed

text \<open>A request behind its opcode: what is decoded decides, and the handler runs on the rest.\<close>

lemma dispatch_decoded:
  "dispatch_unary L run registry env (OPCODE_UNARY_REQUEST # bs) w =
     (case decode_method_name L bs of
        Inl e \<Rightarrow> (Some (Inl e), w)
      | Inr (name, payload) \<Rightarrow>
          (case lookup registry name of
             None \<Rightarrow> (Some (Inl (UnknownMethod name)), w)
           | Some h \<Rightarrow> run h (build_inbound_context env (u64_saturating (env_elapsed_us env))) payload w))"
proof (cases "decode_method_name L bs")
  case (Inl e)
  then show ?thesis by (simp add: dispatch_unary_def)
next
  case (Inr nr)
  then obtain name payload where d: "decode_method_name L bs = Inr (name, payload)" by (cases nr) auto
  from decode_method_name_sound [OF d] obtain hdr where "bs = hdr @ str_bytes name @ payload" by blast
  then have "drop (Suc (length bs) - length payload) (OPCODE_UNARY_REQUEST # bs) = payload" by simp
  with d show ?thesis by (simp add: dispatch_unary_def split: option.split)
qed

end

subsection \<open>A concrete server\<close>

text \<open>
  A registry with an echo method that counts its calls, and one call's environment.
\<close>

definition demo_registry :: "(nat, nat) method_registry" where
  "demo_registry = \<lparr>handlers = [(''a@1/i/echo'', Unary 0), (''a@1/i/fail'', Unary 1),
     (''a@1/i/stream'', Streaming 0)]\<rparr>"

definition demo_run :: "nat \<Rightarrow> rpc_context \<Rightarrow> bytes \<Rightarrow> nat \<Rightarrow> bytes rpc_result option \<times> nat" where
  "demo_run h ctx payload n =
     (Some (if h = 0 then Inr payload else Inl (Handler ''no'')), Suc n)"

definition demo_env :: call_env where
  "demo_env = \<lparr>env_remote_id = [], env_connection_id = 1, env_stream_id = 0,
     env_unix_ms = Some 1000, env_elapsed_us = 5, env_elapsed_ns = 5000, env_fresh_ids = (0, 1)\<rparr>"

subsection \<open>Properties\<close>

text \<open>
  \<open>replied\<close>: the stream carries exactly the reply's frame and is finished; a reply whose error
  envelope postcard cannot serialize leaves the stream empty.
\<close>

definition replied ::
  "wire_error postcard \<Rightarrow> (string \<Rightarrow> string) \<Rightarrow> ('t \<Rightarrow> bytes) \<Rightarrow> ('t \<Rightarrow> bool) \<Rightarrow>
   bytes rpc_result \<Rightarrow> 't \<Rightarrow> bool" where
  "replied W dbg written closed reply t =
     (case reply_bytes W dbg reply of None \<Rightarrow> written t = [] | Some bs \<Rightarrow> written t = bs \<and> closed t)"

lemma write_reply_replied:
  assumes "quic_send T written closed healthy" "healthy t" "written t = []"
  shows "replied W dbg written closed reply (snd (write_reply T W dbg t reply))"
proof (cases "reply_bytes W dbg reply")
  case None
  then have "snd (write_reply T W dbg t reply) = t"
    by (auto simp: reply_bytes_def write_reply_def write_error_def split: sum.splits)
  with None assms(3) show ?thesis by (simp add: replied_def)
next
  case (Some bs)
  from quic_send.write_reply_ok [OF assms(1,2) this] obtain t' where
    "write_reply T W dbg t reply = (Inr (), t')" "written t' = written t @ bs" "closed t'" .
  with Some assms(3) show ?thesis by (simp add: replied_def)
qed

text \<open>
  C8. A unary substream, whatever the peer sends after the opcode: a request over 8 MiB or a broken
  stream gets no answer and runs nothing. Any other gets exactly one frame on a finished stream: a
  malformed-frame error when no name decodes, the unknown-method error with the name the bytes
  spell when it does not resolve, and otherwise the reply of the handler, which is run once, on
  exactly the bytes behind the name; without the handler the application state is untouched. A
  handler that panics leaves the stream without an answer.
\<close>

theorem unary_stream_any_request:
  assumes L: "leb128_codec L" and R: "quic_recv R content ended"
    and S: "quic_send T written closed healthy" and t: "healthy t" "written t = []"
    and run: "handle_unary_stream_with_opcode_consumed L R T W dbg run registry env t r w = (t', w')"
  shows "if ended r = None \<and> length (content r) \<le> RPC_STREAM_READ_LIMIT then
     (case decode_method_name L (content r) of
        Inl e \<Rightarrow> w' = w \<and> replied W dbg written closed (Inl e) t' \<and> (\<exists>m. e = MalformedFrame m)
      | Inr (name, payload) \<Rightarrow>
          (\<exists>hdr. content r = hdr @ str_bytes name @ payload) \<and> rust_str name \<and>
          length name \<le> MAX_METHOD_NAME_LEN \<and>
          (case lookup registry name of
             None \<Rightarrow> w' = w \<and> replied W dbg written closed (Inl (UnknownMethod name)) t'
           | Some h \<Rightarrow>
               (case run h (build_inbound_context env (u64_saturating (env_elapsed_us env))) payload w of
                  (None, w1) \<Rightarrow> t' = t \<and> w' = w1
                | (Some reply, w1) \<Rightarrow> replied W dbg written closed reply t' \<and> w' = w1)))
   else t' = t \<and> w' = w"
proof (cases "ended r = None \<and> length (content r) \<le> RPC_STREAM_READ_LIMIT")
  case False
  then obtain e r' where "rx_to_end R r RPC_STREAM_READ_LIMIT = (Inl e, r')"
    using quic_recv.to_end_long [OF R, of RPC_STREAM_READ_LIMIT r]
      quic_recv.to_end_failed [OF R, of r _ RPC_STREAM_READ_LIMIT] by (meson not_None_eq not_le)
  with run False show ?thesis by (auto simp: handle_unary_write_reply)
next
  case True
  then obtain r' where "rx_to_end R r RPC_STREAM_READ_LIMIT = (Inr (content r), r')"
    using quic_recv.to_end_ok [OF R] by blast
  with run have eq: "(t', w') =
      (case dispatch_unary L run registry env (OPCODE_UNARY_REQUEST # content r) w of
         (None, w1) \<Rightarrow> (t, w1) | (Some reply, w1) \<Rightarrow> (snd (write_reply T W dbg t reply), w1))"
    by (simp add: handle_unary_write_reply)
  note replied = write_reply_replied [OF S t, of W dbg]
  show ?thesis
  proof (cases "decode_method_name L (content r)")
    case (Inl e)
    with leb128_codec.decode_method_name_only_malformed [OF L Inl] eq replied show ?thesis
      unfolding if_P [OF True] by (simp add: leb128_codec.dispatch_decoded [OF L])
  next
    case (Inr nr)
    then obtain name payload where d: "decode_method_name L (content r) = Inr (name, payload)" by (cases nr) auto
    from eq replied d show ?thesis
      unfolding if_P [OF True] using leb128_codec.decode_method_name_sound [OF L d]
      by (auto simp: leb128_codec.dispatch_decoded [OF L] split: option.splits prod.splits)
  qed
qed

text \<open>The request reaches its handler: name \<open>a@1/i/echo\<close>, payload \<open>[9]\<close>.\<close>

theorem unary_stream_any_request_witness:
  "case handle_unary_stream_with_opcode_consumed leb_ref buf_recv buf_send pc_wire_error_ref id
     demo_run demo_registry demo_env tx_new (rx_of (10 # str_bytes ''a@1/i/echo'' @ [9])) 0 of
     (t', w') \<Rightarrow> w' = 1 \<and> tb_closed t' \<and> tb_out t' = [OPCODE_UNARY_RESPONSE, 9]"
proof -
  let ?c = "10 # str_bytes ''a@1/i/echo'' @ [9]"
  obtain t' w' where run: "handle_unary_stream_with_opcode_consumed leb_ref buf_recv buf_send pc_wire_error_ref id
     demo_run demo_registry demo_env tx_new (rx_of ?c) 0 = (t', w')" by (metis prod.collapse)
  have t: "tx_healthy tx_new" "tb_out tx_new = []" by (simp_all add: tx_new_def tx_healthy_def)
  have "rust_str ''a@1/i/echo''" "uleb (length ''a@1/i/echo'') = [10]" by code_simp+
  moreover have "length ''a@1/i/echo'' \<le> MAX_METHOD_NAME_LEN" by (simp add: MAX_METHOD_NAME_LEN_def)
  ultimately have "decode_method_name leb_ref ?c = Inr (''a@1/i/echo'', [9])"
    using lr.decode_method_name_ok [of "''a@1/i/echo''" "[9]"] by (simp only: append_Cons append_Nil)
  moreover have "lookup demo_registry ''a@1/i/echo'' = Some 0" by code_simp
  ultimately have "replied pc_wire_error_ref id tb_out tb_closed (Inr [9]) t' \<and> w' = 1"
    using unary_stream_any_request [OF lr.leb128_codec_axioms buf_rx.quic_recv_axioms
        buf_tx.quic_send_axioms t run]
    by (simp add: RPC_STREAM_READ_LIMIT_def demo_run_def)
  with run show ?thesis by (simp add: replied_def reply_bytes_def)
qed

text \<open>
  The context of an inbound call, for every clock: durations saturate at the largest u64 instead
  of wrapping, the wall clock is non-negative and falls back to zero when it is before the epoch or
  beyond i64, the caller is never authenticated, and the two ids and the peer are those of the
  connection. The documented handshake time is the time of the request itself.
\<close>

theorem inbound_context_fields:
  "let ctx = build_inbound_context env us; peer = ctx_peer ctx; timing = ctx_timing ctx in
   pm_node_id peer = env_remote_id env \<and> pm_connection_id peer = env_connection_id env \<and>
   pm_stream_id peer = env_stream_id env \<and> pm_alpn peer = str_bytes ''nerw/rpc/1.0.0'' \<and>
   ctx_auth ctx = None \<and> ctx_session ctx = None \<and>
   unat (ti_received_at_monotonic_ns timing) = min (env_elapsed_ns env) (2 ^ 64 - 1) \<and>
   ti_received_at_ms timing =
     (case env_unix_ms env of None \<Rightarrow> 0 | Some ms \<Rightarrow> if ms < 2 ^ 63 then int ms else 0) \<and>
   0 \<le> ti_received_at_ms timing \<and> ti_received_at_ms timing < 2 ^ 63 \<and>
   pm_handshake_at_ms peer = ti_received_at_ms timing \<and>
   unat (u64_saturating (env_elapsed_us env)) = min (env_elapsed_us env) (2 ^ 64 - 1)"
proof -
  have "unat (u64_saturating n) = min n (2 ^ 64 - 1)" for n
    by (simp add: u64_saturating_def unat_of_nat)
  then show ?thesis
    by (simp add: build_inbound_context_def Let_def i64_or_zero_def ALPN_NERW_RPC_1_0_0_def
        split: option.split)
qed

end
