(* ===== verification/Server_Streaming.thy ===== *)
theory Server_Streaming
  imports Pump_Task Server_Unary
begin

section \<open>server.rs: one streaming call, and the opening byte of a substream\<close>

text \<open>
  A streaming handler is a registry value that \<open>run_s\<close> runs on the context and the request items
  its \<^verbatim>\<open>requests\<close> stream yields. It gives the items it sends through
  \<^verbatim>\<open>responses\<close> until its senders are dropped, and how its task ended: \<open>Inl\<close> is the
  display of a join error (panic or cancellation), \<open>Inr\<close> the handler's own result. The tasks of a
  call exchange data only through these two FIFO channels, so the bytes written depend on what
  the channels carry and not on the interleaving; the model runs the request pump, the handler and
  the response drain in that order. \<open>dbgf\<close> is \<^verbatim>\<open>{:?}\<close> of a frame.
\<close>

type_synonym join_result = "string + unit rpc_result"

definition arrow :: string where
  "arrow = map char_of_byte [0xE2, 0x86, 0x92]"

text \<open>One turn of the pump's loop; the flag says whether it goes on.\<close>

definition pump_request ::
  "'r recv_ops \<Rightarrow> stream_codecs \<Rightarrow> (streaming_frame \<Rightarrow> string) \<Rightarrow> (item, 'c) mpsc_ops \<Rightarrow>
   'r \<Rightarrow> 'c \<Rightarrow> bool \<times> 'r \<times> 'c" where
  "pump_request R C dbgf M recv req_tx =
     (case read_streaming_frame R C recv of
        (Inr (Some (FRequestChunk bs)), recv1) \<Rightarrow>
          (case mp_send M req_tx (Inr bs) of (sent, req_tx1) \<Rightarrow> (sent, recv1, req_tx1))
      | (Inr (Some FRequestEnd), recv1) \<Rightarrow> (False, recv1, req_tx)
      | (Inr None, recv1) \<Rightarrow> (False, recv1, req_tx)
      | (Inr (Some (FError err)), recv1) \<Rightarrow>
          (case mp_send M req_tx (Inl (Handler (se_message err))) of
             (_, req_tx1) \<Rightarrow> (\<not> se_terminal err, recv1, req_tx1))
      | (Inr (Some other), recv1) \<Rightarrow>
          (case mp_send M req_tx (Inl (MalformedFrame
              (''unexpected client'' @ arrow @ ''server frame: '' @ dbgf other))) of
             (_, req_tx1) \<Rightarrow> (False, recv1, req_tx1))
      | (Inl e, recv1) \<Rightarrow>
          (case mp_send M req_tx (Inl e) of (_, req_tx1) \<Rightarrow> (False, recv1, req_tx1)))"

partial_function (option) pump_inbound_requests ::
  "'r recv_ops \<Rightarrow> stream_codecs \<Rightarrow> (streaming_frame \<Rightarrow> string) \<Rightarrow> (item, 'c) mpsc_ops \<Rightarrow>
   'r \<Rightarrow> 'c \<Rightarrow> ('r \<times> 'c) option" where
  "pump_inbound_requests R C dbgf M recv req_tx =
     (case pump_request R C dbgf M recv req_tx of
        (go_on, recv1, req_tx1) \<Rightarrow>
          if go_on then pump_inbound_requests R C dbgf M recv1 req_tx1 else Some (recv1, req_tx1))"

fun drain_handler_responses ::
  "leb128 \<Rightarrow> 't send_ops \<Rightarrow> stream_codecs \<Rightarrow> (string \<Rightarrow> string) \<Rightarrow> 't \<Rightarrow> item list \<Rightarrow> bool \<times> 't" where
  "drain_handler_responses L T C dbg send [] = (False, send)"
| "drain_handler_responses L T C dbg send (Inr chunk # rest) =
     (case write_response_chunk L T send chunk of
        (Inl e, send1) \<Rightarrow> (True, send1)
      | (Inr _, send1) \<Rightarrow> drain_handler_responses L T C dbg send1 rest)"
| "drain_handler_responses L T C dbg send (Inl err # rest) =
     (let body = handler_err_to_terminal dbg err
      in case write_streaming_error L T C send body of (_, send1) \<Rightarrow> (True, send1))"

definition finalise_streaming ::
  "leb128 \<Rightarrow> 't send_ops \<Rightarrow> stream_codecs \<Rightarrow> (string \<Rightarrow> string) \<Rightarrow> 't \<Rightarrow> join_result \<Rightarrow> 't" where
  "finalise_streaming L T C dbg send handler_result =
     (case handler_result of
        Inr (Inr _) \<Rightarrow> snd (write_response_end T send)
      | Inr (Inl handler_err) \<Rightarrow>
          snd (write_streaming_error L T C send (handler_err_to_terminal dbg handler_err))
      | Inl join_err \<Rightarrow>
          snd (write_streaming_error L T C send
            \<lparr>se_message = ''streaming handler join failure: '' @ join_err, se_terminal = True\<rparr>))"

definition streaming_negotiate_open ::
  "leb128 \<Rightarrow> 'r recv_ops \<Rightarrow> 't send_ops \<Rightarrow> stream_codecs \<Rightarrow> ('u, 's) method_registry \<Rightarrow> call_env \<Rightarrow>
   't \<Rightarrow> 'r \<Rightarrow> ('s \<times> rpc_context) option \<times> 't \<times> 'r" where
  "streaming_negotiate_open L R T C registry env send recv =
     (case read_streaming_frame_after_opcode R C recv OPCODE_STREAMING_OPEN_REQUEST of
        (Inr (FOpenRequest open_req), recv1) \<Rightarrow>
          (let method_name = oreq_method_name open_req;
               request_id = oreq_request_id open_req
           in case lookup_streaming registry method_name of
                None \<Rightarrow>
                  (let ack = \<lparr>oresp_status = StatusErr (''unknown streaming method: '' @ method_name),
                              oresp_request_id = request_id\<rparr>
                   in case write_open_response L T C send ack of
                        (Inl e, send1) \<Rightarrow> (None, send1, recv1)
                      | (Inr _, send1) \<Rightarrow>
                          (case tx_finish T send1 of (_, send2) \<Rightarrow> (None, send2, recv1)))
              | Some handler \<Rightarrow>
                  (let ack = \<lparr>oresp_status = StatusOk, oresp_request_id = request_id\<rparr>
                   in case write_open_response L T C send ack of
                        (Inl e, send1) \<Rightarrow> (None, send1, recv1)
                      | (Inr _, send1) \<Rightarrow>
                          (let frame_decode_duration_us = u64_saturating (env_elapsed_us env);
                               ctx = build_inbound_context env frame_decode_duration_us
                           in (Some (handler, ctx), send1, recv1))))
      | (_, recv1) \<Rightarrow> (None, send, recv1))"

definition handle_streaming_substream ::
  "leb128 \<Rightarrow> 'r recv_ops \<Rightarrow> 't send_ops \<Rightarrow> stream_codecs \<Rightarrow> (item, 'c) mpsc_ops \<Rightarrow>
   (string \<Rightarrow> string) \<Rightarrow> (streaming_frame \<Rightarrow> string) \<Rightarrow>
   ('s \<Rightarrow> rpc_context \<Rightarrow> item list \<Rightarrow> 'w \<Rightarrow> (item list \<times> join_result) \<times> 'w) \<Rightarrow>
   ('u, 's) method_registry \<Rightarrow> call_env \<Rightarrow> 't \<Rightarrow> 'r \<Rightarrow> 'w \<Rightarrow> ('t \<times> 'w) option" where
  "handle_streaming_substream L R T C M dbg dbgf run_s registry env send recv w =
     (case streaming_negotiate_open L R T C registry env send recv of
        (None, send1, _) \<Rightarrow> Some (send1, w)
      | (Some (handler, ctx), send1, recv1) \<Rightarrow>
          (case pump_inbound_requests R C dbgf M recv1 (mp_new M) of
             None \<Rightarrow> None
           | Some (_, req) \<Rightarrow>
               (case run_s handler ctx (mp_items M req) w of
                  ((responses, handler_result), w1) \<Rightarrow>
                    (case drain_handler_responses L T C dbg send1 responses of
                       (wrote_terminal, send2) \<Rightarrow>
                         (let send3 = (if wrote_terminal then send2
                                       else finalise_streaming L T C dbg send2 handler_result)
                          in case tx_finish T send3 of (_, send4) \<Rightarrow> Some (send4, w1))))))"

definition handle_inbound_substream ::
  "leb128 \<Rightarrow> 'r recv_ops \<Rightarrow> 't send_ops \<Rightarrow> stream_codecs \<Rightarrow> wire_error postcard \<Rightarrow>
   (item, 'c) mpsc_ops \<Rightarrow> (string \<Rightarrow> string) \<Rightarrow> (streaming_frame \<Rightarrow> string) \<Rightarrow>
   ('u \<Rightarrow> rpc_context \<Rightarrow> bytes \<Rightarrow> 'w \<Rightarrow> bytes rpc_result option \<times> 'w) \<Rightarrow>
   ('s \<Rightarrow> rpc_context \<Rightarrow> item list \<Rightarrow> 'w \<Rightarrow> (item list \<times> join_result) \<times> 'w) \<Rightarrow>
   ('u, 's) method_registry \<Rightarrow> call_env \<Rightarrow> 't \<Rightarrow> 'r \<Rightarrow> 'w \<Rightarrow> ('t \<times> 'w) option" where
  "handle_inbound_substream L R T C W M dbg dbgf run run_s registry env send recv w =
     (case rx_exact R recv 1 of
        (Inl e, _) \<Rightarrow> Some (send, w)
      | (Inr opcode_buf, recv1) \<Rightarrow>
          (let opcode = hd opcode_buf in
           if opcode = OPCODE_STREAMING_OPEN_REQUEST then
             handle_streaming_substream L R T C M dbg dbgf run_s registry env send recv1 w
           else if opcode \<noteq> OPCODE_UNARY_REQUEST then
             (let err = MalformedFrame (''expected unary-request (0x00) or streaming-open (0x10), got 0x'' @
                  hex02 opcode)
              in Some (snd (write_error T W dbg send err), w))
           else
             Some (handle_unary_stream_with_opcode_consumed L R T W dbg run registry env send recv1 w)))"

definition handle_unary_stream_public ::
  "leb128 \<Rightarrow> 'r recv_ops \<Rightarrow> 't send_ops \<Rightarrow> stream_codecs \<Rightarrow> wire_error postcard \<Rightarrow>
   (item, 'c) mpsc_ops \<Rightarrow> (string \<Rightarrow> string) \<Rightarrow> (streaming_frame \<Rightarrow> string) \<Rightarrow>
   ('u \<Rightarrow> rpc_context \<Rightarrow> bytes \<Rightarrow> 'w \<Rightarrow> bytes rpc_result option \<times> 'w) \<Rightarrow>
   ('s \<Rightarrow> rpc_context \<Rightarrow> item list \<Rightarrow> 'w \<Rightarrow> (item list \<times> join_result) \<times> 'w) \<Rightarrow>
   ('u, 's) method_registry \<Rightarrow> call_env \<Rightarrow> 't \<Rightarrow> 'r \<Rightarrow> 'w \<Rightarrow> ('t \<times> 'w) option" where
  "handle_unary_stream_public L R T C W M dbg dbgf run run_s registry env send recv w =
     handle_inbound_substream L R T C W M dbg dbgf run run_s registry env send recv w"

text \<open>
  The public entry is documented as the handler of one unary stream; on a streaming open it runs the
  streaming path.
\<close>

lemma public_entry_serves_streaming:
  assumes "quic_recv R content ended" "content r = OPCODE_STREAMING_OPEN_REQUEST # bs"
  obtains r' where "content r' = bs" "ended r' = ended r"
    "handle_unary_stream_public L R T C W M dbg dbgf run run_s registry env t r w =
      handle_streaming_substream L R T C M dbg dbgf run_s registry env t r' w"
proof -
  from quic_recv.exact_one [OF assms] obtain r' where
    "rx_exact R r (Suc 0) = (Inr [OPCODE_STREAMING_OPEN_REQUEST], r')" "content r' = bs" "ended r' = ended r" .
  then show thesis
    by (intro that [of r']) (simp_all add: handle_unary_stream_public_def handle_inbound_substream_def)
qed

subsection \<open>The request pump as a frame pump\<close>

fun request_reaction :: "(streaming_frame \<Rightarrow> string) \<Rightarrow> streaming_frame \<Rightarrow> item option \<times> bool" where
  "request_reaction dbgf (FRequestChunk bs) = (Some (Inr bs), True)"
| "request_reaction dbgf FRequestEnd = (None, False)"
| "request_reaction dbgf (FError err) = (Some (Inl (Handler (se_message err))), \<not> se_terminal err)"
| "request_reaction dbgf other = (Some (Inl (MalformedFrame
     (''unexpected client'' @ arrow @ ''server frame: '' @ dbgf other))), False)"

interpretation request_pump:
  frame_pump R C M "request_reaction dbgf" "pump_request R C dbgf M" "pump_inbound_requests R C dbgf M"
  for R :: "'r recv_ops" and C :: stream_codecs and M :: "(item, 'c) mpsc_ops"
    and dbgf :: "streaming_frame \<Rightarrow> string"
proof unfold_locales
  fix r c
  show "pump_request R C dbgf M r c = pump_turn R C M (request_reaction dbgf) r c"
    by (auto simp: pump_request_def pump_turn_def split: sum.splits option.splits prod.splits
        streaming_frame.splits)
  show "pump_inbound_requests R C dbgf M r c =
    (case pump_request R C dbgf M r c of (go_on, r1, c1) \<Rightarrow>
      if go_on then pump_inbound_requests R C dbgf M r1 c1 else Some (r1, c1))"
    by (rule pump_inbound_requests.simps)
qed

lemma request_items_chunks:
  "pump_items (request_reaction dbgf) (map FRequestChunk bs @ FRequestEnd # fs) = map Inr bs"
  by (induction bs) simp_all

subsection \<open>The response side as frames\<close>

text \<open>
  The frames that follow the open-ack: the chunks up to the first error the handler sends, then
  one closing frame.
\<close>

definition join_frame :: "(string \<Rightarrow> string) \<Rightarrow> join_result \<Rightarrow> streaming_frame" where
  "join_frame dbg j =
     (case j of
        Inr (Inr _) \<Rightarrow> FResponseEnd
      | Inr (Inl e) \<Rightarrow> FError (handler_err_to_terminal dbg e)
      | Inl e \<Rightarrow> FError \<lparr>se_message = ''streaming handler join failure: '' @ e, se_terminal = True\<rparr>)"

fun response_frames :: "(string \<Rightarrow> string) \<Rightarrow> item list \<Rightarrow> join_result \<Rightarrow> streaming_frame list" where
  "response_frames dbg [] j = [join_frame dbg j]"
| "response_frames dbg (Inr chunk # rest) j = FResponseChunk chunk # response_frames dbg rest j"
| "response_frames dbg (Inl e # rest) j = [FError (handler_err_to_terminal dbg e)]"

definition response_tail :: "leb128 \<Rightarrow> 't send_ops \<Rightarrow> stream_codecs \<Rightarrow> (string \<Rightarrow> string) \<Rightarrow> 't \<Rightarrow>
  item list \<Rightarrow> join_result \<Rightarrow> 't" where
  "response_tail L T C dbg t items j =
     (case drain_handler_responses L T C dbg t items of
        (wrote_terminal, t') \<Rightarrow> if wrote_terminal then t' else finalise_streaming L T C dbg t' j)"

lemma finalise_write_frame:
  "finalise_streaming L T C dbg t j = snd (write_frame L T C t (join_frame dbg j))"
  by (simp add: finalise_streaming_def join_frame_def split: sum.split)

lemma response_tail_simps:
  "response_tail L T C dbg t [] j = snd (write_frame L T C t (join_frame dbg j))"
  "response_tail L T C dbg t (Inr chunk # rest) j =
     (case write_frame L T C t (FResponseChunk chunk) of
        (Inl e, t') \<Rightarrow> t' | (Inr _, t') \<Rightarrow> response_tail L T C dbg t' rest j)"
  "response_tail L T C dbg t (Inl e # rest) j =
     snd (write_frame L T C t (FError (handler_err_to_terminal dbg e)))"
  by (auto simp: response_tail_def finalise_write_frame split: sum.splits prod.splits)

text \<open>On every stream, healthy or failing: the frames are written in order until one fails.\<close>

lemma response_tail_eq:
  "response_tail L T C dbg t items j = snd (write_frames L T C (response_frames dbg items j) t)"
proof (induction items arbitrary: t)
  case Nil
  then show ?case by (simp add: response_tail_simps split: sum.split prod.split)
next
  case (Cons x rest)
  show ?case
    by (cases x) (auto simp: response_tail_simps Cons.IH split: sum.splits prod.splits)
qed

text \<open>Chunks, then exactly one frame that closes the stream.\<close>

lemma response_frames_shape:
  "\<exists>chunks close. response_frames dbg items j = map FResponseChunk chunks @ [close] \<and>
     (items = map Inr chunks \<and> close = join_frame dbg j \<or>
      (\<exists>e rest. items = map Inr chunks @ Inl e # rest \<and> close = FError (handler_err_to_terminal dbg e)))"
proof (induction dbg items j rule: response_frames.induct)
  case (1 dbg j)
  show ?case by (intro exI [of _ "[]"] exI [of _ "join_frame dbg j"]) simp
next
  case (2 dbg chunk rest j)
  then obtain chunks close where "response_frames dbg rest j = map FResponseChunk chunks @ [close]"
    "rest = map Inr chunks \<and> close = join_frame dbg j \<or>
     (\<exists>e rest'. rest = map Inr chunks @ Inl e # rest' \<and> close = FError (handler_err_to_terminal dbg e))" by blast
  then show ?case by (intro exI [of _ "chunk # chunks"] exI [of _ close]) auto
next
  case (3 dbg e rest j)
  show ?case by (intro exI [of _ "[]"] exI [of _ "FError (handler_err_to_terminal dbg e)"]) simp
qed

subsection \<open>The open handshake\<close>

definition open_ack :: "('u, 's) method_registry \<Rightarrow> streaming_open_request \<Rightarrow> streaming_frame" where
  "open_ack registry req = FOpenResponse
     \<lparr>oresp_status = (case lookup_streaming registry (oreq_method_name req) of
        Some _ \<Rightarrow> StatusOk
      | None \<Rightarrow> StatusErr (''unknown streaming method: '' @ oreq_method_name req)),
      oresp_request_id = oreq_request_id req\<rparr>"

abbreviation env_context :: "call_env \<Rightarrow> rpc_context" where
  "env_context env \<equiv> build_inbound_context env (u64_saturating (env_elapsed_us env))"

text \<open>What the negotiation does once the open-request has been read.\<close>

lemma negotiate_request:
  assumes "read_streaming_frame_after_opcode R C recv OPCODE_STREAMING_OPEN_REQUEST =
    (Inr (FOpenRequest req), recv1)"
  shows "streaming_negotiate_open L R T C registry env send recv =
    (case write_frame L T C send (open_ack registry req) of
       (Inl e, send1) \<Rightarrow> (None, send1, recv1)
     | (Inr _, send1) \<Rightarrow>
         (case lookup_streaming registry (oreq_method_name req) of
            None \<Rightarrow> (None, snd (tx_finish T send1), recv1)
          | Some h \<Rightarrow> (Some (h, env_context env), send1, recv1)))"
  using assms
  by (simp add: streaming_negotiate_open_def open_ack_def Let_def split: option.split sum.split prod.split)

lemma negotiate_nothing:
  assumes "read_streaming_frame_after_opcode R C recv OPCODE_STREAMING_OPEN_REQUEST = (res, recv1)"
    and "\<forall>req. res \<noteq> Inr (FOpenRequest req)"
  shows "streaming_negotiate_open L R T C registry env send recv = (None, send, recv1)"
  using assms
  by (auto simp: streaming_negotiate_open_def split: sum.split streaming_frame.split)

lemma substream_refused:
  assumes "streaming_negotiate_open L R T C registry env send recv = (None, send1, recv1)"
  shows "handle_streaming_substream L R T C M dbg dbgf run_s registry env send recv w = Some (send1, w)"
  using assms by (simp add: handle_streaming_substream_def)

lemma substream_accepted:
  assumes "streaming_negotiate_open L R T C registry env send recv = (Some (h, ctx), send1, recv1)"
    and "pump_inbound_requests R C dbgf M recv1 (mp_new M) = Some (recv2, req)"
    and "run_s h ctx (mp_items M req) w = ((responses, j), w1)"
  shows "handle_streaming_substream L R T C M dbg dbgf run_s registry env send recv w =
    Some (snd (tx_finish T (snd (write_frames L T C (response_frames dbg responses j) send1))), w1)"
  using assms
  by (simp add: handle_streaming_substream_def response_tail_eq [symmetric] response_tail_def
      split: prod.split)

lemma streaming_substream_returns:
  assumes R: "quic_recv R content ended"
  shows "\<exists>t' w'. handle_streaming_substream L R T C M dbg dbgf run_s registry env t r w = Some (t', w')"
proof (cases "streaming_negotiate_open L R T C registry env t r")
  case (fields acc t1 r1)
  obtain r2 c2 where "pump_inbound_requests R C dbgf M r1 (mp_new M) = Some (r2, c2)"
    using request_pump.pump_returns [OF R, where C = C and dbgf = dbgf and M = M and r = r1]
    by blast
  with fields show ?thesis
    by (cases acc) (auto simp: handle_streaming_substream_def split: prod.split)
qed

lemma substream_returns:
  assumes R: "quic_recv R content ended"
  shows "\<exists>t' w'. handle_inbound_substream L R T C W M dbg dbgf run run_s registry env t r w = Some (t', w')"
  by (auto simp: handle_inbound_substream_def Let_def streaming_substream_returns [OF R]
      split: sum.split prod.split)

text \<open>A well-formed open-request, read after the opening byte, and the ack it gets.\<close>

lemma open_request_read:
  assumes R: "quic_recv R content ended" and C: "codecs_ok C" and req: "frame_ok C (FOpenRequest req)"
    and r: "content r = the (frame_bytes C (FOpenRequest req)) @ rest"
  obtains r1 r2 where "rx_exact R r (Suc 0) = (Inr [OPCODE_STREAMING_OPEN_REQUEST], r1)"
    "read_streaming_frame_after_opcode R C r1 OPCODE_STREAMING_OPEN_REQUEST = (Inr (FOpenRequest req), r2)"
    "content r2 = rest" "ended r2 = ended r"
proof -
  from req obtain bs where bs: "frame_bytes C (FOpenRequest req) = Some bs"
    "payload_within MAX_STREAMING_PAYLOAD_LEN C (FOpenRequest req)" by (rule frame_okE)
  then obtain p where p: "frame_payload C (FOpenRequest req) = Inr p" "bs = frame_raw (FOpenRequest req) p"
    by (auto simp: frame_bytes_Some)
  have "content r = OPCODE_STREAMING_OPEN_REQUEST # tl (frame_raw (FOpenRequest req) p) @ rest"
    using r(1) bs(1) p(2) by (simp add: frame_raw_def)
  from quic_recv.exact_one [OF R this] obtain r1 where
    r1: "rx_exact R r (Suc 0) = (Inr [OPCODE_STREAMING_OPEN_REQUEST], r1)"
    "content r1 = tl (frame_raw (FOpenRequest req) p) @ rest" "ended r1 = ended r" .
  from quic_recv.after_opcode_ok [OF R C p(1) bs(2) r1(2)] obtain r2 where
    "read_streaming_frame_after_opcode R C r1 OPCODE_STREAMING_OPEN_REQUEST = (Inr (FOpenRequest req), r2)"
    "content r2 = rest" "ended r2 = ended r1" by auto
  with r1 show thesis by (intro that [of r1 r2]) simp_all
qed

lemma open_ack_written:
  assumes "leb128_codec L" "quic_send T written closed healthy" "healthy t" "frame_ok C f"
  obtains t1 where "write_frame L T C t f = (Inr (), t1)" "healthy t1"
    "written t1 = written t @ the (frame_bytes C f)"
proof -
  from assms(4) obtain bs where "frame_bytes C f = Some bs" "payload_within (2 ^ 64 - 1) C f"
    by (rule frame_okE)
  with quic_send.write_frame_ok [OF assms(2,1,3) this] that show thesis by auto
qed

text \<open>A call of an unknown method.\<close>

lemma streaming_call_refused:
  assumes L: "leb128_codec L" and R: "quic_recv R content ended" and C: "codecs_ok C"
    and S: "quic_send T written closed healthy" and t: "healthy t" "written t = []"
    and req: "frame_ok C (FOpenRequest req)" and r: "content r = the (frame_bytes C (FOpenRequest req)) @ rest"
    and none: "lookup_streaming registry (oreq_method_name req) = None"
    and ack: "frame_ok C (open_ack registry req)"
  shows "\<exists>t'. handle_inbound_substream L R T C W M dbg dbgf run run_s registry env t r w = Some (t', w) \<and>
    written t' = the (frame_bytes C (open_ack registry req))"
proof -
  from open_request_read [OF R C req r] obtain r1 r2 where
    r1: "rx_exact R r (Suc 0) = (Inr [OPCODE_STREAMING_OPEN_REQUEST], r1)" and
    r2: "read_streaming_frame_after_opcode R C r1 OPCODE_STREAMING_OPEN_REQUEST = (Inr (FOpenRequest req), r2)" .
  from open_ack_written [OF L S t(1) ack] t(2) obtain t1 where
    t1: "write_frame L T C t (open_ack registry req) = (Inr (), t1)"
    "written t1 = the (frame_bytes C (open_ack registry req))" by auto
  have "streaming_negotiate_open L R T C registry env t r1 = (None, snd (tx_finish T t1), r2)"
    using negotiate_request [OF r2, of L T registry env t] t1(1) none by simp
  from substream_refused [where run_s = run_s and M = M and dbg = dbg and dbgf = dbgf and w = w, OF this]
    r1 t1(2) quic_send.finish_written [OF S surjective_pairing, of t1] show ?thesis
    by (simp add: handle_inbound_substream_def)
qed

text \<open>A well-formed call, first up to the ack, then from the opening byte to the closed stream.\<close>

lemma open_accepted:
  assumes L: "leb128_codec L" and R: "quic_recv R content ended" and C: "codecs_ok C"
    and S: "quic_send T written closed healthy" and t: "healthy t" "written t = []"
    and req: "frame_ok C (FOpenRequest req)"
    and r: "content r = frames_bytes C (FOpenRequest req # fs)" "ended r = None"
    and h: "lookup_streaming registry (oreq_method_name req) = Some h"
    and ack: "frame_ok C (open_ack registry req)"
  obtains r1 r2 t1 where "rx_exact R r (Suc 0) = (Inr [OPCODE_STREAMING_OPEN_REQUEST], r1)"
    "streaming_negotiate_open L R T C registry env t r1 = (Some (h, env_context env), t1, r2)"
    "content r2 = frames_bytes C fs" "ended r2 = None"
    "healthy t1" "written t1 = the (frame_bytes C (open_ack registry req))"
proof -
  from r(1) have "content r = the (frame_bytes C (FOpenRequest req)) @ frames_bytes C fs" by simp
  from open_request_read [OF R C req this] r(2) obtain r1 r2 where
    r1: "rx_exact R r (Suc 0) = (Inr [OPCODE_STREAMING_OPEN_REQUEST], r1)" and
    r2: "read_streaming_frame_after_opcode R C r1 OPCODE_STREAMING_OPEN_REQUEST = (Inr (FOpenRequest req), r2)"
      "content r2 = frames_bytes C fs" "ended r2 = None" by metis
  from open_ack_written [OF L S t(1) ack] t(2) obtain t1 where
    t1: "write_frame L T C t (open_ack registry req) = (Inr (), t1)" "healthy t1"
    "written t1 = the (frame_bytes C (open_ack registry req))" by auto
  have neg: "streaming_negotiate_open L R T C registry env t r1 = (Some (h, env_context env), t1, r2)"
    using negotiate_request [OF r2(1), of L T registry env t] t1(1) h by simp
  from r1 neg r2(2,3) t1(2,3) show thesis by (rule that)
qed

lemma streaming_call_served:
  assumes L: "leb128_codec L" and R: "quic_recv R content ended" and C: "codecs_ok C"
    and S: "quic_send T written closed healthy" and M: "mpsc M live"
    and t: "healthy t" "written t = []"
    and req: "frame_ok C (FOpenRequest req)" "list_all (frame_ok C) fs"
    and r: "content r = frames_bytes C (FOpenRequest req # fs)" "ended r = None"
    and h: "lookup_streaming registry (oreq_method_name req) = Some h"
    and run: "run_s h (env_context env) (pump_items (request_reaction dbgf) fs) w = ((responses, j), w1)"
    and out: "frame_ok C (open_ack registry req)" "list_all (frame_ok C) (response_frames dbg responses j)"
  shows "\<exists>t'. handle_inbound_substream L R T C W M dbg dbgf run run_s registry env t r w = Some (t', w1) \<and>
    written t' = frames_bytes C (open_ack registry req # response_frames dbg responses j)"
proof -
  from open_accepted [OF L R C S t req(1) r h out(1)] obtain r1 r2 t1 where
    r1: "rx_exact R r (Suc 0) = (Inr [OPCODE_STREAMING_OPEN_REQUEST], r1)"
    and neg: "streaming_negotiate_open L R T C registry env t r1 = (Some (h, env_context env), t1, r2)"
    and r2: "content r2 = frames_bytes C fs" "ended r2 = None"
    and t1: "healthy t1" "written t1 = the (frame_bytes C (open_ack registry req))" .
  from mpsc.new_items [OF M] mpsc.new_live [OF M]
    request_pump.pump_frames [OF R M C req(2) r2, where c = "mp_new M" and dbgf = dbgf]
  obtain r3 c where pump: "pump_inbound_requests R C dbgf M r2 (mp_new M) = Some (r3, c)"
    "mp_items M c = pump_items (request_reaction dbgf) fs" by auto
  have fs': "\<forall>f \<in> set (response_frames dbg responses j). frame_ok C f"
    using out(2) by (simp add: list_all_iff)
  from quic_send.write_frames_ok [OF S L t1(1) fs'] obtain t2 where
    t2: "write_frames L T C (response_frames dbg responses j) t1 = (Inr (), t2)"
    "written t2 = written t1 @ frames_bytes C (response_frames dbg responses j)" by auto
  have "handle_streaming_substream L R T C M dbg dbgf run_s registry env t r1 w =
    Some (snd (tx_finish T t2), w1)"
    using substream_accepted [where dbg = dbg and run_s = run_s, OF neg pump(1)] pump(2) run t2(1) by simp
  moreover have "written (snd (tx_finish T t2)) = written t2"
    by (rule quic_send.finish_written [OF S surjective_pairing])
  ultimately show ?thesis
    using r1 t2(2) t1(2) by (simp add: handle_inbound_substream_def)
qed

text \<open>The negotiation of an open-request on a stream that takes its writes.\<close>

lemma negotiate_healthy:
  assumes L: "leb128_codec L" and S: "quic_send T written closed healthy" and t: "healthy t"
    and rd: "read_streaming_frame_after_opcode R C r OPCODE_STREAMING_OPEN_REQUEST = (Inr (FOpenRequest req), r1)"
  obtains (unacked) "\<not> writable C (open_ack registry req)"
      "streaming_negotiate_open L R T C registry env t r = (None, t, r1)"
    | (unknown) t1 where "writable C (open_ack registry req)" "lookup_streaming registry (oreq_method_name req) = None"
      "streaming_negotiate_open L R T C registry env t r = (None, t1, r1)"
      "written t1 = written t @ the (frame_bytes C (open_ack registry req))"
    | (accepted) h t1 where "writable C (open_ack registry req)"
      "lookup_streaming registry (oreq_method_name req) = Some h"
      "streaming_negotiate_open L R T C registry env t r = (Some (h, env_context env), t1, r1)" "healthy t1"
      "written t1 = written t @ the (frame_bytes C (open_ack registry req))"
proof (rule quic_send.write_frame_healthy [OF S L t, of C "open_ack registry req"])
  note neg = negotiate_request [OF rd, of L T registry env t]
  fix t1 assume ack: "writable C (open_ack registry req)"
    and t1: "write_frame L T C t (open_ack registry req) = (Inr (), t1)" "healthy t1"
      "written t1 = written t @ the (frame_bytes C (open_ack registry req))"
  show thesis
  proof (cases "lookup_streaming registry (oreq_method_name req)")
    case None
    with neg t1 quic_send.finish_written [OF S surjective_pairing, of t1] show thesis
      by (intro unknown [of "snd (tx_finish T t1)"] ack) simp_all
  next
    case (Some h)
    with neg t1 show thesis by (intro accepted [of h t1] ack) simp_all
  qed
next
  fix e assume "\<not> writable C (open_ack registry req)" "write_frame L T C t (open_ack registry req) = (Inl e, t)"
  with negotiate_request [OF rd, of L T registry env t] show thesis by (intro unacked) simp_all
qed

text \<open>
  The reply of an accepted call on a stream that takes its writes: the handler has run on the items of the
  stream, and what it sent and returned is written behind the ack, up to a body that does not serialize.
\<close>

lemma accepted_reply:
  assumes L: "leb128_codec L" and R: "quic_recv R content ended" and M: "mpsc M live"
    and S: "quic_send T written closed healthy"
    and neg: "streaming_negotiate_open L R T C registry env t r = (Some (h, ctx), t1, r1)" and t1: "healthy t1"
    and run: "handle_streaming_substream L R T C M dbg dbgf run_s registry env t r w = Some (t', w')"
  obtains items responses j where "stream_items R C (request_reaction dbgf) r1 = Some items"
    "run_s h ctx items w = ((responses, j), w')"
    "written t' = written t1 @ frames_bytes C (takeWhile (writable C) (response_frames dbg responses j))"
proof -
  from request_pump.pump_delivers [OF R M mpsc.new_live [OF M], where r = r1 and C = C and dbgf = dbgf]
  obtain items r2 c2 where p: "pump_inbound_requests R C dbgf M r1 (mp_new M) = Some (r2, c2)" "mp_items M c2 = items"
    and items: "stream_items R C (request_reaction dbgf) r1 = Some items"
    by (auto simp: mpsc.new_items [OF M])
  obtain responses j w1 where h: "run_s h ctx (mp_items M c2) w = ((responses, j), w1)"
    by (metis prod.exhaust)
  from substream_accepted [where run_s = run_s, OF neg p(1) h, of dbg] run
  have t': "t' = snd (tx_finish T (snd (write_frames L T C (response_frames dbg responses j) t1)))"
    "w' = w1" by simp_all
  from quic_send.write_frames_healthy [OF S L t1, of C "response_frames dbg responses j"]
    quic_send.finish_written [OF S surjective_pairing] t'(1)
  have "written t' = written t1 @ frames_bytes C (takeWhile (writable C) (response_frames dbg responses j))" by simp
  with items h p(2) t'(2) show thesis by (intro that [of items responses j]) simp_all
qed

subsection \<open>Open requests for the demonstration registry\<close>

definition demo_open :: streaming_open_request where
  "demo_open = \<lparr>oreq_method_name = ''a@1/i/stream'', oreq_request_id = 7\<rparr>"

definition demo_missing :: streaming_open_request where
  "demo_missing = \<lparr>oreq_method_name = ''a@1/i/echo'', oreq_request_id = 7\<rparr>"

lemma frame_okI:
  "frame_payload C f = Inr (Some b) \<Longrightarrow> length b \<le> 100 \<Longrightarrow> frame_ok C f"
  by (simp add: frame_ok_def frame_bytes_def payload_within_def MAX_STREAMING_PAYLOAD_LEN_def)

lemma demo_frames_ok:
  "frame_ok ref_codecs (FOpenRequest demo_open)" "frame_ok ref_codecs (FOpenRequest demo_missing)"
  "frame_ok ref_codecs (open_ack demo_registry demo_open)"
  "frame_ok ref_codecs (open_ack demo_registry demo_missing)"
proof -
  have "frame_payload ref_codecs (FOpenRequest demo_open) =
    Inr (Some [12, 97, 64, 49, 47, 105, 47, 115, 116, 114, 101, 97, 109, 7])" by code_simp
  then show "frame_ok ref_codecs (FOpenRequest demo_open)" by (rule frame_okI) simp
  have "frame_payload ref_codecs (FOpenRequest demo_missing) =
    Inr (Some [10, 97, 64, 49, 47, 105, 47, 101, 99, 104, 111, 7])" by code_simp
  then show "frame_ok ref_codecs (FOpenRequest demo_missing)" by (rule frame_okI) simp
  have "frame_payload ref_codecs (open_ack demo_registry demo_open) = Inr (Some [0, 7])" by code_simp
  then show "frame_ok ref_codecs (open_ack demo_registry demo_open)" by (rule frame_okI) simp
  have "frame_payload ref_codecs (open_ack demo_registry demo_missing) =
    Inr (Some ([1, 36] @ str_bytes ''unknown streaming method: a@1/i/echo'' @ [7]))" by code_simp
  then show "frame_ok ref_codecs (open_ack demo_registry demo_missing)" by (rule frame_okI) simp
qed

lemma demo_tx: "tx_healthy tx_new" "tb_out tx_new = []" "leb128_codec leb_ref"
  by (simp_all add: tx_new_def tx_healthy_def lr.leb128_codec_axioms)

subsection \<open>Properties\<close>

text \<open>
  C17. Both request pumps and with them a whole streaming call end on every input a peer can send:
  the substream handler returns for every stream content, every handler and every send stream.
\<close>

theorem inbound_substream_returns:
  assumes R: "quic_recv R content ended"
  shows "\<exists>t' w'. handle_inbound_substream L R T C W M dbg dbgf run run_s registry env t r w = Some (t', w')"
  by (rule substream_returns [OF R])

theorem inbound_substream_returns_witness:
  "\<exists>t' w'. handle_inbound_substream leb_ref buf_recv buf_send ref_codecs pc_wire_error_ref list_chan id
     (\<lambda>_. ''frame'') demo_run (\<lambda>h ctx items n. ((items, Inr (Inr ())), Suc n)) demo_registry demo_env
     tx_new (rx_of [0x10, 0xFF, 0xFF]) 0 = Some (t', w')"
  by (rule inbound_substream_returns [OF buf_rx.quic_recv_axioms])

text \<open>
  C34. The opening byte decides: an empty substream gets no answer, and any byte but the unary and the
  streaming one is answered by exactly one malformed-frame error. No handler runs in either case.
\<close>

theorem inbound_substream_bad_opcode:
  assumes R: "quic_recv R content ended" and S: "quic_send T written closed healthy"
    and t: "healthy t" "written t = []"
    and c: "case content r of [] \<Rightarrow> True | b # _ \<Rightarrow> b \<noteq> 0x00 \<and> b \<noteq> 0x10"
  shows "\<exists>t'. handle_inbound_substream L R T C W M dbg dbgf run run_s registry env t r w = Some (t', w) \<and>
     (case content r of
        [] \<Rightarrow> t' = t
      | b # _ \<Rightarrow> replied W dbg written closed (Inl (MalformedFrame
          (''expected unary-request (0x00) or streaming-open (0x10), got 0x'' @ hex02 b))) t')"
proof (cases "content r")
  case Nil
  then have "length (content r) < Suc 0" by simp
  from quic_recv.exact_short [OF R this] obtain e r' where "rx_exact R r (Suc 0) = (Inl e, r')" by blast
  with Nil show ?thesis by (simp add: handle_inbound_substream_def)
next
  case (Cons b bs)
  from quic_recv.exact_one [OF R this] obtain r' where "rx_exact R r (Suc 0) = (Inr [b], r')" .
  moreover have "replied W dbg written closed reply (snd (write_reply T W dbg t reply))" for reply
    by (rule write_reply_replied [OF S t])
  from this [of "Inl (MalformedFrame
      (''expected unary-request (0x00) or streaming-open (0x10), got 0x'' @ hex02 b))"]
  have "replied W dbg written closed (Inl (MalformedFrame
      (''expected unary-request (0x00) or streaming-open (0x10), got 0x'' @ hex02 b)))
      (snd (write_error T W dbg t (MalformedFrame
      (''expected unary-request (0x00) or streaming-open (0x10), got 0x'' @ hex02 b))))"
    by (simp add: write_reply_def)
  ultimately show ?thesis
    using c Cons by (simp add: handle_inbound_substream_def opcode_defs)
qed

theorem inbound_substream_bad_opcode_witness:
  "\<exists>t'. handle_inbound_substream leb_ref buf_recv buf_send ref_codecs pc_wire_error_ref list_chan id
     (\<lambda>_. ''frame'') demo_run (\<lambda>h ctx items n. ((items, Inr (Inr ())), Suc n)) demo_registry demo_env
     tx_new (rx_of [0x20, 1]) (0 :: nat) = Some (t', 0) \<and>
     (case [0x20, 1] of
        [] \<Rightarrow> t' = tx_new
      | b # _ \<Rightarrow> replied pc_wire_error_ref id tb_out tb_closed (Inl (MalformedFrame
          (''expected unary-request (0x00) or streaming-open (0x10), got 0x'' @ hex02 b))) t')"
  using inbound_substream_bad_opcode [OF buf_rx.quic_recv_axioms buf_tx.quic_send_axioms,
      where t = tx_new and r = "rx_of [0x20, 1]"]
  by (simp add: tx_new_def tx_healthy_def)

text \<open>
  C13. The answer to a streaming open, whatever the peer sends and whatever the handler does, on a stream
  that accepts its writes, byte by byte. When no open-request can be read, nothing is written and no handler
  runs: the peer sees no typed error, although the documentation of streaming_negotiate_open says it does. A
  method the registry does not have gets exactly the refusing ack and no handler runs. Otherwise the handler
  is run once, on exactly the items the rest of the stream stands for, and the answer is the accepting ack,
  all chunks the handler sent up to its first error, in its order, and exactly one closing frame: that error
  as terminal error, or else what the handler's task ended with (the end for Ok, a terminal error for Err or
  a join failure). Only a frame whose body does not serialize is missing, and what would follow it; when
  that is the accepting ack, the handler does not run.
\<close>

theorem streaming_reply_shape:
  assumes L: "leb128_codec L" and R: "quic_recv R content ended" and M: "mpsc M live"
    and S: "quic_send T written closed healthy" and t: "healthy t" "written t = []"
    and run: "handle_streaming_substream L R T C M dbg dbgf run_s registry env t r w = Some (t', w')"
  shows "case read_streaming_frame_after_opcode R C r OPCODE_STREAMING_OPEN_REQUEST of
      (Inr (FOpenRequest req), r1) \<Rightarrow>
        (case lookup_streaming registry (oreq_method_name req) of
           None \<Rightarrow> w' = w \<and> written t' = frames_bytes C (takeWhile (writable C) [open_ack registry req])
         | Some h \<Rightarrow>
             if \<not> writable C (open_ack registry req) then w' = w \<and> written t' = []
             else \<exists>items responses j chunks close.
                stream_items R C (request_reaction dbgf) r1 = Some items \<and>
                run_s h (env_context env) items w = ((responses, j), w') \<and>
                written t' = frames_bytes C (open_ack registry req # takeWhile (writable C) (map FResponseChunk chunks @ [close])) \<and>
                (responses = map Inr chunks \<and> close = join_frame dbg j \<or>
                 (\<exists>e rest. responses = map Inr chunks @ Inl e # rest \<and> close = FError (handler_err_to_terminal dbg e))))
    | _ \<Rightarrow> w' = w \<and> written t' = []"
proof -
  obtain res r1 where rd: "read_streaming_frame_after_opcode R C r OPCODE_STREAMING_OPEN_REQUEST = (res, r1)"
    by (cases "read_streaming_frame_after_opcode R C r OPCODE_STREAMING_OPEN_REQUEST")
  note refused = substream_refused [where run_s = run_s and M = M and dbg = dbg and dbgf = dbgf and w = w]
  show ?thesis
  proof (cases "\<exists>req. res = Inr (FOpenRequest req)")
    case False
    then have "streaming_negotiate_open L R T C registry env t r = (None, t, r1)"
      by (intro negotiate_nothing [OF rd]) blast
    from refused [OF this] run t(2) rd False show ?thesis
      by (auto split: sum.split streaming_frame.split)
  next
    case True
    then obtain req where req: "res = Inr (FOpenRequest req)" by blast
    show ?thesis
    proof (cases rule: negotiate_healthy [OF L S t(1) rd [unfolded req], of registry env,
          case_names unacked unknown accepted])
      case unacked
      from refused [OF unacked(2)] run t(2) unacked(1) rd req show ?thesis by (simp split: option.split)
    next
      case (unknown t1)
      from refused [OF unknown(3)] run t(2) unknown(1,2,4) rd req show ?thesis by simp
    next
      case (accepted h t1)
      from accepted_reply [OF L R M S accepted(3,4) run] obtain items responses j where
        reply: "stream_items R C (request_reaction dbgf) r1 = Some items"
        "run_s h (env_context env) items w = ((responses, j), w')"
        "written t' = written t1 @ frames_bytes C (takeWhile (writable C) (response_frames dbg responses j))" .
      from response_frames_shape [of dbg responses j] obtain chunks close where
        shape: "response_frames dbg responses j = map FResponseChunk chunks @ [close]"
        "responses = map Inr chunks \<and> close = join_frame dbg j \<or>
         (\<exists>e rest. responses = map Inr chunks @ Inl e # rest \<and> close = FError (handler_err_to_terminal dbg e))" by blast
      have "written t' = frames_bytes C (open_ack registry req #
          takeWhile (writable C) (map FResponseChunk chunks @ [close]))"
        using reply(3) accepted(5) t(2) shape(1) by simp
      with reply(1,2) shape(2) accepted(1,2) show ?thesis
        unfolding rd req by (simp only: prod.case sum.case streaming_frame.case option.case not_True_eq_False if_False) blast
    qed
  qed
qed

theorem streaming_reply_shape_witness:
  "\<exists>r t'. handle_streaming_substream leb_ref buf_recv buf_send ref_codecs list_chan id (\<lambda>_. ''frame'')
      (\<lambda>h ctx items n. (([Inr [8], Inr [9]], Inr (Inr ())), Suc n)) demo_registry demo_env tx_new r (0 :: nat) = Some (t', 1) \<and>
     tb_out t' = frames_bytes ref_codecs
       [open_ack demo_registry demo_open, FResponseChunk [8], FResponseChunk [9], FResponseEnd]"
proof -
  let ?run_s = "\<lambda>h ctx items n. (([Inr [8], Inr [9]], Inr (Inr ())), Suc n)"
  let ?r = "rx_of (the (frame_bytes ref_codecs (FOpenRequest demo_open)) @ [])"
  have "rb_data ?r = the (frame_bytes ref_codecs (FOpenRequest demo_open)) @ []" by simp
  from open_request_read [OF buf_rx.quic_recv_axioms ref_codecs_ok demo_frames_ok(1) this] obtain r1 r2 where
    rd: "read_streaming_frame_after_opcode buf_recv ref_codecs r1 OPCODE_STREAMING_OPEN_REQUEST =
      (Inr (FOpenRequest demo_open), r2)" .
  have h: "lookup_streaming demo_registry (oreq_method_name demo_open) = Some 0" by code_simp
  obtain t1 where t1: "write_frame leb_ref buf_send ref_codecs tx_new (open_ack demo_registry demo_open) = (Inr (), t1)"
    using open_ack_written [OF demo_tx(3) buf_tx.quic_send_axioms demo_tx(1) demo_frames_ok(3)] .
  have neg: "streaming_negotiate_open leb_ref buf_recv buf_send ref_codecs demo_registry demo_env tx_new r1 =
    (Some (0, env_context demo_env), t1, r2)"
    using negotiate_request [OF rd, of leb_ref buf_send demo_registry demo_env tx_new] t1 h by simp
  obtain r3 c where c: "pump_inbound_requests buf_recv ref_codecs (\<lambda>_. ''frame'') list_chan r2 (mp_new list_chan) = Some (r3, c)"
    using request_pump.pump_returns [OF buf_rx.quic_recv_axioms, where r = r2 and C = ref_codecs
        and dbgf = "\<lambda>_. ''frame''" and M = list_chan and c = "mp_new list_chan"] by blast
  obtain t' where run: "handle_streaming_substream leb_ref buf_recv buf_send ref_codecs list_chan id (\<lambda>_. ''frame'')
      ?run_s demo_registry demo_env tx_new r1 0 = Some (t', 1)"
    using substream_accepted [OF neg c, of ?run_s 0 "[Inr [8], Inr [9]]" "Inr (Inr ())" 1 id] by simp
  have "writable ref_codecs (open_ack demo_registry demo_open)" "writable ref_codecs (FResponseChunk [8])"
    "writable ref_codecs (FResponseChunk [9])" "writable ref_codecs FResponseEnd"
    using demo_frames_ok(3) by (auto elim!: frame_okE simp: writable_def)
      (simp_all add: frame_bytes_def payload_within_def)
  with streaming_reply_shape [OF demo_tx(3) buf_rx.quic_recv_axioms lc.mpsc_axioms buf_tx.quic_send_axioms
      demo_tx(1,2) run] rd h
  have "tb_out t' = frames_bytes ref_codecs
      [open_ack demo_registry demo_open, FResponseChunk [8], FResponseChunk [9], FResponseEnd]"
    by (auto simp: map_eq_Cons_conv Cons_eq_map_conv Cons_eq_append_conv join_frame_def)
  with run show ?thesis by blast
qed

end
