(* ===== verification/Server_Tasks.thy ===== *)
theory Server_Tasks
  imports Server_Streaming
begin

section \<open>The tasks of one streaming call on the server\<close>

text \<open>
  After the open handshake, \<^verbatim>\<open>handle_streaming_substream\<close> runs three tasks: the request
  pump, the handler, and its own task, which drains the responses, joins the handler, writes the
  closing frame, aborts the pump and finishes the stream. They share two channels of bounded
  capacity, whose ends are dropped when a task ends. Here every poll of a task is one step, and a
  schedule is any list of tasks. \<open>Server_Streaming\<close> runs the same code one task after the other;
  the theorem \<open>tasks_write_the_sequential_reply\<close> says that no schedule can be told from that.

  A handler is application code: \<open>act\<close> gives for each of its states what it does next, and the
  state it continues in for each answer. It may stop reading, drop either end of its channels
  early, or return at any time. The result \<open>Inl\<close> of a return is a panic. A handler that polls both
  channels at once, or shares their ends with other tasks, is the subject of \<open>Any_Handler\<close>.
\<close>

datatype 'h handler_action =
    NextRequest "item option \<Rightarrow> 'h"
  | SendResponse item "bool \<Rightarrow> 'h"
  | DropRequests 'h
  | DropSender 'h
  | Return join_result

datatype 'h handler_task = Running 'h | Joined join_result

datatype main_phase = Draining | Joining bool | Closed

record ('h, 'r, 't) call_tasks =
  ct_pump :: "'r pump_task"
  ct_requests :: "item list"
  ct_req_rx :: bool
  ct_handler :: "'h handler_task"
  ct_responses :: "item list"
  ct_resp_tx :: bool
  ct_main :: main_phase
  ct_send :: 't

definition call_spawn :: "'h \<Rightarrow> 'r \<Rightarrow> 't \<Rightarrow> ('h, 'r, 't) call_tasks" where
  "call_spawn h recv send =
     \<lparr>ct_pump = Reading recv, ct_requests = [], ct_req_rx = True, ct_handler = Running h,
      ct_responses = [], ct_resp_tx = True, ct_main = Draining, ct_send = send\<rparr>"

definition pump_step :: "'r recv_ops \<Rightarrow> stream_codecs \<Rightarrow> (streaming_frame \<Rightarrow> string) \<Rightarrow>
  ('h, 'r, 't) call_tasks \<Rightarrow> ('h, 'r, 't) call_tasks option" where
  "pump_step R C dbgf s =
     (case pump_poll R C (request_reaction dbgf) (ct_req_rx s) (ct_requests s) (ct_pump s) of
        None \<Rightarrow> None
      | Some (pump, requests) \<Rightarrow> Some (s\<lparr>ct_pump := pump, ct_requests := requests\<rparr>))"

definition handler_step :: "('h \<Rightarrow> 'h handler_action) \<Rightarrow>
  ('h, 'r, 't) call_tasks \<Rightarrow> ('h, 'r, 't) call_tasks option" where
  "handler_step act s =
     (case ct_handler s of
        Joined j \<Rightarrow> None
      | Running h \<Rightarrow>
          (case act h of
             NextRequest k \<Rightarrow>
               (if \<not> ct_req_rx s then Some (s\<lparr>ct_handler := Running (k None)\<rparr>)
                else case ct_requests s of
                    x # xs \<Rightarrow> Some (s\<lparr>ct_requests := xs, ct_handler := Running (k (Some x))\<rparr>)
                  | [] \<Rightarrow> (case ct_pump s of
                        Stopped \<Rightarrow> Some (s\<lparr>ct_handler := Running (k None)\<rparr>)
                      | _ \<Rightarrow> None))
           | SendResponse x k \<Rightarrow>
               (case bounded_send (ct_resp_tx s \<and> ct_main s = Draining) (ct_responses s) x of
                  None \<Rightarrow> None
                | Some (sent, responses) \<Rightarrow>
                    Some (s\<lparr>ct_responses := responses, ct_handler := Running (k sent)\<rparr>))
           | DropRequests h1 \<Rightarrow> Some (s\<lparr>ct_req_rx := False, ct_requests := [], ct_handler := Running h1\<rparr>)
           | DropSender h1 \<Rightarrow> Some (s\<lparr>ct_resp_tx := False, ct_handler := Running h1\<rparr>)
           | Return j \<Rightarrow> Some (s\<lparr>ct_req_rx := False, ct_requests := [], ct_resp_tx := False,
               ct_handler := Joined j\<rparr>)))"

text \<open>The task of the substream: one item of the drain, or the join and what follows it.\<close>

definition main_step :: "leb128 \<Rightarrow> 't send_ops \<Rightarrow> stream_codecs \<Rightarrow> (string \<Rightarrow> string) \<Rightarrow>
  ('h, 'r, 't) call_tasks \<Rightarrow> ('h, 'r, 't) call_tasks option" where
  "main_step L T C dbg s =
     (case ct_main s of
        Draining \<Rightarrow>
          (case ct_responses s of
             Inr chunk # rest \<Rightarrow>
               (case write_response_chunk L T (ct_send s) chunk of
                  (Inl e, send) \<Rightarrow> Some (s\<lparr>ct_main := Joining True, ct_responses := [], ct_send := send\<rparr>)
                | (Inr _, send) \<Rightarrow> Some (s\<lparr>ct_responses := rest, ct_send := send\<rparr>))
           | Inl err # rest \<Rightarrow>
               (case write_streaming_error L T C (ct_send s) (handler_err_to_terminal dbg err) of
                  (_, send) \<Rightarrow> Some (s\<lparr>ct_main := Joining True, ct_responses := [], ct_send := send\<rparr>))
           | [] \<Rightarrow> if ct_resp_tx s then None else Some (s\<lparr>ct_main := Joining False\<rparr>))
      | Joining wrote_terminal \<Rightarrow>
          (case ct_handler s of
             Running h \<Rightarrow> None
           | Joined handler_result \<Rightarrow>
               (let send = (if wrote_terminal then ct_send s
                            else finalise_streaming L T C dbg (ct_send s) handler_result)
                in case tx_finish T send of
                     (_, send1) \<Rightarrow> Some (s\<lparr>ct_main := Closed, ct_pump := Stopped, ct_send := send1\<rparr>)))
      | Closed \<Rightarrow> None)"

datatype task = PumpTask | HandlerTask | MainTask

fun task_step :: "leb128 \<Rightarrow> 'r recv_ops \<Rightarrow> 't send_ops \<Rightarrow> stream_codecs \<Rightarrow> (string \<Rightarrow> string) \<Rightarrow>
  (streaming_frame \<Rightarrow> string) \<Rightarrow> ('h \<Rightarrow> 'h handler_action) \<Rightarrow> task \<Rightarrow>
  ('h, 'r, 't) call_tasks \<Rightarrow> ('h, 'r, 't) call_tasks option" where
  "task_step L R T C dbg dbgf act PumpTask s = pump_step R C dbgf s"
| "task_step L R T C dbg dbgf act HandlerTask s = handler_step act s"
| "task_step L R T C dbg dbgf act MainTask s = main_step L T C dbg s"

text \<open>A schedule in which every task named can move.\<close>

fun tasks_run :: "leb128 \<Rightarrow> 'r recv_ops \<Rightarrow> 't send_ops \<Rightarrow> stream_codecs \<Rightarrow> (string \<Rightarrow> string) \<Rightarrow>
  (streaming_frame \<Rightarrow> string) \<Rightarrow> ('h \<Rightarrow> 'h handler_action) \<Rightarrow> task list \<Rightarrow>
  ('h, 'r, 't) call_tasks \<Rightarrow> ('h, 'r, 't) call_tasks option" where
  "tasks_run L R T C dbg dbgf act [] s = Some s"
| "tasks_run L R T C dbg dbgf act (t # ts) s =
     (case task_step L R T C dbg dbgf act t s of
        None \<Rightarrow> None
      | Some s1 \<Rightarrow> tasks_run L R T C dbg dbgf act ts s1)"

lemma tasks_run_append:
  "tasks_run L R T C dbg dbgf act ts s = Some s1 \<Longrightarrow>
    tasks_run L R T C dbg dbgf act (ts @ us) s = tasks_run L R T C dbg dbgf act us s1"
  by (induction ts arbitrary: s) (auto split: option.splits)

subsection \<open>The handler alone\<close>

text \<open>
  What a handler sends and returns when it is given its requests as a list and every send is
  accepted until it drops its sender. \<open>None\<close>: it does not return.
\<close>

partial_function (option) handler_run :: "('h \<Rightarrow> 'h handler_action) \<Rightarrow> 'h \<Rightarrow> item list \<Rightarrow> bool \<Rightarrow>
  (item list \<times> join_result) option" where
  "handler_run act h requests tx =
     (case act h of
        NextRequest k \<Rightarrow>
          (case requests of
             [] \<Rightarrow> handler_run act (k None) [] tx
           | x # xs \<Rightarrow> handler_run act (k (Some x)) xs tx)
      | SendResponse x k \<Rightarrow>
          if tx then Option.bind (handler_run act (k True) requests tx) (\<lambda>(xs, j). Some (x # xs, j))
          else handler_run act (k False) requests tx
      | DropRequests h1 \<Rightarrow> handler_run act h1 [] tx
      | DropSender h1 \<Rightarrow> handler_run act h1 requests False
      | Return j \<Rightarrow> Some ([], j))"

definition with_sent :: "item list \<Rightarrow> (item list \<times> join_result) option \<Rightarrow> (item list \<times> join_result) option" where
  "with_sent xs res = Option.bind res (\<lambda>(ys, j). Some (xs @ ys, j))"

lemma with_sent_simps [simp]:
  "with_sent [] res = res"
  "with_sent xs (with_sent ys res) = with_sent (xs @ ys) res"
  "with_sent xs (Some (ys, j)) = Some (xs @ ys, j)"
  by (cases res; simp add: with_sent_def split: prod.split)+

subsection \<open>What every schedule keeps\<close>

definition requests_left :: "'r recv_ops \<Rightarrow> stream_codecs \<Rightarrow> (streaming_frame \<Rightarrow> string) \<Rightarrow>
  ('h, 'r, 't) call_tasks \<Rightarrow> item list" where
  "requests_left R C dbgf s =
     (if ct_req_rx s then ct_requests s @ pump_pending R C (request_reaction dbgf) (ct_pump s) else [])"

definition handler_rest :: "'r recv_ops \<Rightarrow> stream_codecs \<Rightarrow> (streaming_frame \<Rightarrow> string) \<Rightarrow>
  ('h \<Rightarrow> 'h handler_action) \<Rightarrow> ('h, 'r, 't) call_tasks \<Rightarrow> (item list \<times> join_result) option" where
  "handler_rest R C dbgf act s =
     (case ct_handler s of
        Running h \<Rightarrow> handler_run act h (requests_left R C dbgf s) (ct_resp_tx s)
      | Joined j \<Rightarrow> Some ([], j))"

lemma handler_rest_update [simp]:
  "handler_rest R C dbgf act (s\<lparr>ct_main := m\<rparr>) = handler_rest R C dbgf act s"
  "handler_rest R C dbgf act (s\<lparr>ct_send := t\<rparr>) = handler_rest R C dbgf act s"
  "handler_rest R C dbgf act (s\<lparr>ct_responses := q\<rparr>) = handler_rest R C dbgf act s"
  by (simp_all add: handler_rest_def requests_left_def split: handler_task.split)

text \<open>
  \<open>full\<close> is what the handler sends and returns when it runs alone, \<open>send0\<close> the send half after the
  ack. While the responses are drained, the chunks on the wire, the queue and the rest of the
  handler's run make up \<open>full\<close>.
\<close>

definition tasks_inv :: "leb128 \<Rightarrow> 'r recv_ops \<Rightarrow> 't send_ops \<Rightarrow> stream_codecs \<Rightarrow> (string \<Rightarrow> string) \<Rightarrow>
  (streaming_frame \<Rightarrow> string) \<Rightarrow> ('h \<Rightarrow> 'h handler_action) \<Rightarrow> (item list \<times> join_result) option \<Rightarrow> 't \<Rightarrow>
  ('h, 'r, 't) call_tasks \<Rightarrow> bool" where
  "tasks_inv L R T C dbg dbgf act full send0 s \<longleftrightarrow>
     length (ct_requests s) \<le> STREAM_CHANNEL_CAPACITY \<and> length (ct_responses s) \<le> STREAM_CHANNEL_CAPACITY \<and>
     (\<forall>j. ct_handler s = Joined j \<longrightarrow> \<not> ct_resp_tx s \<and> \<not> ct_req_rx s) \<and>
     (ct_main s \<noteq> Draining \<longrightarrow> ct_responses s = []) \<and>
     (ct_main s = Joining False \<longrightarrow> \<not> ct_resp_tx s) \<and>
     (case ct_main s of
        Joining True \<Rightarrow> \<forall>outs j. full = Some (outs, j) \<longrightarrow>
          ct_send s = snd (write_frames L T C (response_frames dbg outs j) send0)
      | Closed \<Rightarrow> \<forall>outs j. full = Some (outs, j) \<longrightarrow>
          ct_send s = snd (tx_finish T (snd (write_frames L T C (response_frames dbg outs j) send0)))
      | _ \<Rightarrow> \<exists>chunks. write_frames L T C (map FResponseChunk chunks) send0 = (Inr (), ct_send s) \<and>
          full = with_sent (map Inr chunks @ ct_responses s) (handler_rest R C dbgf act s))"

lemma response_frames_chunks:
  "response_frames dbg (map Inr chunks @ items) j = map FResponseChunk chunks @ response_frames dbg items j"
  by (induction chunks) simp_all

text \<open>The chunks on the wire, then what the rest of the items stands for.\<close>

lemma response_after_chunks:
  assumes "write_frames L T C (map FResponseChunk chunks) send0 = (Inr (), t)"
  shows "write_frames L T C (response_frames dbg (map Inr chunks @ items) j) send0 =
    write_frames L T C (response_frames dbg items j) t"
  by (simp add: response_frames_chunks write_frames_more [OF assms])

lemma with_sent_Some:
  "with_sent xs res = Some (outs, j) \<Longrightarrow> \<exists>ys. res = Some (ys, j) \<and> outs = xs @ ys"
  by (cases res) (auto simp: with_sent_def)

lemma handler_run_simps:
  "act h = NextRequest k \<Longrightarrow> handler_run act h [] tx = handler_run act (k None) [] tx"
  "act h = NextRequest k \<Longrightarrow> handler_run act h (x # xs) tx = handler_run act (k (Some x)) xs tx"
  "act h = SendResponse x k' \<Longrightarrow> handler_run act h xs True = with_sent [x] (handler_run act (k' True) xs True)"
  "act h = SendResponse x k' \<Longrightarrow> handler_run act h xs False = handler_run act (k' False) xs False"
  "act h = DropRequests h1 \<Longrightarrow> handler_run act h xs tx = handler_run act h1 [] tx"
  "act h = DropSender h1 \<Longrightarrow> handler_run act h xs tx = handler_run act h1 xs False"
  "act h = Return j \<Longrightarrow> handler_run act h xs tx = Some ([], j)"
  by (subst handler_run.simps, simp add: with_sent_def)+

lemma handler_step_rest:
  assumes "handler_step act s = Some s'" and "ct_main s = Draining \<or> \<not> ct_resp_tx s"
  shows "with_sent (ct_responses s') (handler_rest R C dbgf act s') =
    with_sent (ct_responses s) (handler_rest R C dbgf act s)"
proof (cases "ct_handler s")
  case (Joined j)
  with assms(1) show ?thesis by (simp add: handler_step_def)
next
  case (Running h)
  show ?thesis
  proof (cases "act h")
    case (NextRequest k)
    with Running assms(1) show ?thesis
      by (auto simp: handler_step_def handler_rest_def requests_left_def handler_run_simps
          split: if_splits list.splits pump_task.splits)
  next
    case (SendResponse x k)
    with Running assms show ?thesis
      by (auto simp: handler_step_def handler_rest_def requests_left_def bounded_send_def handler_run_simps
          split: if_splits option.splits prod.splits)
  qed (use Running assms(1) in \<open>auto simp: handler_step_def handler_rest_def requests_left_def handler_run_simps\<close>)
qed

lemma pump_step_rest:
  assumes R: "quic_recv R content ended" and "pump_step R C dbgf s = Some s'"
  shows "handler_rest R C dbgf act s' = handler_rest R C dbgf act s"
proof -
  from assms(2) obtain p q where
    p: "pump_poll R C (request_reaction dbgf) (ct_req_rx s) (ct_requests s) (ct_pump s) = Some (p, q)"
    and s': "s' = s\<lparr>ct_pump := p, ct_requests := q\<rparr>"
    by (auto simp: pump_step_def split: option.splits)
  have "requests_left R C dbgf s' = requests_left R C dbgf s"
  proof (cases "ct_req_rx s")
    case True
    with p pump_poll_pending [OF R] s' show ?thesis by (simp add: requests_left_def)
  next
    case False
    with s' show ?thesis by (simp add: requests_left_def)
  qed
  with s' show ?thesis by (simp add: handler_rest_def split: handler_task.split)
qed

lemma tasks_inv_pump:
  assumes R: "quic_recv R content ended" and step: "pump_step R C dbgf s = Some s'"
    and inv: "tasks_inv L R T C dbg dbgf act full send0 s"
  shows "tasks_inv L R T C dbg dbgf act full send0 s'"
proof -
  from step obtain p q where
    p: "pump_poll R C (request_reaction dbgf) (ct_req_rx s) (ct_requests s) (ct_pump s) = Some (p, q)"
    and s': "s' = s\<lparr>ct_pump := p, ct_requests := q\<rparr>"
    by (auto simp: pump_step_def split: option.splits)
  from pump_poll_bound [OF p] inv have "length q \<le> STREAM_CHANNEL_CAPACITY" by (simp add: tasks_inv_def)
  moreover note pump_step_rest [OF R step, of act]
  ultimately show ?thesis using inv s' by (auto simp: tasks_inv_def split: main_phase.splits bool.splits)
qed

lemma handler_step_fields:
  assumes "handler_step act s = Some s'"
  shows "ct_main s' = ct_main s" "ct_send s' = ct_send s" "ct_resp_tx s' \<longrightarrow> ct_resp_tx s"
    "length (ct_requests s') \<le> length (ct_requests s)"
    "ct_responses s' = ct_responses s \<or> ct_main s = Draining \<and> length (ct_responses s') \<le> STREAM_CHANNEL_CAPACITY"
    "ct_handler s' = Joined j \<Longrightarrow> \<not> ct_resp_tx s' \<and> \<not> ct_req_rx s'"
  using assms
  by (auto simp: handler_step_def bounded_send_def
      split: handler_task.splits handler_action.splits if_splits list.splits option.splits prod.splits pump_task.splits)

lemma tasks_inv_handler:
  assumes step: "handler_step act s = Some s'" and inv: "tasks_inv L R T C dbg dbgf act full send0 s"
  shows "tasks_inv L R T C dbg dbgf act full send0 s'"
proof -
  note f = handler_step_fields [OF step]
  have rest: "with_sent (xs @ ct_responses s') (handler_rest R C dbgf act s') =
      with_sent (xs @ ct_responses s) (handler_rest R C dbgf act s)"
    if "ct_main s = Draining \<or> \<not> ct_resp_tx s" for xs
    using handler_step_rest [OF step that, of R C dbgf] by (simp flip: with_sent_simps(2))
  show ?thesis
  proof (cases "ct_main s = Draining \<or> ct_main s = Joining False")
    case True
    with inv have "ct_main s = Draining \<or> \<not> ct_resp_tx s" by (auto simp: tasks_inv_def)
    from rest [OF this] True inv f show ?thesis
      by (elim disjE) (fastforce simp: tasks_inv_def)+
  next
    case False
    with inv f show ?thesis
      by (cases "ct_main s") (auto simp: tasks_inv_def split: bool.splits)
  qed
qed

text \<open>The moves of the main task, with the frames each writes.\<close>

lemma main_step_cases:
  assumes step: "main_step L T C dbg s = Some s'"
  obtains
    (chunk_written) chunk rest t where "ct_main s = Draining" "ct_responses s = Inr chunk # rest"
      "write_frame L T C (ct_send s) (FResponseChunk chunk) = (Inr (), t)"
      "s' = s\<lparr>ct_responses := rest, ct_send := t\<rparr>"
  | (chunk_failed) chunk rest e t where "ct_main s = Draining" "ct_responses s = Inr chunk # rest"
      "write_frame L T C (ct_send s) (FResponseChunk chunk) = (Inl e, t)"
      "s' = s\<lparr>ct_main := Joining True, ct_responses := [], ct_send := t\<rparr>"
  | (error_sent) err rest where "ct_main s = Draining" "ct_responses s = Inl err # rest"
      "s' = s\<lparr>ct_main := Joining True, ct_responses := [],
        ct_send := snd (write_frame L T C (ct_send s) (FError (handler_err_to_terminal dbg err)))\<rparr>"
  | (senders_gone) "ct_main s = Draining" "ct_responses s = []" "\<not> ct_resp_tx s" "s' = s\<lparr>ct_main := Joining False\<rparr>"
  | (joined) wrote j where "ct_main s = Joining wrote" "ct_handler s = Joined j"
      "s' = s\<lparr>ct_main := Closed, ct_pump := Stopped, ct_send := snd (tx_finish T
        (if wrote then ct_send s else snd (write_frame L T C (ct_send s) (join_frame dbg j))))\<rparr>"
proof (cases "ct_main s")
  case Draining
  with step chunk_written chunk_failed error_sent senders_gone show thesis
    by (auto simp: main_step_def split: list.splits sum.splits prod.splits if_splits)
next
  case (Joining wrote)
  with step joined show thesis
    by (auto simp: main_step_def Let_def finalise_write_frame split: handler_task.splits prod.splits if_splits)
next
  case Closed
  with step show thesis by (simp add: main_step_def)
qed

lemma tasks_inv_main:
  assumes step: "main_step L T C dbg s = Some s'" and inv: "tasks_inv L R T C dbg dbgf act full send0 s"
  shows "tasks_inv L R T C dbg dbgf act full send0 s'"
proof -
  have sent: "\<exists>chunks. write_frames L T C (map FResponseChunk chunks) send0 = (Inr (), ct_send s) \<and>
      full = with_sent (map Inr chunks @ ct_responses s) (handler_rest R C dbgf act s)"
    if "ct_main s = Draining \<or> ct_main s = Joining False"
    using inv that by (auto simp: tasks_inv_def)
  show ?thesis
    using step
  proof (cases rule: main_step_cases)
    case (chunk_written chunk rest t)
    with sent obtain chunks where
      w: "write_frames L T C (map FResponseChunk chunks) send0 = (Inr (), ct_send s)" and
      full: "full = with_sent (map Inr chunks @ Inr chunk # rest) (handler_rest R C dbgf act s)" by auto
    have "write_frames L T C (map FResponseChunk (chunks @ [chunk])) send0 = (Inr (), t)"
      using chunk_written(3) by (simp add: write_frames_more [OF w])
    moreover have "full = with_sent (map Inr (chunks @ [chunk]) @ rest) (handler_rest R C dbgf act s')"
      using full chunk_written(4) by simp
    ultimately show ?thesis using inv chunk_written
      by (auto simp: tasks_inv_def intro!: exI [of _ "chunks @ [chunk]"])
  next
    case (chunk_failed chunk rest e t)
    with sent obtain chunks where
      w: "write_frames L T C (map FResponseChunk chunks) send0 = (Inr (), ct_send s)" and
      full: "full = with_sent (map Inr chunks @ Inr chunk # rest) (handler_rest R C dbgf act s)" by auto
    with chunk_failed inv show ?thesis
      by (auto simp: tasks_inv_def response_after_chunks [OF w] dest!: with_sent_Some [OF sym])
  next
    case (error_sent err rest)
    with sent obtain chunks where
      w: "write_frames L T C (map FResponseChunk chunks) send0 = (Inr (), ct_send s)" and
      full: "full = with_sent (map Inr chunks @ Inl err # rest) (handler_rest R C dbgf act s)" by auto
    with error_sent inv show ?thesis
      by (auto simp: tasks_inv_def response_after_chunks [OF w] dest!: with_sent_Some [OF sym] split: prod.splits sum.splits)
  next
    case senders_gone
    with inv sent show ?thesis by (auto simp: tasks_inv_def)
  next
    case (joined wrote j)
    show ?thesis
    proof (cases wrote)
      case True
      with joined inv show ?thesis by (auto simp: tasks_inv_def)
    next
      case False
      with joined sent inv obtain chunks where
        w: "write_frames L T C (map FResponseChunk chunks) send0 = (Inr (), ct_send s)" and
        full: "full = Some (map Inr chunks, j)" by (auto simp: tasks_inv_def handler_rest_def)
      with joined False inv response_after_chunks [OF w, of dbg "[]" j] show ?thesis
        by (auto simp: tasks_inv_def split: prod.splits sum.splits)
    qed
  qed
qed

lemma tasks_run_inv:
  assumes R: "quic_recv R content ended"
  shows "tasks_run L R T C dbg dbgf act sched s = Some s' \<Longrightarrow> tasks_inv L R T C dbg dbgf act full send0 s \<Longrightarrow>
    tasks_inv L R T C dbg dbgf act full send0 s'"
proof (induction sched arbitrary: s)
  case (Cons t sched)
  from Cons.prems(1) obtain s1 where s1: "task_step L R T C dbg dbgf act t s = Some s1"
    "tasks_run L R T C dbg dbgf act sched s1 = Some s'" by (auto split: option.splits)
  from s1(1) Cons.prems(2) have "tasks_inv L R T C dbg dbgf act full send0 s1"
    by (cases t) (auto intro: tasks_inv_pump [OF R] tasks_inv_handler tasks_inv_main)
  from Cons.IH [OF s1(2) this] show ?case .
qed simp

lemma call_spawn_inv:
  "tasks_inv L R T C dbg dbgf act
     (handler_run act h (the (stream_items R C (request_reaction dbgf) recv)) True) send (call_spawn h recv send)"
  by (auto simp: tasks_inv_def call_spawn_def handler_rest_def requests_left_def intro: exI [of _ "[]"])

text \<open>The main task waits for the handler only, the handler for the pump or for the main task.\<close>

lemma handler_waits:
  assumes "handler_step act s = None" "ct_handler s = Running h"
  shows "ct_req_rx s \<and> ct_requests s = [] \<and> ct_pump s \<noteq> Stopped \<or> ct_main s = Draining \<and> ct_responses s \<noteq> []"
  using assms
  by (auto simp: handler_step_def bounded_send_def STREAM_CHANNEL_CAPACITY_def
      split: handler_action.splits if_splits list.splits option.splits pump_task.splits)

lemma pump_moves:
  assumes "ct_requests s = []" "ct_pump s \<noteq> Stopped"
  shows "\<exists>s'. pump_step R C dbgf s = Some s'"
proof -
  have "pump_poll R C (request_reaction dbgf) (ct_req_rx s) (ct_requests s) (ct_pump s) \<noteq> None"
    using assms by (simp add: pump_poll_blocked STREAM_CHANNEL_CAPACITY_def)
  then show ?thesis by (auto simp: pump_step_def)
qed

lemma draining_moves:
  assumes "ct_main s = Draining" "ct_responses s \<noteq> [] \<or> \<not> ct_resp_tx s"
  shows "\<exists>s'. main_step L T C dbg s = Some s'"
  using assms by (cases "ct_responses s") (auto simp: main_step_def split: sum.split prod.split)

lemma some_task_moves:
  assumes inv: "tasks_inv L R T C dbg dbgf act full send0 s" and open_call: "ct_main s \<noteq> Closed"
  shows "\<exists>t s'. task_step L R T C dbg dbgf act t s = Some s'"
proof (cases "ct_handler s")
  case (Joined j)
  with inv have "\<not> ct_resp_tx s" by (simp add: tasks_inv_def)
  have "\<exists>s'. main_step L T C dbg s = Some s'"
  proof (cases "ct_main s")
    case Draining
    with draining_moves \<open>\<not> ct_resp_tx s\<close> show ?thesis by blast
  next
    case (Joining wrote)
    with Joined show ?thesis by (simp add: main_step_def Let_def split: prod.split)
  qed (use open_call in simp)
  then show ?thesis by (metis task_step.simps(3))
next
  case (Running h)
  show ?thesis
  proof (cases "handler_step act s")
    case None
    from handler_waits [OF this Running] pump_moves draining_moves show ?thesis
      by (metis task_step.simps(1,3))
  next
    case (Some s')
    then show ?thesis by (metis task_step.simps(2))
  qed
qed

text \<open>A closed call is over: the handler has been joined and the pump has stopped.\<close>

abbreviation call_over :: "('h, 'r, 't) call_tasks \<Rightarrow> bool" where
  "call_over s \<equiv> ct_pump s = Stopped \<and> (\<exists>j. ct_handler s = Joined j)"

lemma task_step_closed:
  assumes "task_step L R T C dbg dbgf act t s = Some s'" "ct_main s = Closed \<longrightarrow> call_over s"
  shows "ct_main s' = Closed \<longrightarrow> call_over s'"
proof (cases t)
  case PumpTask
  with assms show ?thesis by (auto simp: pump_step_def split: option.splits)
next
  case HandlerTask
  with assms show ?thesis
    by (auto simp: handler_step_def split: handler_task.splits handler_action.splits if_splits list.splits
        option.splits prod.splits pump_task.splits)
next
  case MainTask
  with assms show ?thesis
    by (auto simp: main_step_def Let_def split: main_phase.splits list.splits sum.splits prod.splits
        handler_task.splits if_splits)
qed

lemma tasks_run_closed:
  "tasks_run L R T C dbg dbgf act sched s = Some s' \<Longrightarrow> ct_main s = Closed \<longrightarrow> call_over s \<Longrightarrow>
    ct_main s' = Closed \<Longrightarrow> call_over s'"
  by (induction sched arbitrary: s) (auto split: option.splits dest: task_step_closed)

subsection \<open>Every call of a handler that returns can be finished\<close>

definition can_finish :: "leb128 \<Rightarrow> 'r recv_ops \<Rightarrow> 't send_ops \<Rightarrow> stream_codecs \<Rightarrow> (string \<Rightarrow> string) \<Rightarrow>
  (streaming_frame \<Rightarrow> string) \<Rightarrow> ('h \<Rightarrow> 'h handler_action) \<Rightarrow> ('h, 'r, 't) call_tasks \<Rightarrow> bool" where
  "can_finish L R T C dbg dbgf act s \<longleftrightarrow>
     (\<exists>sched s'. tasks_run L R T C dbg dbgf act sched s = Some s' \<and> ct_main s' = Closed)"

lemma can_finish_step:
  assumes "task_step L R T C dbg dbgf act t s = Some s1" "can_finish L R T C dbg dbgf act s1"
  shows "can_finish L R T C dbg dbgf act s"
proof -
  from assms(2) obtain sched s' where
    "tasks_run L R T C dbg dbgf act sched s1 = Some s'" "ct_main s' = Closed" by (auto simp: can_finish_def)
  with assms(1) show ?thesis
    unfolding can_finish_def by (intro exI [of _ "t # sched"] exI [of _ s']) simp
qed

lemmas can_finish_pump = can_finish_step [of _ _ _ _ _ _ _ PumpTask, simplified]
lemmas can_finish_handler = can_finish_step [of _ _ _ _ _ _ _ HandlerTask, simplified]
lemmas can_finish_main = can_finish_step [of _ _ _ _ _ _ _ MainTask, simplified]

text \<open>Once the handler has returned, the main task finishes on its own, whatever the writes do.\<close>

lemma joined_finishes:
  assumes "ct_handler s = Joined j" "\<not> ct_resp_tx s"
  shows "can_finish L R T C dbg dbgf act s"
  using assms
proof (induction "ct_responses s" arbitrary: s rule: length_induct)
  case (1 s)
  have joining: "can_finish L R T C dbg dbgf act u" if "ct_main u = Joining wrote" "ct_handler u = Joined j" for u wrote
  proof -
    have "\<exists>u'. main_step L T C dbg u = Some u' \<and> ct_main u' = Closed"
      using that by (auto simp: main_step_def Let_def split: prod.split)
    then obtain u' where "main_step L T C dbg u = Some u'" "ct_main u' = Closed" by blast
    then show ?thesis
      by (auto simp: can_finish_def intro!: exI [of _ "[MainTask]"])
  qed
  show ?case
  proof (cases "ct_main s")
    case Draining
    with draining_moves "1.prems" obtain s1 where s1: "main_step L T C dbg s = Some s1" by blast
    have "ct_handler s1 = Joined j \<and> \<not> ct_resp_tx s1 \<and>
      ((\<exists>wrote. ct_main s1 = Joining wrote) \<or> length (ct_responses s1) < length (ct_responses s))"
      using s1 Draining "1.prems"
      by (auto simp: main_step_def split: list.splits sum.splits prod.splits if_splits)
    with joining "1.hyps" have "can_finish L R T C dbg dbgf act s1" by blast
    with s1 show ?thesis by (rule can_finish_main)
  next
    case (Joining wrote)
    with joining "1.prems" show ?thesis by blast
  next
    case Closed
    then show ?thesis by (auto simp: can_finish_def intro!: exI [of _ "[]"])
  qed
qed

text \<open>The pump, run on its own, gives the handler its next item or stops.\<close>

lemma pump_read_item:
  "(\<exists>x go_on r1. pump_read R C (request_reaction dbgf) r = Sending x go_on r1) \<or>
    pump_read R C (request_reaction dbgf) r = Stopped"
proof (cases "read_streaming_frame R C r")
  case (Pair res r1)
  show ?thesis
  proof (cases "\<exists>f. res = Inr (Some f)")
    case True
    then obtain f where "res = Inr (Some f)" by blast
    with Pair show ?thesis by (cases f) (auto simp: pump_read_def)
  next
    case False
    with Pair show ?thesis by (auto simp: pump_read_def split: sum.split option.split)
  qed
qed

lemma pump_feeds:
  assumes R: "quic_recv R content ended" and s: "ct_req_rx s" "ct_requests s = []"
    and go: "\<And>p q. q \<noteq> [] \<or> p = Stopped \<Longrightarrow>
      requests_left R C dbgf (s\<lparr>ct_pump := p, ct_requests := q\<rparr>) = requests_left R C dbgf s \<Longrightarrow>
      can_finish L R T C dbg dbgf act (s\<lparr>ct_pump := p, ct_requests := q\<rparr>)"
  shows "can_finish L R T C dbg dbgf act s"
proof -
  let ?at = "\<lambda>p q. s\<lparr>ct_pump := p, ct_requests := q\<rparr>"
  let ?left = "requests_left R C dbgf"
  have here: "s = ?at (ct_pump s) []" using s(2) by simp
  have sending: "can_finish L R T C dbg dbgf act (?at (Sending x go_on r) [])"
    if "?left (?at (Sending x go_on r) []) = ?left s" for x go_on r
  proof -
    let ?p = "pump_sent True x go_on r"
    have poll: "pump_poll R C (request_reaction dbgf) True [] (Sending x go_on r) = Some (?p, [x])"
      by (simp add: bounded_send_def STREAM_CHANNEL_CAPACITY_def)
    with s(1) have "pump_step R C dbgf (?at (Sending x go_on r) []) = Some (?at ?p [x])"
      by (simp add: pump_step_def)
    moreover have "?left (?at ?p [x]) = ?left s"
      using pump_poll_pending [OF R poll] that s(1) by (simp add: requests_left_def)
    ultimately show ?thesis using go [of "[x]" ?p] by (auto intro: can_finish_pump)
  qed
  show ?thesis
  proof (cases "ct_pump s")
    case (Reading r)
    let ?p = "pump_read R C (request_reaction dbgf) r"
    have step: "pump_step R C dbgf s = Some (?at ?p [])" using Reading s by (simp add: pump_step_def)
    have left: "?left (?at ?p []) = ?left s"
      using pump_read_pending [OF R] Reading s by (simp add: requests_left_def)
    from pump_read_item [of R C dbgf r] sending left go [of "[]" ?p]
    have "can_finish L R T C dbg dbgf act (?at ?p [])" by auto
    with step show ?thesis by (rule can_finish_pump)
  next
    case (Sending x go_on r)
    with sending [of x go_on r] here show ?thesis by simp
  next
    case Stopped
    with go [of "[]" Stopped] here show ?thesis by simp
  qed
qed

text \<open>
  The stream still takes every chunk that is queued or to come, or the drain has ended because the
  sender is gone.
\<close>

definition wire_ready :: "leb128 \<Rightarrow> 't send_ops \<Rightarrow> stream_codecs \<Rightarrow> ('h, 'r, 't) call_tasks \<Rightarrow> item list \<Rightarrow> bool" where
  "wire_ready L T C s outs \<longleftrightarrow>
     (case ct_main s of
        Draining \<Rightarrow> length (ct_responses s) \<le> STREAM_CHANNEL_CAPACITY \<and> (\<exists>chunks t. ct_responses s @ outs = map Inr chunks \<and>
          write_frames L T C (map FResponseChunk chunks) (ct_send s) = (Inr (), t))
      | Joining wrote \<Rightarrow> \<not> ct_resp_tx s
      | Closed \<Rightarrow> False)"

text \<open>The main task makes room for a chunk of the handler.\<close>

lemma main_makes_room:
  assumes ready: "wire_ready L T C s outs" and main: "ct_main s = Draining" and full: "ct_responses s \<noteq> []"
  obtains s1 where "main_step L T C dbg s = Some s1" "wire_ready L T C s1 outs"
    "s1 = s\<lparr>ct_responses := tl (ct_responses s), ct_send := ct_send s1\<rparr>"
proof -
  from ready main obtain chunks t where w: "ct_responses s @ outs = map Inr chunks"
    "write_frames L T C (map FResponseChunk chunks) (ct_send s) = (Inr (), t)"
    and cap: "length (ct_responses s) \<le> STREAM_CHANNEL_CAPACITY" by (auto simp: wire_ready_def)
  with full obtain c cs rest where c: "chunks = c # cs" "ct_responses s = Inr c # rest"
    by (cases chunks; cases "ct_responses s") auto
  with w obtain t1 where "write_response_chunk L T (ct_send s) c = (Inr (), t1)"
    "write_frames L T C (map FResponseChunk cs) t1 = (Inr (), t)"
    by (auto split: prod.splits sum.splits)
  with main c w(1) cap show thesis
    by (intro that [of "s\<lparr>ct_responses := rest, ct_send := t1\<rparr>"])
      (auto simp: main_step_def wire_ready_def)
qed

lemmas handler_run_induct = handler_run.raw_induct [rotated, consumes 1, case_names handler]

definition finishes_from ::
  "leb128 \<Rightarrow> 'r recv_ops \<Rightarrow> 't send_ops \<Rightarrow> stream_codecs \<Rightarrow> (string \<Rightarrow> string) \<Rightarrow> (streaming_frame \<Rightarrow> string) \<Rightarrow>
   ('h \<Rightarrow> 'h handler_action) \<Rightarrow> 'h \<Rightarrow> item list \<Rightarrow> bool \<Rightarrow> item list \<Rightarrow> bool" where
  "finishes_from L R T C dbg dbgf act h requests tx outs \<longleftrightarrow>
     (\<forall>s :: ('h, 'r, 't) call_tasks. ct_handler s = Running h \<longrightarrow> requests_left R C dbgf s = requests \<longrightarrow>
       ct_resp_tx s = tx \<longrightarrow> wire_ready L T C s outs \<longrightarrow> can_finish L R T C dbg dbgf act s)"

text \<open>A move of the handler to a state from which the call can be finished.\<close>

lemma finishes_after:
  assumes "finishes_from L R T C dbg dbgf act h requests tx outs" "handler_step act s = Some s1"
    and "ct_handler s1 = Running h" "requests_left R C dbgf s1 = requests" "ct_resp_tx s1 = tx" "wire_ready L T C s1 outs"
  shows "can_finish L R T C dbg dbgf act s"
  using assms(1,3-6) by (intro can_finish_handler [OF assms(2)]) (simp add: finishes_from_def)

text \<open>One item for a handler that asks, once the pump has delivered it or has stopped.\<close>

lemma ask_finishes:
  assumes act: "act h = NextRequest k"
    and later: "finishes_from L R T C dbg dbgf act (k (case requests of [] \<Rightarrow> None | x # _ \<Rightarrow> Some x)) (tl requests) tx outs"
    and s: "ct_handler s = Running h" "requests_left R C dbgf s = requests" "ct_resp_tx s = tx" "wire_ready L T C s outs"
    and ready: "\<not> ct_req_rx s \<or> ct_requests s \<noteq> [] \<or> ct_pump s = Stopped"
  shows "can_finish L R T C dbg dbgf act s"
proof (cases "ct_req_rx s \<and> ct_requests s \<noteq> []")
  case True
  then obtain x xs where q: "ct_requests s = x # xs" by (cases "ct_requests s") auto
  with True s(2) have rs: "requests = x # xs @ pump_pending R C (request_reaction dbgf) (ct_pump s)"
    by (simp add: requests_left_def)
  show ?thesis
    by (rule finishes_after [OF later, of _ "s\<lparr>ct_requests := xs, ct_handler := Running (k (Some x))\<rparr>"])
      (use True q rs act s in \<open>auto simp: handler_step_def requests_left_def wire_ready_def split: main_phase.splits\<close>)
next
  case False
  with s(2) ready have rs: "requests = []" by (auto simp: requests_left_def)
  show ?thesis
    by (rule finishes_after [OF later, of _ "s\<lparr>ct_handler := Running (k None)\<rparr>"])
      (use False ready rs act s in \<open>auto simp: handler_step_def requests_left_def wire_ready_def split: main_phase.splits\<close>)
qed

lemma request_finishes:
  assumes R: "quic_recv R content ended" and act: "act h = NextRequest k"
    and later: "finishes_from L R T C dbg dbgf act (k (case requests of [] \<Rightarrow> None | x # _ \<Rightarrow> Some x)) (tl requests) tx outs"
  shows "finishes_from L R T C dbg dbgf act h requests tx outs"
  unfolding finishes_from_def
proof (intro allI impI)
  fix s
  assume s: "ct_handler s = Running h" "requests_left R C dbgf s = requests" "ct_resp_tx s = tx" "wire_ready L T C s outs"
  note ask = ask_finishes [where act = act, OF act later]
  show "can_finish L R T C dbg dbgf act s"
  proof (cases "ct_req_rx s \<and> ct_requests s = []")
    case True
    then have "ct_req_rx s" "ct_requests s = []" by simp_all
    then show ?thesis
      by (rule pump_feeds [OF R]) (rule ask, use s in \<open>auto simp: wire_ready_def split: main_phase.splits\<close>)
  next
    case False
    then show ?thesis by (intro ask s) auto
  qed
qed

text \<open>One response of a handler whose sender is open: the main task makes room when the queue is full.\<close>

lemma send_finishes:
  assumes act: "act h = SendResponse x k" and later: "finishes_from L R T C dbg dbgf act (k True) requests True outs"
  shows "finishes_from L R T C dbg dbgf act h requests True (x # outs)"
  unfolding finishes_from_def
proof (intro allI impI)
  fix s
  assume s: "ct_handler s = Running h" "requests_left R C dbgf s = requests" "ct_resp_tx s = True"
    "wire_ready L T C s (x # outs)"
  then have main: "ct_main s = Draining" by (auto simp: wire_ready_def split: main_phase.splits)
  have send: "can_finish L R T C dbg dbgf act u"
    if "u = s\<lparr>ct_responses := q, ct_send := t\<rparr>" "length q < STREAM_CHANNEL_CAPACITY" "wire_ready L T C u (x # outs)"
    for u q t
    by (rule finishes_after [OF later, of _ "u\<lparr>ct_responses := q @ [x], ct_handler := Running (k True)\<rparr>"])
      (use that act s main in \<open>auto simp: handler_step_def bounded_send_def requests_left_def wire_ready_def\<close>)
  show "can_finish L R T C dbg dbgf act s"
  proof (cases "length (ct_responses s) < STREAM_CHANNEL_CAPACITY")
    case True
    with send [where u = s and q = "ct_responses s" and t = "ct_send s"] s(4) show ?thesis by simp
  next
    case False
    then have "ct_responses s \<noteq> []" by (auto simp: STREAM_CHANNEL_CAPACITY_def)
    from main_makes_room [OF s(4) main this] obtain s1 where
      s1: "main_step L T C dbg s = Some s1" "wire_ready L T C s1 (x # outs)"
      "s1 = s\<lparr>ct_responses := tl (ct_responses s), ct_send := ct_send s1\<rparr>" .
    from s(4) main have room: "length (tl (ct_responses s)) < STREAM_CHANNEL_CAPACITY"
      by (auto simp: wire_ready_def STREAM_CHANNEL_CAPACITY_def)
    have "can_finish L R T C dbg dbgf act s1" by (rule send [OF s1(3) room s1(2)])
    with s1(1) show ?thesis by (rule can_finish_main)
  qed
qed

lemma handler_finishes:
  assumes R: "quic_recv R content ended"
  shows "handler_run act h requests tx = Some res \<Longrightarrow> finishes_from L R T C dbg dbgf act h requests tx (fst res)"
proof (induction rule: handler_run_induct)
  case (handler run act h requests tx res)
  note IH = handler.IH and run = handler.hyps
  show ?case
  proof (cases "act h")
    case (NextRequest k)
    with run have "run act (k (case requests of [] \<Rightarrow> None | x # _ \<Rightarrow> Some x)) (tl requests) tx = Some res"
      by (cases requests) simp_all
    from request_finishes [OF R NextRequest IH [OF this]] show ?thesis .
  next
    case (SendResponse x k)
    show ?thesis
    proof (cases tx)
      case True
      with run SendResponse obtain ys j where
        r: "run act (k True) requests True = Some (ys, j)" "res = (x # ys, j)"
        by (auto simp: Option.bind_eq_Some_conv)
      from send_finishes [OF SendResponse IH [OF r(1)]] r(2) True show ?thesis by simp
    next
      case False
      with run SendResponse have "run act (k False) requests tx = Some res" by simp
      note later = IH [OF this]
      show ?thesis unfolding finishes_from_def
        by (intro allI impI, rule finishes_after [OF later, of _ "_\<lparr>ct_handler := Running (k False)\<rparr>"])
          (use False SendResponse in \<open>auto simp: handler_step_def bounded_send_def requests_left_def wire_ready_def
            split: main_phase.splits\<close>)
    qed
  next
    case (DropRequests h1)
    with run have "run act h1 [] tx = Some res" by simp
    note later = IH [OF this]
    show ?thesis unfolding finishes_from_def
      by (intro allI impI, rule finishes_after [OF later, of _ "_\<lparr>ct_req_rx := False, ct_requests := [], ct_handler := Running h1\<rparr>"])
        (use DropRequests in \<open>auto simp: handler_step_def requests_left_def wire_ready_def split: main_phase.splits\<close>)
  next
    case (DropSender h1)
    with run have "run act h1 requests False = Some res" by simp
    note later = IH [OF this]
    show ?thesis unfolding finishes_from_def
      by (intro allI impI, rule finishes_after [OF later, of _ "_\<lparr>ct_resp_tx := False, ct_handler := Running h1\<rparr>"])
        (use DropSender in \<open>auto simp: handler_step_def requests_left_def wire_ready_def split: main_phase.splits\<close>)
  next
    case (Return j)
    show ?thesis unfolding finishes_from_def
    proof (intro allI impI)
      fix s
      assume "ct_handler s = Running h" "requests_left R C dbgf s = requests" "wire_ready L T C s (fst res)"
      with Return have "handler_step act s =
          Some (s\<lparr>ct_req_rx := False, ct_requests := [], ct_resp_tx := False, ct_handler := Joined j\<rparr>)"
        by (simp add: handler_step_def)
      then show "can_finish L R T C dbg dbgf act s"
        by (rule can_finish_handler) (rule joined_finishes, simp_all)
    qed
  qed
qed

lemma reachable_wire_ready:
  assumes inv: "tasks_inv L R T C dbg dbgf act (Some (map Inr chunks, j)) send0 s" and main: "ct_main s = Draining \<or> ct_main s = Joining False"
    and wire: "write_frames L T C (map FResponseChunk chunks) send0 = (Inr (), t)"
  obtains outs where "handler_rest R C dbgf act s = Some (outs, j)" "wire_ready L T C s outs"
proof -
  from inv main have "\<exists>sent. write_frames L T C (map FResponseChunk sent) send0 = (Inr (), ct_send s) \<and>
    Some (map Inr chunks, j) = with_sent (map Inr sent @ ct_responses s) (handler_rest R C dbgf act s)"
    unfolding tasks_inv_def by (elim disjE) (simp_all, clarsimp, fastforce)
  then obtain sent where sent: "write_frames L T C (map FResponseChunk sent) send0 = (Inr (), ct_send s)"
    "with_sent (map Inr sent @ ct_responses s) (handler_rest R C dbgf act s) = Some (map Inr chunks, j)" by metis
  then obtain outs where outs: "handler_rest R C dbgf act s = Some (outs, j)"
    "map Inr chunks = map Inr sent @ ct_responses s @ outs"
    by (cases "handler_rest R C dbgf act s") (auto simp: with_sent_def)
  then obtain more_chunks where m: "chunks = sent @ more_chunks" "ct_responses s @ outs = map Inr more_chunks"
    by (auto simp: map_eq_append_conv append_eq_map_conv inj_map_eq_map)
  have "write_frames L T C (map FResponseChunk more_chunks) (ct_send s) = (Inr (), t)"
    using wire write_frames_more [OF sent(1), of "map FResponseChunk more_chunks"] m(1) by simp
  with inv main m(2) have "wire_ready L T C s outs" by (auto simp: wire_ready_def tasks_inv_def)
  with outs(1) show thesis by (rule that)
qed

text \<open>On a stream that takes every chunk the drain does not end early.\<close>

lemma drain_not_cut:
  assumes inv: "tasks_inv L R T C dbg dbgf act (Some (map Inr chunks, j)) send0 s"
    and wire: "write_frames L T C (map FResponseChunk chunks) send0 = (Inr (), t)"
    and step: "task_step L R T C dbg dbgf act k s = Some s'" and main: "ct_main s \<noteq> Joining True"
  shows "ct_main s' \<noteq> Joining True"
proof (cases "k = MainTask \<and> ct_main s = Draining")
  case True
  with reachable_wire_ready [OF inv _ wire] obtain outs where ready: "wire_ready L T C s outs" by blast
  show ?thesis
  proof (cases "ct_responses s")
    case Nil
    with True step show ?thesis by (auto simp: main_step_def split: if_splits)
  next
    case (Cons x xs)
    with True main_makes_room [OF ready, of dbg] obtain s1 where
      "main_step L T C dbg s = Some s1" "ct_main s1 = ct_main s"
      by (metis call_tasks.select_convs(7) call_tasks.surjective call_tasks.update_convs(5,8) list.distinct(1))
    with True step show ?thesis by simp
  qed
next
  case False
  with step main show ?thesis
    by (cases k) (auto simp: pump_step_def main_step_def handler_step_fields Let_def
        split: option.splits main_phase.splits handler_task.splits prod.splits)
qed

lemma drain_never_cut:
  assumes R: "quic_recv R content ended"
    and wire: "write_frames L T C (map FResponseChunk chunks) send0 = (Inr (), t)"
  shows "tasks_run L R T C dbg dbgf act sched s = Some s' \<Longrightarrow>
    tasks_inv L R T C dbg dbgf act (Some (map Inr chunks, j)) send0 s \<Longrightarrow> ct_main s \<noteq> Joining True \<Longrightarrow>
    ct_main s' \<noteq> Joining True"
proof (induction sched arbitrary: s)
  case (Cons k sched)
  from Cons.prems(1) obtain s1 where s1: "task_step L R T C dbg dbgf act k s = Some s1"
    "tasks_run L R T C dbg dbgf act sched s1 = Some s'" by (auto split: option.splits)
  from s1(1) have "tasks_run L R T C dbg dbgf act [k] s = Some s1" by simp
  from tasks_run_inv [OF R this Cons.prems(2)] Cons.IH [OF s1(2)]
    drain_not_cut [OF Cons.prems(2) wire s1(1) Cons.prems(3)] show ?case by blast
qed simp

lemma reachable_can_finish:
  assumes R: "quic_recv R content ended"
    and alone: "handler_run act h (the (stream_items R C (request_reaction dbgf) recv)) True = Some (map Inr chunks, j)"
    and wire: "write_frames L T C (map FResponseChunk chunks) send = (Inr (), t)"
    and run: "tasks_run L R T C dbg dbgf act sched (call_spawn h recv send) = Some s"
  shows "can_finish L R T C dbg dbgf act s"
proof -
  have inv0: "tasks_inv L R T C dbg dbgf act (Some (map Inr chunks, j)) send (call_spawn h recv send)"
    using call_spawn_inv [of L R T C dbg dbgf act h recv send] alone by simp
  note inv = tasks_run_inv [OF R run inv0]
  have main: "ct_main s \<noteq> Joining True"
    by (rule drain_never_cut [OF R wire run inv0]) (simp add: call_spawn_def)
  show ?thesis
  proof (cases "ct_main s = Closed")
    case True
    then show ?thesis by (auto simp: can_finish_def intro!: exI [of _ "[]"])
  next
    case False
    with main have "ct_main s = Draining \<or> ct_main s = Joining False" by (metis main_phase.exhaust)
    from reachable_wire_ready [OF inv this wire] obtain outs where
      outs: "handler_rest R C dbgf act s = Some (outs, j)" "wire_ready L T C s outs" .
    show ?thesis
    proof (cases "ct_handler s")
      case (Running h')
      with outs(1) have "handler_run act h' (requests_left R C dbgf s) (ct_resp_tx s) = Some (outs, j)"
        by (simp add: handler_rest_def)
      from handler_finishes [OF R this, where L = L and T = T and C = C and dbg = dbg and dbgf = dbgf] Running outs(2) show ?thesis by (auto simp: finishes_from_def)
    next
      case (Joined j')
      with inv show ?thesis by (intro joined_finishes) (auto simp: tasks_inv_def)
    qed
  qed
qed

text \<open>A closed call has written what the sequential substream writes.\<close>

lemma closed_call_reply:
  assumes R: "quic_recv R content ended" and M: "mpsc M live"
    and accepted: "streaming_negotiate_open L R T C registry env send recv = (Some (h, ctx), send1, recv1)"
    and alone: "handler_run act (start h ctx) (the (stream_items R C (request_reaction dbgf) recv1)) True =
      Some (outs, j)"
    and run: "tasks_run L R T C dbg dbgf act sched (call_spawn (start h ctx) recv1 send1) = Some s"
      "ct_main s = Closed"
  shows "handle_streaming_substream L R T C M dbg dbgf
      (\<lambda>h ctx items w. (the (handler_run act (start h ctx) items True), w)) registry env send recv w =
    Some (ct_send s, w)"
proof -
  from request_pump.pump_delivers [OF R M mpsc.new_live [OF M], where r = recv1 and C = C and dbgf = dbgf]
  obtain recv2 c where c: "pump_inbound_requests R C dbgf M recv1 (mp_new M) = Some (recv2, c)"
    "mp_items M c = the (stream_items R C (request_reaction dbgf) recv1)"
    by (auto simp: mpsc.new_items [OF M])
  have "ct_send s = snd (tx_finish T (snd (write_frames L T C (response_frames dbg outs j) send1)))"
    using tasks_run_inv [OF R run(1) call_spawn_inv] run(2) alone by (simp add: tasks_inv_def)
  with substream_accepted [OF accepted c(1),
      of "\<lambda>h ctx items w. (the (handler_run act (start h ctx) items True), w)" w outs j w dbg] c(2) alone
  show ?thesis by simp
qed

subsection \<open>Properties\<close>

text \<open>
  C9. The scheduler cannot be observed: whatever the peer sends, whatever the handler does and however the
  three tasks are interleaved, over channels of capacity 16 and on healthy and failing streams, a
  call that has been closed has written exactly the bytes of the sequential substream, whose handler
  is given all requests at once and keeps its sender until it drops it.
\<close>

theorem tasks_write_the_sequential_reply:
  assumes R: "quic_recv R content ended" and M: "mpsc M live"
    and accepted: "streaming_negotiate_open L R T C registry env send recv = (Some (h, ctx), send1, recv1)"
    and alone: "handler_run act (start h ctx) (the (stream_items R C (request_reaction dbgf) recv1)) True =
      Some (outs, j)"
    and run: "tasks_run L R T C dbg dbgf act sched (call_spawn (start h ctx) recv1 send1) = Some s"
      "ct_main s = Closed"
  shows "handle_streaming_substream L R T C M dbg dbgf
      (\<lambda>h ctx items w. (the (handler_run act (start h ctx) items True), w)) registry env send recv w =
    Some (ct_send s, w)"
  by (rule closed_call_reply [where start = start, OF R M accepted alone run])

text \<open>
  C10. A call never blocks itself: in every state a schedule can reach both queues are within their
  capacity, and the only states in which no task can move are those of a closed call.
\<close>

theorem tasks_never_deadlock:
  assumes R: "quic_recv R content ended"
    and run: "tasks_run L R T C dbg dbgf act sched (call_spawn h recv send) = Some s"
  shows "length (ct_requests s) \<le> 16 \<and> length (ct_responses s) \<le> 16 \<and>
    ((\<forall>t. task_step L R T C dbg dbgf act t s = None) = (ct_main s = Closed))"
proof -
  note inv = tasks_run_inv [OF R run call_spawn_inv]
  have "task_step L R T C dbg dbgf act t s = None" if "ct_main s = Closed" for t
    using that tasks_run_closed [OF run _ that]
    by (cases t) (auto simp: call_spawn_def pump_step_def handler_step_def main_step_def)
  moreover have "ct_main s = Closed" if "\<forall>t. task_step L R T C dbg dbgf act t s = None"
    using some_task_moves [OF inv] that by fastforce
  moreover have "length (ct_requests s) \<le> 16 \<and> length (ct_responses s) \<le> 16"
    using inv by (simp add: tasks_inv_def STREAM_CHANNEL_CAPACITY_def)
  ultimately show ?thesis by blast
qed

text \<open>
  C16. When the handler returns on its requests, sends chunks only, and the stream takes them, then
  however the tasks have been scheduled so far the call can be finished: no schedule runs into a
  state it cannot leave, however many requests and responses there are.
\<close>

theorem tasks_can_finish:
  assumes R: "quic_recv R content ended"
    and alone: "handler_run act h (the (stream_items R C (request_reaction dbgf) recv)) True = Some (map Inr chunks, j)"
    and wire: "write_frames L T C (map FResponseChunk chunks) send = (Inr (), t)"
    and run: "tasks_run L R T C dbg dbgf act sched (call_spawn h recv send) = Some s"
  shows "\<exists>more_steps s'. tasks_run L R T C dbg dbgf act (sched @ more_steps) (call_spawn h recv send) = Some s' \<and>
    ct_main s' = Closed"
  using reachable_can_finish [OF R alone wire run] tasks_run_append [OF run] by (auto simp: can_finish_def)

subsection \<open>An echo handler\<close>

datatype echo_state = EchoAsk | EchoSay item | EchoDone

fun echo_act :: "echo_state \<Rightarrow> echo_state handler_action" where
  "echo_act EchoAsk = NextRequest (\<lambda>x. case x of None \<Rightarrow> EchoDone | Some i \<Rightarrow> EchoSay i)"
| "echo_act (EchoSay i) = SendResponse i (\<lambda>_. EchoAsk)"
| "echo_act EchoDone = Return (Inr (Inr ()))"

lemma echo_run: "handler_run echo_act EchoAsk items True = Some (items, Inr (Inr ()))"
  by (induction items) (simp_all add: handler_run_simps)

text \<open>The items of a stream that holds well-formed frames.\<close>

lemma stream_items_frames:
  assumes R: "quic_recv R content ended" and C: "codecs_ok C" and fs: "list_all (frame_ok C) fs"
    and r: "content r = frames_bytes C fs" "ended r = None"
  shows "the (stream_items R C (request_reaction dbgf) r) = pump_items (request_reaction dbgf) fs"
proof -
  have live: "ch_left (mp_new list_chan) = None" by (simp add: list_chan_def)
  from request_pump.pump_delivers [OF R lc.mpsc_axioms live, where r = r and C = C and dbgf = dbgf]
    request_pump.pump_frames [OF R lc.mpsc_axioms C fs r live, where dbgf = dbgf]
  show ?thesis by auto
qed

abbreviation demo_chunks :: "bytes list" where
  "demo_chunks \<equiv> [[1], [2, 3]]"

definition demo_requests :: bytes where
  "demo_requests = frames_bytes ref_codecs (map FRequestChunk demo_chunks @ [FRequestEnd])"

abbreviation demo_tasks_run where
  "demo_tasks_run \<equiv> tasks_run leb_ref buf_recv buf_send ref_codecs id (\<lambda>_. ''frame'') echo_act"

lemma demo_chunk_frames:
  "list_all (frame_ok ref_codecs) (map FRequestChunk demo_chunks @ [FRequestEnd])"
  "\<forall>f \<in> set (map FResponseChunk demo_chunks). frame_ok ref_codecs f"
  by (simp_all add: frame_ok_def frame_bytes_def payload_within_def MAX_STREAMING_PAYLOAD_LEN_def)

lemma demo_alone:
  assumes "rb_data r = demo_requests" "rb_end r = None"
  shows "handler_run echo_act EchoAsk (the (stream_items buf_recv ref_codecs (request_reaction (\<lambda>_. ''frame'')) r)) True =
    Some (map Inr demo_chunks, Inr (Inr ()))"
  using stream_items_frames [OF buf_rx.quic_recv_axioms ref_codecs_ok demo_chunk_frames(1)
      assms(1) [unfolded demo_requests_def] assms(2)]
  by (simp add: echo_run)

lemma demo_wire:
  assumes "tx_healthy t"
  obtains t' where "write_frames leb_ref buf_send ref_codecs (map FResponseChunk demo_chunks) t = (Inr (), t')"
  using buf_tx.write_frames_ok [OF demo_tx(3) assms demo_chunk_frames(2)] by blast

lemma demo_closes:
  assumes "rb_data r = demo_requests" "rb_end r = None" "tx_healthy t"
  obtains sched s where "demo_tasks_run sched (call_spawn EchoAsk r t) = Some s" "ct_main s = Closed"
proof -
  obtain t' where t': "write_frames leb_ref buf_send ref_codecs (map FResponseChunk demo_chunks) t = (Inr (), t')"
    using assms(3) by (rule demo_wire)
  have "demo_tasks_run [] (call_spawn EchoAsk r t) = Some (call_spawn EchoAsk r t)" by simp
  from reachable_can_finish [OF buf_rx.quic_recv_axioms demo_alone [OF assms(1,2)] t' this] that
  show thesis by (auto simp: can_finish_def)
qed

theorem tasks_can_finish_witness:
  "\<exists>more_steps s'. demo_tasks_run ([PumpTask] @ more_steps) (call_spawn EchoAsk (rx_of demo_requests) tx_new) = Some s' \<and>
     ct_main s' = Closed"
proof -
  let ?s0 = "call_spawn EchoAsk (rx_of demo_requests) tx_new"
  obtain t where t: "write_frames leb_ref buf_send ref_codecs (map FResponseChunk demo_chunks) tx_new = (Inr (), t)"
    using demo_tx(1) by (rule demo_wire)
  obtain s where "demo_tasks_run [PumpTask] ?s0 = Some s"
    by (simp add: pump_step_def call_spawn_def)
  from tasks_can_finish [OF buf_rx.quic_recv_axioms demo_alone t this] show ?thesis by simp
qed

theorem tasks_never_deadlock_witness:
  "\<exists>sched s. demo_tasks_run sched (call_spawn EchoAsk (rx_of demo_requests) tx_new) = Some s \<and> ct_main s = Closed \<and>
     (\<forall>t. task_step leb_ref buf_recv buf_send ref_codecs id (\<lambda>_. ''frame'') echo_act t s = None) \<and>
     length (ct_responses s) \<le> 16"
proof -
  have "rb_data (rx_of demo_requests) = demo_requests" "rb_end (rx_of demo_requests) = None" by simp_all
  from demo_closes [OF this demo_tx(1)] obtain sched s where
    s: "demo_tasks_run sched (call_spawn EchoAsk (rx_of demo_requests) tx_new) = Some s" "ct_main s = Closed" .
  from tasks_never_deadlock [OF buf_rx.quic_recv_axioms s(1)] s show ?thesis by blast
qed

theorem tasks_write_the_sequential_reply_witness:
  "\<exists>recv recv1 send1 sched s.
     streaming_negotiate_open leb_ref buf_recv buf_send ref_codecs demo_registry demo_env tx_new recv =
       (Some (0, env_context demo_env), send1, recv1) \<and>
     demo_tasks_run sched (call_spawn EchoAsk recv1 send1) = Some s \<and> ct_main s = Closed \<and>
     handle_streaming_substream leb_ref buf_recv buf_send ref_codecs list_chan id (\<lambda>_. ''frame'')
       (\<lambda>h ctx items w. (the (handler_run echo_act ((\<lambda>h ctx. EchoAsk) h ctx) items True), w))
       demo_registry demo_env tx_new recv (0 :: nat) = Some (ct_send s, 0)"
proof -
  let ?fs = "map FRequestChunk demo_chunks @ [FRequestEnd]"
  let ?r = "rx_of (frames_bytes ref_codecs (FOpenRequest demo_open # ?fs))"
  have h: "lookup_streaming demo_registry (oreq_method_name demo_open) = Some 0" by code_simp
  have r: "rb_data ?r = frames_bytes ref_codecs (FOpenRequest demo_open # ?fs)" "rb_end ?r = None" by simp_all
  obtain recv send1 recv1 where
    neg: "streaming_negotiate_open leb_ref buf_recv buf_send ref_codecs demo_registry demo_env tx_new recv =
      (Some (0, env_context demo_env), send1, recv1)"
    and r1: "rb_data recv1 = demo_requests" "rb_end recv1 = None" and t1: "tx_healthy send1"
    using open_accepted [OF demo_tx(3) buf_rx.quic_recv_axioms ref_codecs_ok buf_tx.quic_send_axioms
        demo_tx(1,2) demo_frames_ok(1) r h demo_frames_ok(3), of demo_env]
    unfolding demo_requests_def by metis
  obtain sched s where s: "demo_tasks_run sched (call_spawn EchoAsk recv1 send1) = Some s" "ct_main s = Closed"
    using r1 t1 by (rule demo_closes)
  from tasks_write_the_sequential_reply [where start = "\<lambda>h ctx. EchoAsk", OF buf_rx.quic_recv_axioms
      lc.mpsc_axioms neg demo_alone [OF r1] s, of 0] neg s show ?thesis
    by (intro exI [of _ recv] exI [of _ recv1] exI [of _ send1] exI [of _ sched] exI [of _ s] conjI)
qed

end
