(* ===== verification/Any_Handler.thy ===== *)
theory Any_Handler
  imports Server_Tasks
begin

section \<open>A streaming call with an arbitrary handler\<close>

text \<open>
  \<open>Server_Tasks\<close> runs a handler that does one thing after the other. A handler may also poll both
  channels at once, move the ends of its channels into tasks it spawns, or keep them open after it has
  returned; what it sends then depends on the schedule. Here nothing is assumed of it: the holders of
  the request stream and of the response sender (clones included) may use and drop them in any
  order, before or after the handler returns, and the theory follows what they took and what was accepted
  of what they sent. The request pump and the task of the substream are those of \<open>Server_Tasks\<close>.
\<close>

record ('r, 't) any_call =
  ac_tasks :: "(unit, 'r, 't) call_tasks"
  ac_taken :: "item list"
  ac_end_seen :: bool
  ac_sent :: "item list"

definition any_spawn :: "'r \<Rightarrow> 't \<Rightarrow> ('r, 't) any_call" where
  "any_spawn recv send =
     \<lparr>ac_tasks = call_spawn () recv send, ac_taken = [], ac_end_seen = False, ac_sent = []\<rparr>"

datatype any_event =
    RequestPump
  | MainTask
  | TakeRequest
  | SeeEndOfRequests
  | SendItem item
  | DropRequestStream
  | DropResponseSender
  | ReturnResult join_result

text \<open>
  The end of the requests is noted while the call is open: closing it aborts the pump, and a holder
  that has outlived the call then sees an end as well.
\<close>

fun any_step :: "leb128 \<Rightarrow> 'r recv_ops \<Rightarrow> 't send_ops \<Rightarrow> stream_codecs \<Rightarrow> (string \<Rightarrow> string) \<Rightarrow>
  (streaming_frame \<Rightarrow> string) \<Rightarrow> any_event \<Rightarrow> ('r, 't) any_call \<Rightarrow> ('r, 't) any_call option" where
  "any_step L R T C dbg dbgf RequestPump s =
     map_option (\<lambda>t. s\<lparr>ac_tasks := t\<rparr>) (pump_step R C dbgf (ac_tasks s))"
| "any_step L R T C dbg dbgf MainTask s =
     map_option (\<lambda>t. s\<lparr>ac_tasks := t\<rparr>) (main_step L T C dbg (ac_tasks s))"
| "any_step L R T C dbg dbgf TakeRequest s =
     (case ct_requests (ac_tasks s) of
        x # xs \<Rightarrow> Some (s\<lparr>ac_tasks := ac_tasks s\<lparr>ct_requests := xs\<rparr>, ac_taken := ac_taken s @ [x]\<rparr>)
      | [] \<Rightarrow> None)"
| "any_step L R T C dbg dbgf SeeEndOfRequests s =
     (if ct_req_rx (ac_tasks s) \<and> ct_requests (ac_tasks s) = [] \<and> ct_pump (ac_tasks s) = Stopped then
        Some (s\<lparr>ac_end_seen := ac_end_seen s \<or> ct_main (ac_tasks s) \<noteq> Closed\<rparr>)
      else None)"
| "any_step L R T C dbg dbgf (SendItem x) s =
     (if \<not> ct_resp_tx (ac_tasks s) then None
      else case bounded_send (ct_main (ac_tasks s) = Draining) (ct_responses (ac_tasks s)) x of
          None \<Rightarrow> None
        | Some (sent, responses) \<Rightarrow> Some (s\<lparr>ac_tasks := ac_tasks s\<lparr>ct_responses := responses\<rparr>,
            ac_sent := ac_sent s @ (if sent then [x] else [])\<rparr>))"
| "any_step L R T C dbg dbgf DropRequestStream s =
     Some (s\<lparr>ac_tasks := ac_tasks s\<lparr>ct_req_rx := False, ct_requests := []\<rparr>\<rparr>)"
| "any_step L R T C dbg dbgf DropResponseSender s =
     Some (s\<lparr>ac_tasks := ac_tasks s\<lparr>ct_resp_tx := False\<rparr>\<rparr>)"
| "any_step L R T C dbg dbgf (ReturnResult j) s =
     (case ct_handler (ac_tasks s) of
        Running _ \<Rightarrow> Some (s\<lparr>ac_tasks := ac_tasks s\<lparr>ct_handler := Joined j\<rparr>\<rparr>)
      | Joined _ \<Rightarrow> None)"

fun any_run :: "leb128 \<Rightarrow> 'r recv_ops \<Rightarrow> 't send_ops \<Rightarrow> stream_codecs \<Rightarrow> (string \<Rightarrow> string) \<Rightarrow>
  (streaming_frame \<Rightarrow> string) \<Rightarrow> any_event list \<Rightarrow> ('r, 't) any_call \<Rightarrow> ('r, 't) any_call option" where
  "any_run L R T C dbg dbgf [] s = Some s"
| "any_run L R T C dbg dbgf (e # es) s =
     (case any_step L R T C dbg dbgf e s of
        None \<Rightarrow> None
      | Some s1 \<Rightarrow> any_run L R T C dbg dbgf es s1)"

subsection \<open>What every run keeps\<close>

definition requests_inv :: "'r recv_ops \<Rightarrow> stream_codecs \<Rightarrow> (streaming_frame \<Rightarrow> string) \<Rightarrow> item list \<Rightarrow>
  ('r, 't) any_call \<Rightarrow> bool" where
  "requests_inv R C dbgf items s \<longleftrightarrow>
     (let t = ac_tasks s in
      length (ct_requests t) \<le> STREAM_CHANNEL_CAPACITY \<and>
      prefix (ac_taken s @ ct_requests t) items \<and>
      (ac_end_seen s \<longrightarrow> ac_taken s = items) \<and>
      (ct_main t = Closed \<longrightarrow> ct_pump t = Stopped) \<and>
      (if ct_req_rx t then ct_main t \<noteq> Closed \<longrightarrow>
         ac_taken s @ ct_requests t @ pump_pending R C (request_reaction dbgf) (ct_pump t) = items
       else ct_requests t = []))"

definition responses_inv :: "leb128 \<Rightarrow> 't send_ops \<Rightarrow> stream_codecs \<Rightarrow> (string \<Rightarrow> string) \<Rightarrow> 't \<Rightarrow>
  ('r, 't) any_call \<Rightarrow> bool" where
  "responses_inv L T C dbg send0 s \<longleftrightarrow>
     (let t = ac_tasks s in
      length (ct_responses t) \<le> STREAM_CHANNEL_CAPACITY \<and>
      (ct_main t \<noteq> Draining \<longrightarrow> ct_responses t = []) \<and>
      (ct_main t = Joining False \<longrightarrow> \<not> ct_resp_tx t) \<and>
      (case ct_main t of
         Joining True \<Rightarrow> \<forall>j. ct_send t = snd (write_frames L T C (response_frames dbg (ac_sent s) j) send0)
       | Closed \<Rightarrow> \<exists>j. ct_handler t = Joined j \<and>
           ct_send t = snd (tx_finish T (snd (write_frames L T C (response_frames dbg (ac_sent s) j) send0)))
       | _ \<Rightarrow> \<exists>chunks. write_frames L T C (map FResponseChunk chunks) send0 = (Inr (), ct_send t) \<and>
           ac_sent s = map Inr chunks @ ct_responses t))"

lemmas requests_inv_eq = requests_inv_def [unfolded Let_def]

lemmas responses_inv_eq = responses_inv_def [unfolded Let_def]

lemma requests_inv_spawn:
  "requests_inv R C dbgf (the (stream_items R C (request_reaction dbgf) recv)) (any_spawn recv send)"
  by (simp add: requests_inv_eq any_spawn_def call_spawn_def)

lemma responses_inv_spawn: "responses_inv L T C dbg send (any_spawn recv send)"
  by (simp add: responses_inv_eq any_spawn_def call_spawn_def)

lemma pump_step_fields:
  assumes "pump_step R C dbgf s = Some s'"
  obtains p q where "pump_poll R C (request_reaction dbgf) (ct_req_rx s) (ct_requests s) (ct_pump s) = Some (p, q)"
    "s' = s\<lparr>ct_pump := p, ct_requests := q\<rparr>"
  using assms by (auto simp: pump_step_def split: option.splits)

lemma pump_poll_closed:
  "pump_poll R C react False q p = Some (p', q') \<Longrightarrow> q' = q"
  by (cases p) (auto simp: bounded_send_def split: option.splits)

lemma requests_inv_pump:
  assumes R: "quic_recv R content ended" and step: "pump_step R C dbgf (ac_tasks s) = Some t"
    and inv: "requests_inv R C dbgf items s"
  shows "requests_inv R C dbgf items (s\<lparr>ac_tasks := t\<rparr>)"
proof -
  from step obtain p q where
    p: "pump_poll R C (request_reaction dbgf) (ct_req_rx (ac_tasks s)) (ct_requests (ac_tasks s)) (ct_pump (ac_tasks s)) = Some (p, q)"
    and t: "t = ac_tasks s\<lparr>ct_pump := p, ct_requests := q\<rparr>" by (rule pump_step_fields)
  have open_call: "ct_main (ac_tasks s) \<noteq> Closed" using p inv by (auto simp: requests_inv_eq)
  have bound: "length q \<le> STREAM_CHANNEL_CAPACITY"
    using pump_poll_bound [OF p] inv by (simp add: requests_inv_eq)
  show ?thesis
  proof (cases "ct_req_rx (ac_tasks s)")
    case True
    with inv open_call p pump_poll_pending [OF R] have
      "ac_taken s @ q @ pump_pending R C (request_reaction dbgf) p = items"
      by (simp add: requests_inv_eq)
    moreover from this have "prefix (ac_taken s @ q) items" by (metis append_assoc prefixI)
    ultimately show ?thesis using True inv t bound open_call by (simp add: requests_inv_eq)
  next
    case False
    with p inv have "q = []" using pump_poll_closed [of R C _ "ct_requests (ac_tasks s)"] by (simp add: requests_inv_eq)
    with False inv t bound open_call show ?thesis by (auto simp: requests_inv_eq)
  qed
qed

lemma main_step_fields:
  assumes "main_step L T C dbg s = Some s'"
  shows "ct_requests s' = ct_requests s" "ct_req_rx s' = ct_req_rx s" "ct_resp_tx s' = ct_resp_tx s"
    "ct_handler s' = ct_handler s" "if ct_main s' = Closed then ct_pump s' = Stopped else ct_pump s' = ct_pump s"
    "ct_main s \<noteq> Closed"
  using assms
  by (auto simp: main_step_def Let_def split: main_phase.splits list.splits sum.splits prod.splits if_splits
      handler_task.splits)

lemma requests_inv_main:
  assumes "main_step L T C dbg (ac_tasks s) = Some t" "requests_inv R C dbgf items s"
  shows "requests_inv R C dbgf items (s\<lparr>ac_tasks := t\<rparr>)"
  using main_step_fields [OF assms(1)] assms(2) by (auto simp: requests_inv_eq split: if_splits)

text \<open>The task of the substream: every branch of its step, with what the holders have sent so far.\<close>

lemma responses_inv_main:
  assumes step: "main_step L T C dbg (ac_tasks s) = Some t" and inv: "responses_inv L T C dbg send0 s"
  shows "responses_inv L T C dbg send0 (s\<lparr>ac_tasks := t\<rparr>)"
proof -
  have sent: "\<exists>chunks. write_frames L T C (map FResponseChunk chunks) send0 = (Inr (), ct_send (ac_tasks s)) \<and>
      ac_sent s = map Inr chunks @ ct_responses (ac_tasks s)"
    if "ct_main (ac_tasks s) = Draining \<or> ct_main (ac_tasks s) = Joining False"
    using inv that by (auto simp: responses_inv_eq)
  show ?thesis
    using step
  proof (cases rule: main_step_cases)
    case (chunk_written chunk rest t1)
    with sent obtain chunks where
      w: "write_frames L T C (map FResponseChunk chunks) send0 = (Inr (), ct_send (ac_tasks s))"
      "ac_sent s = map Inr chunks @ Inr chunk # rest" by auto
    have "write_frames L T C (map FResponseChunk (chunks @ [chunk])) send0 = (Inr (), t1)"
      using chunk_written(3) by (simp add: write_frames_more [OF w(1)])
    with w inv chunk_written show ?thesis
      by (auto simp: responses_inv_eq intro!: exI [of _ "chunks @ [chunk]"])
  next
    case (chunk_failed chunk rest e t1)
    with sent obtain chunks where
      w: "write_frames L T C (map FResponseChunk chunks) send0 = (Inr (), ct_send (ac_tasks s))"
      "ac_sent s = map Inr chunks @ Inr chunk # rest" by auto
    with chunk_failed show ?thesis by (simp add: responses_inv_eq response_after_chunks [OF w(1)])
  next
    case (error_sent err rest)
    with sent obtain chunks where
      w: "write_frames L T C (map FResponseChunk chunks) send0 = (Inr (), ct_send (ac_tasks s))"
      "ac_sent s = map Inr chunks @ Inl err # rest" by auto
    with error_sent show ?thesis
      by (auto simp: responses_inv_eq response_after_chunks [OF w(1)] split: prod.splits sum.splits)
  next
    case senders_gone
    with inv sent show ?thesis by (auto simp: responses_inv_eq)
  next
    case (joined wrote j)
    show ?thesis
    proof (cases wrote)
      case True
      with joined inv show ?thesis by (auto simp: responses_inv_eq)
    next
      case False
      with joined sent inv obtain chunks where
        w: "write_frames L T C (map FResponseChunk chunks) send0 = (Inr (), ct_send (ac_tasks s))"
        "ac_sent s = map Inr chunks" by (auto simp: responses_inv_eq)
      with joined False inv response_after_chunks [OF w(1), of dbg "[]" j] show ?thesis
        by (auto simp: responses_inv_eq split: prod.splits sum.splits)
    qed
  qed
qed

lemma any_step_requests:
  assumes R: "quic_recv R content ended" and step: "any_step L R T C dbg dbgf e s = Some s'"
    and inv: "requests_inv R C dbgf items s"
  shows "requests_inv R C dbgf items s'"
proof (cases e)
  case RequestPump
  with step requests_inv_pump [OF R _ inv] show ?thesis by auto
next
  case MainTask
  with step requests_inv_main [OF _ inv] show ?thesis by auto
next
  case TakeRequest
  with step obtain x xs where q: "ct_requests (ac_tasks s) = x # xs"
    "s' = s\<lparr>ac_tasks := ac_tasks s\<lparr>ct_requests := xs\<rparr>, ac_taken := ac_taken s @ [x]\<rparr>"
    by (auto split: list.splits)
  with inv show ?thesis by (auto simp: requests_inv_eq Let_def)
next
  case SeeEndOfRequests
  with step inv show ?thesis by (auto simp: requests_inv_eq split: if_splits)
next
  case (SendItem x)
  with step inv show ?thesis
    by (auto simp: requests_inv_eq split: if_splits option.splits)
next
  case DropRequestStream
  with step inv show ?thesis by (auto simp: requests_inv_eq append_prefixD)
next
  case DropResponseSender
  with step inv show ?thesis by (auto simp: requests_inv_eq)
next
  case (ReturnResult j)
  with step inv show ?thesis by (auto simp: requests_inv_eq split: handler_task.splits)
qed

lemma any_step_responses:
  assumes step: "any_step L R T C dbg dbgf e s = Some s'" and inv: "responses_inv L T C dbg send0 s"
  shows "responses_inv L T C dbg send0 s'"
proof (cases e)
  case RequestPump
  with step obtain t where "pump_step R C dbgf (ac_tasks s) = Some t" "s' = s\<lparr>ac_tasks := t\<rparr>" by auto
  with inv show ?thesis
    by (auto simp: responses_inv_eq elim!: pump_step_fields split: main_phase.splits bool.splits)
next
  case MainTask
  with step responses_inv_main [OF _ inv] show ?thesis by auto
next
  case TakeRequest
  with step inv show ?thesis
    by (auto simp: responses_inv_eq split: list.splits main_phase.splits bool.splits)
next
  case SeeEndOfRequests
  with step inv show ?thesis
    by (auto simp: responses_inv_eq split: if_splits main_phase.splits bool.splits)
next
  case (SendItem x)
  show ?thesis
  proof (cases "ct_main (ac_tasks s) = Draining")
    case True
    with SendItem step inv show ?thesis
      by (auto simp: responses_inv_eq bounded_send_def split: if_splits)
  next
    case False
    with SendItem step have "s' = s" by (auto simp: bounded_send_def split: if_splits)
    with inv show ?thesis by simp
  qed
next
  case DropRequestStream
  with step inv show ?thesis by (auto simp: responses_inv_eq split: main_phase.splits bool.splits)
next
  case DropResponseSender
  with step inv show ?thesis by (auto simp: responses_inv_eq split: main_phase.splits bool.splits)
next
  case (ReturnResult j)
  with step inv show ?thesis
    by (auto simp: responses_inv_eq split: main_phase.splits bool.splits handler_task.splits)
qed

lemma any_run_inv:
  assumes R: "quic_recv R content ended"
  shows "any_run L R T C dbg dbgf es s = Some s' \<Longrightarrow> requests_inv R C dbgf items s \<Longrightarrow>
    responses_inv L T C dbg send0 s \<Longrightarrow> requests_inv R C dbgf items s' \<and> responses_inv L T C dbg send0 s'"
  by (induction es arbitrary: s)
    (auto split: option.splits dest: any_step_requests [OF R] any_step_responses)

text \<open>Only a holder of the sender, or a handler that has not returned, can keep the call open.\<close>

lemma main_step_blocked:
  "main_step L T C dbg s = None \<longleftrightarrow>
     ct_main s = Closed \<or> ct_main s = Draining \<and> ct_responses s = [] \<and> ct_resp_tx s \<or>
     (\<exists>b. ct_main s = Joining b) \<and> (\<exists>h. ct_handler s = Running h)"
  by (auto simp: main_step_def Let_def split: main_phase.splits list.splits sum.splits prod.splits handler_task.splits)

definition main_work :: "('h, 'r, 't) call_tasks \<Rightarrow> nat" where
  "main_work s = length (ct_responses s) + (case ct_main s of Draining \<Rightarrow> 2 | Joining _ \<Rightarrow> 1 | Closed \<Rightarrow> 0)"

lemma main_step_work:
  assumes "main_step L T C dbg s = Some s'" "ct_main s \<noteq> Draining \<longrightarrow> ct_responses s = []"
  shows "main_work s' < main_work s" "ct_main s' \<noteq> Draining \<longrightarrow> ct_responses s' = []"
  using assms
  by (auto simp: main_step_def Let_def main_work_def
      split: main_phase.splits list.splits sum.splits prod.splits if_splits handler_task.splits)

lemma main_closes:
  assumes "ct_handler (ac_tasks s) = Joined j" "\<not> ct_resp_tx (ac_tasks s)"
    "ct_main (ac_tasks s) \<noteq> Draining \<longrightarrow> ct_responses (ac_tasks s) = []"
  shows "\<exists>n s'. any_run L R T C dbg dbgf (replicate n MainTask) s = Some s' \<and> ct_main (ac_tasks s') = Closed"
  using assms
proof (induction "main_work (ac_tasks s)" arbitrary: s rule: less_induct)
  case less
  show ?case
  proof (cases "main_step L T C dbg (ac_tasks s)")
    case None
    with less.prems(1,2) have "ct_main (ac_tasks s) = Closed" by (simp add: main_step_blocked)
    then show ?thesis by (intro exI [of _ 0] exI [of _ s]) simp
  next
    case (Some t)
    have t: "ct_handler t = Joined j" "\<not> ct_resp_tx t"
      using main_step_fields [OF Some] less.prems(1,2) by simp_all
    from main_step_work [OF Some less.prems(3)] less.hyps [of "s\<lparr>ac_tasks := t\<rparr>"] t obtain n s' where
      "any_run L R T C dbg dbgf (replicate n MainTask) (s\<lparr>ac_tasks := t\<rparr>) = Some s'" "ct_main (ac_tasks s') = Closed"
      by auto
    with Some show ?thesis by (intro exI [of _ "Suc n"] exI [of _ s']) simp
  qed
qed

subsection \<open>A sequential handler is one of them\<close>

fun erased_handler :: "'h handler_task \<Rightarrow> unit handler_task" where
  "erased_handler (Running h) = Running ()"
| "erased_handler (Joined j) = Joined j"

definition erased :: "('h, 'r, 't) call_tasks \<Rightarrow> (unit, 'r, 't) call_tasks" where
  "erased s = \<lparr>ct_pump = ct_pump s, ct_requests = ct_requests s, ct_req_rx = ct_req_rx s,
     ct_handler = erased_handler (ct_handler s), ct_responses = ct_responses s,
     ct_resp_tx = ct_resp_tx s, ct_main = ct_main s, ct_send = ct_send s\<rparr>"

lemma erased_simps [simp]:
  "ct_pump (erased s) = ct_pump s" "ct_requests (erased s) = ct_requests s" "ct_req_rx (erased s) = ct_req_rx s"
  "ct_handler (erased s) = erased_handler (ct_handler s)" "ct_responses (erased s) = ct_responses s"
  "ct_resp_tx (erased s) = ct_resp_tx s" "ct_main (erased s) = ct_main s" "ct_send (erased s) = ct_send s"
  by (simp_all add: erased_def)

lemma erased_pump: "pump_step R C dbgf s = Some s' \<Longrightarrow> pump_step R C dbgf (erased s) = Some (erased s')"
  by (auto simp: pump_step_def erased_def split: option.splits)

lemma erased_main: "main_step L T C dbg s = Some s' \<Longrightarrow> main_step L T C dbg (erased s) = Some (erased s')"
  by (cases "ct_handler s")
    (auto simp: main_step_def erased_def Let_def split: main_phase.splits list.splits sum.splits prod.splits if_splits)

lemma any_run_append:
  "any_run L R T C dbg dbgf es s = Some s1 \<Longrightarrow>
    any_run L R T C dbg dbgf (es @ fs) s = any_run L R T C dbg dbgf fs s1"
  by (induction es arbitrary: s) (auto split: option.splits)

lemma handler_step_any:
  assumes step: "handler_step act s = Some s'" and a: "ac_tasks a = erased s"
  shows "\<exists>es a'. any_run L R T C dbg dbgf es a = Some a' \<and> ac_tasks a' = erased s'"
proof -
  from step obtain h where h: "ct_handler s = Running h"
    by (auto simp: handler_step_def split: handler_task.splits)
  have one: ?thesis if "any_step L R T C dbg dbgf e a = Some a'" "ac_tasks a' = erased s'" for e a'
    using that by (intro exI [of _ "[e]"] exI [of _ a']) simp
  have none: ?thesis if "erased s' = erased s"
    using that a by (intro exI [of _ "[]"] exI [of _ a]) simp
  show ?thesis
  proof (cases "act h")
    case (NextRequest k)
    show ?thesis
    proof (cases "ct_req_rx s \<and> ct_requests s \<noteq> []")
      case True
      then obtain x xs where "ct_requests s = x # xs" by (cases "ct_requests s") auto
      with True step h NextRequest a show ?thesis
        by (intro one [of TakeRequest]) (auto simp: handler_step_def erased_def)
    next
      case False
      with step h NextRequest show ?thesis
        by (intro none) (auto simp: handler_step_def erased_def split: list.splits pump_task.splits if_splits)
    qed
  next
    case (SendResponse x k)
    show ?thesis
    proof (cases "ct_resp_tx s")
      case True
      with step h SendResponse obtain sent q where q:
        "bounded_send (ct_main s = Draining) (ct_responses s) x = Some (sent, q)"
        "s' = s\<lparr>ct_responses := q, ct_handler := Running (k sent)\<rparr>"
        by (auto simp: handler_step_def split: option.splits)
      with True h a show ?thesis
        by (intro one [of "SendItem x"]) (auto simp: erased_def)
    next
      case False
      with step h SendResponse show ?thesis
        by (intro none) (auto simp: handler_step_def bounded_send_def erased_def)
    qed
  next
    case (DropRequests h1)
    with step h a show ?thesis
      by (intro one [of DropRequestStream]) (auto simp: handler_step_def erased_def)
  next
    case (DropSender h1)
    with step h a show ?thesis
      by (intro one [of DropResponseSender]) (auto simp: handler_step_def erased_def)
  next
    case (Return j)
    with step h a show ?thesis
      by (intro exI [of _ "[DropRequestStream, DropResponseSender, ReturnResult j]"])
        (auto simp: handler_step_def erased_def)
  qed
qed

lemma task_step_any:
  assumes "task_step L R T C dbg dbgf act t s = Some s'" "ac_tasks a = erased s"
  shows "\<exists>es a'. any_run L R T C dbg dbgf es a = Some a' \<and> ac_tasks a' = erased s'"
proof (cases t)
  case PumpTask
  with assms erased_pump show ?thesis by (intro exI [of _ "[RequestPump]"]) fastforce
next
  case HandlerTask
  with assms handler_step_any show ?thesis by simp
next
  case MainTask
  with assms erased_main show ?thesis by (intro exI [of _ "[any_event.MainTask]"]) fastforce
qed

lemma tasks_run_any:
  "tasks_run L R T C dbg dbgf act sched s = Some s' \<Longrightarrow> ac_tasks a = erased s \<Longrightarrow>
    \<exists>es a'. any_run L R T C dbg dbgf es a = Some a' \<and> ac_tasks a' = erased s'"
proof (induction sched arbitrary: s a)
  case Nil
  then show ?case by (intro exI [of _ "[]"] exI [of _ a]) simp
next
  case (Cons t ts)
  then obtain s1 where s1: "task_step L R T C dbg dbgf act t s = Some s1"
    "tasks_run L R T C dbg dbgf act ts s1 = Some s'" by (auto split: option.splits)
  from task_step_any [OF s1(1) Cons.prems(2)] obtain es a1 where
    a1: "any_run L R T C dbg dbgf es a = Some a1" "ac_tasks a1 = erased s1" by blast
  from Cons.IH [OF s1(2) a1(2)] any_run_append [OF a1(1)] show ?case by metis
qed

subsection \<open>Reachable states\<close>

text \<open>What is on the wire while the call is open, and the bytes of a closed call.\<close>

lemma open_call_wire:
  assumes "responses_inv L T C dbg send0 s" "ct_main (ac_tasks s) \<noteq> Closed"
  shows "\<exists>n. ct_send (ac_tasks s) = snd (write_frames L T C (take n (response_frames dbg (ac_sent s) j)) send0)"
proof (cases "ct_main (ac_tasks s) = Joining True")
  case True
  with assms(1) show ?thesis
    by (intro exI [of _ "length (response_frames dbg (ac_sent s) j)"]) (simp add: responses_inv_eq)
next
  case False
  with assms obtain chunks where
    w: "write_frames L T C (map FResponseChunk chunks) send0 = (Inr (), ct_send (ac_tasks s))"
    "ac_sent s = map Inr chunks @ ct_responses (ac_tasks s)"
    by (cases "ct_main (ac_tasks s)") (auto simp: responses_inv_eq split: bool.splits)
  then show ?thesis
    by (intro exI [of _ "length chunks"]) (simp add: response_frames_chunks)
qed

lemma closed_call_wire:
  assumes "responses_inv L T C dbg send0 s" "ct_main (ac_tasks s) = Closed"
  obtains j where "ct_handler (ac_tasks s) = Joined j"
    "ct_send (ac_tasks s) = snd (tx_finish T (snd (write_frames L T C (response_frames dbg (ac_sent s) j) send0)))"
  using assms by (auto simp: responses_inv_eq)

lemma any_spawn_reaches:
  assumes R: "quic_recv R content ended"
    and run: "any_run L R T C dbg dbgf es (any_spawn recv send) = Some s"
  shows "requests_inv R C dbgf (the (stream_items R C (request_reaction dbgf) recv)) s"
    "responses_inv L T C dbg send s"
  using any_run_inv [OF R run requests_inv_spawn responses_inv_spawn] by blast+

subsection \<open>Properties\<close>

text \<open>
  C11. A streaming call with any handler, whatever the peer sends and however the tasks and the holders of
  the channel ends are interleaved. Both queues stay within 16. The handler has taken a prefix of the
  items of the stream, and all of them when it has seen the end of an open call. While the call is open
  the wire holds frames of what has been accepted from the handler, in order; when it is closed, exactly
  the chunks accepted up to the first error and one closing frame. The request pump waits only for a
  full queue, the main task only for a response sender or for the handler.
\<close>

theorem any_handler_sound:
  assumes R: "quic_recv R content ended"
    and items: "stream_items R C (request_reaction dbgf) recv = Some items"
    and run: "any_run L R T C dbg dbgf es (any_spawn recv send) = Some s"
  shows "length (ct_requests (ac_tasks s)) \<le> 16 \<and> length (ct_responses (ac_tasks s)) \<le> 16 \<and>
    prefix (ac_taken s) items \<and> (ac_end_seen s \<longrightarrow> ac_taken s = items) \<and>
    (if ct_main (ac_tasks s) = Closed
     then \<exists>j. ct_handler (ac_tasks s) = Joined j \<and> ct_send (ac_tasks s) =
       snd (tx_finish T (snd (write_frames L T C (response_frames dbg (ac_sent s) j) send)))
     else \<forall>j. \<exists>n. ct_send (ac_tasks s) =
       snd (write_frames L T C (take n (response_frames dbg (ac_sent s) j)) send)) \<and>
    (pump_step R C dbgf (ac_tasks s) = None \<longrightarrow> ct_pump (ac_tasks s) = Stopped \<or>
      ct_req_rx (ac_tasks s) \<and> length (ct_requests (ac_tasks s)) = 16) \<and>
    (main_step L T C dbg (ac_tasks s) = None \<longrightarrow> ct_main (ac_tasks s) = Closed \<or>
      ct_main (ac_tasks s) = Draining \<and> ct_responses (ac_tasks s) = [] \<and> ct_resp_tx (ac_tasks s) \<or>
      ct_handler (ac_tasks s) = Running ())"
proof -
  note inv = any_spawn_reaches [OF R run]
  from inv(1) items have req: "length (ct_requests (ac_tasks s)) \<le> 16" "prefix (ac_taken s) items"
    "ac_end_seen s \<longrightarrow> ac_taken s = items"
    by (auto simp: requests_inv_eq STREAM_CHANNEL_CAPACITY_def append_prefixD)
  have resp: "length (ct_responses (ac_tasks s)) \<le> 16"
    using inv(2) by (simp add: responses_inv_eq STREAM_CHANNEL_CAPACITY_def)
  have "ct_pump (ac_tasks s) = Stopped \<or> ct_req_rx (ac_tasks s) \<and> length (ct_requests (ac_tasks s)) = 16"
    if "pump_step R C dbgf (ac_tasks s) = None"
  proof -
    from that have "pump_poll R C (request_reaction dbgf) (ct_req_rx (ac_tasks s)) (ct_requests (ac_tasks s))
        (ct_pump (ac_tasks s)) = None" by (auto simp: pump_step_def split: option.splits)
    with req(1) show ?thesis by (auto simp: pump_poll_blocked STREAM_CHANNEL_CAPACITY_def)
  qed
  moreover have "\<exists>j. ct_handler (ac_tasks s) = Joined j \<and> ct_send (ac_tasks s) =
       snd (tx_finish T (snd (write_frames L T C (response_frames dbg (ac_sent s) j) send)))"
    if "ct_main (ac_tasks s) = Closed"
    using closed_call_wire [OF inv(2) that] by blast
  moreover have "ct_main (ac_tasks s) = Closed \<or>
      ct_main (ac_tasks s) = Draining \<and> ct_responses (ac_tasks s) = [] \<and> ct_resp_tx (ac_tasks s) \<or>
      ct_handler (ac_tasks s) = Running ()" if "main_step L T C dbg (ac_tasks s) = None"
    using that unfolding main_step_blocked by fastforce
  ultimately show ?thesis using req resp open_call_wire [OF inv(2)] by simp
qed

text \<open>
  C12. No handler can leave the substream open behind it: from every state any run reaches, once the handler
  has returned or panicked and every clone of its sender is gone, the main task alone closes the call.
\<close>

theorem any_handler_closes:
  assumes R: "quic_recv R content ended"
    and run: "any_run L R T C dbg dbgf es (any_spawn recv send) = Some s"
    and returned: "ct_handler (ac_tasks s) = Joined j" "\<not> ct_resp_tx (ac_tasks s)"
  shows "\<exists>n s'. any_run L R T C dbg dbgf (es @ replicate n MainTask) (any_spawn recv send) = Some s' \<and>
    ct_main (ac_tasks s') = Closed"
proof -
  have "ct_main (ac_tasks s) \<noteq> Draining \<longrightarrow> ct_responses (ac_tasks s) = []"
    using any_spawn_reaches(2) [OF R run] by (simp add: responses_inv_eq)
  from main_closes [OF returned this] any_run_append [OF run] show ?thesis by fastforce
qed

subsection \<open>A handler that does not wait for its requests\<close>

text \<open>It sends before it reads, takes one of the two requests, answers it and returns.\<close>

lemma demo_read:
  assumes "frame_bytes ref_codecs f = Some bs" "payload_within MAX_STREAMING_PAYLOAD_LEN ref_codecs f"
  shows "read_streaming_frame buf_recv ref_codecs (rx_of (bs @ rest)) = (Inr (Some f), rx_of rest)"
proof -
  have "rb_data (rx_of (bs @ rest)) = bs @ rest" by simp
  from buf_rx.read_frame_ok [OF ref_codecs_ok assms this] obtain r' where
    "read_streaming_frame buf_recv ref_codecs (rx_of (bs @ rest)) = (Inr (Some f), r')"
    "rb_data r' = rest" "rb_end r' = rb_end (rx_of (bs @ rest))" .
  moreover from this have "r' = rx_of rest" by (cases r') (simp add: rx_of_def)
  ultimately show ?thesis by simp
qed

lemma demo_write:
  assumes "frame_ok ref_codecs f" "tx_healthy t"
  shows "write_frame leb_ref buf_send ref_codecs t f =
    (Inr (), t\<lparr>tb_out := tb_out t @ the (frame_bytes ref_codecs f)\<rparr>)"
proof -
  from assms(1) obtain bs where bs: "frame_bytes ref_codecs f = Some bs" "payload_within (2 ^ 64 - 1) ref_codecs f"
    by (rule frame_okE)
  from buf_tx.write_frame_ok [OF demo_tx(3) assms(2) this] obtain t' where
    t': "write_frame leb_ref buf_send ref_codecs t f = (Inr (), t')" "tx_healthy t'"
    "tb_out t' = tb_out t @ bs" "tb_closed t' = tb_closed t" .
  with assms(2) have "t' = t\<lparr>tb_out := tb_out t @ bs\<rparr>" by (cases t; cases t') (auto simp: tx_healthy_def)
  with t'(1) bs(1) show ?thesis by simp
qed

abbreviation demo_events :: "any_event list" where
  "demo_events \<equiv> [SendItem (Inr [9]), RequestPump, MainTask, RequestPump, TakeRequest, SendItem (Inr [1]),
     DropRequestStream, DropResponseSender, ReturnResult (Inr (Inr ())), MainTask, MainTask]"

abbreviation demo_any_run where
  "demo_any_run \<equiv> any_run leb_ref buf_recv buf_send ref_codecs id (\<lambda>_. ''frame'')"

lemma demo_run_any:
  assumes t: "tx_healthy t"
  obtains s s' where "demo_any_run demo_events (any_spawn (rx_of demo_requests) t) = Some s"
    "ct_handler (ac_tasks s) = Joined (Inr (Inr ()))" "\<not> ct_resp_tx (ac_tasks s)"
    "demo_any_run (demo_events @ [MainTask]) (any_spawn (rx_of demo_requests) t) = Some s'"
    "ac_taken s' = [Inr [1]]" "ac_sent s' = [Inr [9], Inr [1]]" "ct_main (ac_tasks s') = Closed"
    "ct_handler (ac_tasks s') = Joined (Inr (Inr ()))"
proof -
  define rest where "rest = frames_bytes ref_codecs [FRequestChunk [2, 3], FRequestEnd]"
  have data: "demo_requests = [0x20, 1, 1] @ rest"
    by (simp add: demo_requests_def rest_def frame_bytes_def frame_raw_def uleb_small opcode_defs)
  have rd: "read_streaming_frame buf_recv ref_codecs (rx_of demo_requests) = (Inr (Some (FRequestChunk [1])), rx_of rest)"
    unfolding data by (rule demo_read)
      (simp_all add: frame_bytes_def frame_raw_def uleb_small opcode_defs payload_within_def MAX_STREAMING_PAYLOAD_LEN_def)
  have "frame_ok ref_codecs (FResponseChunk chunk)" if "length chunk \<le> 1" for chunk
    using that by (simp add: frame_ok_def frame_bytes_def payload_within_def MAX_STREAMING_PAYLOAD_LEN_def)
  from demo_write [OF this] have wr: "write_response_chunk leb_ref buf_send u chunk =
      (Inr (), u\<lparr>tb_out := tb_out u @ the (frame_bytes ref_codecs (FResponseChunk chunk))\<rparr>)"
    if "tx_healthy u" "length chunk \<le> 1" for u chunk using that by simp
  have healthy: "tx_healthy (u\<lparr>tb_out := bs\<rparr>) = tx_healthy u" for u bs by (simp add: tx_healthy_def)
  have "\<exists>s s'. demo_any_run demo_events (any_spawn (rx_of demo_requests) t) = Some s \<and>
      ct_handler (ac_tasks s) = Joined (Inr (Inr ())) \<and> \<not> ct_resp_tx (ac_tasks s) \<and>
      any_step leb_ref buf_recv buf_send ref_codecs id (\<lambda>_. ''frame'') MainTask s = Some s' \<and>
      ac_taken s' = [Inr [1]] \<and> ac_sent s' = [Inr [9], Inr [1]] \<and> ct_main (ac_tasks s') = Closed \<and>
      ct_handler (ac_tasks s') = Joined (Inr (Inr ()))"
    by (simp add: any_spawn_def call_spawn_def bounded_send_def STREAM_CHANNEL_CAPACITY_def pump_step_def
        pump_read_def pump_sent_def rd main_step_def wr healthy t split: prod.split)
  then obtain s s' where s: "demo_any_run demo_events (any_spawn (rx_of demo_requests) t) = Some s"
      "ct_handler (ac_tasks s) = Joined (Inr (Inr ()))" "\<not> ct_resp_tx (ac_tasks s)"
    and step: "any_step leb_ref buf_recv buf_send ref_codecs id (\<lambda>_. ''frame'') MainTask s = Some s'"
    and s': "ac_taken s' = [Inr [1]]" "ac_sent s' = [Inr [9], Inr [1]]" "ct_main (ac_tasks s') = Closed"
      "ct_handler (ac_tasks s') = Joined (Inr (Inr ()))" by blast
  have "demo_any_run (demo_events @ [MainTask]) (any_spawn (rx_of demo_requests) t) = Some s'"
    by (simp only: any_run_append [OF s(1)] any_run.simps step option.case)
  from that [OF s this s'] show thesis .
qed

theorem any_handler_sound_witness:
  "\<exists>s. demo_any_run (demo_events @ [MainTask]) (any_spawn (rx_of demo_requests) tx_new) = Some s \<and>
     ac_taken s = [Inr [1]] \<and> prefix (ac_taken s) (map Inr demo_chunks) \<and> ac_sent s = [Inr [9], Inr [1]] \<and>
     ct_send (ac_tasks s) = snd (tx_finish buf_send (snd (write_frames leb_ref buf_send ref_codecs
       [FResponseChunk [9], FResponseChunk [1], FResponseEnd] tx_new)))"
proof -
  from demo_tx(1) obtain s s' where s':
    "demo_any_run (demo_events @ [MainTask]) (any_spawn (rx_of demo_requests) tx_new) = Some s'"
    "ac_taken s' = [Inr [1]]" "ac_sent s' = [Inr [9], Inr [1]]" "ct_main (ac_tasks s') = Closed"
    "ct_handler (ac_tasks s') = Joined (Inr (Inr ()))" by (rule demo_run_any)
  have "the (stream_items buf_recv ref_codecs (request_reaction (\<lambda>_. ''frame'')) (rx_of demo_requests)) = map Inr demo_chunks"
    using stream_items_frames [OF buf_rx.quic_recv_axioms ref_codecs_ok demo_chunk_frames(1), of "rx_of demo_requests"]
    by (simp add: demo_requests_def)
  then have items: "stream_items buf_recv ref_codecs (request_reaction (\<lambda>_. ''frame'')) (rx_of demo_requests) =
      Some (map Inr demo_chunks)"
    using stream_items_total [OF buf_rx.quic_recv_axioms] by (metis option.sel)
  note result = any_handler_sound [OF buf_rx.quic_recv_axioms items s'(1)]
  have "response_frames id [Inr [9], Inr [1]] (Inr (Inr ())) = [FResponseChunk [9], FResponseChunk [1], FResponseEnd]"
    by (simp add: join_frame_def)
  with result s'(3-5) have "ct_send (ac_tasks s') = snd (tx_finish buf_send (snd (write_frames leb_ref buf_send ref_codecs
       [FResponseChunk [9], FResponseChunk [1], FResponseEnd] tx_new)))" by (simp del: write_frames.simps response_frames.simps)
  moreover from result have "prefix (ac_taken s') (map Inr demo_chunks)" by blast
  ultimately show ?thesis using s'(1-3) by (intro exI [of _ s'] conjI)
qed

theorem any_handler_closes_witness:
  "\<exists>n s'. demo_any_run (demo_events @ replicate n MainTask) (any_spawn (rx_of demo_requests) tx_new) = Some s' \<and>
     ct_main (ac_tasks s') = Closed"
proof -
  from demo_tx(1) obtain s s' where s: "demo_any_run demo_events (any_spawn (rx_of demo_requests) tx_new) = Some s"
    "ct_handler (ac_tasks s) = Joined (Inr (Inr ()))" "\<not> ct_resp_tx (ac_tasks s)" by (rule demo_run_any)
  show ?thesis by (rule any_handler_closes [OF buf_rx.quic_recv_axioms s])
qed

end
