(* ===== verification/Client.thy ===== *)
theory Client
  imports Server_Streaming
begin

section \<open>client.rs: unary and streaming calls\<close>

text \<open>
  The network of nerw-core is third-party: \<open>net_ops\<close> are the three operations the client uses of
  it, on a state \<open>'n\<close> (the connection cache). The receive half of an opened substream is a value of
  the stream interface; its content is what the peer will deliver. The two tasks of a streaming
  call are \<open>pump_outbound_requests\<close>, on the chunks the caller sends before dropping the sender, and
  \<open>pump_inbound_responses\<close>, whose channel the caller reads.
\<close>

definition RPC_RESPONSE_READ_LIMIT :: nat where
  "RPC_RESPONSE_READ_LIMIT = 8 * 1024 * 1024"

record ('t, 'r, 'n) net_ops =
  net_open :: "node_id \<Rightarrow> bytes \<Rightarrow> 'n \<Rightarrow> (string + 't \<times> 'r) \<times> 'n"
  net_evict :: "node_id \<Rightarrow> bytes \<Rightarrow> 'n \<Rightarrow> 'n"
  net_show_id :: "node_id \<Rightarrow> string"

definition decode_response_frame :: "wire_error postcard \<Rightarrow> bytes \<Rightarrow> bytes rpc_result" where
  "decode_response_frame W buf =
     (case buf of
        [] \<Rightarrow> Inl (MalformedFrame ''empty response frame'')
      | opcode # rest \<Rightarrow>
          if opcode = OPCODE_UNARY_RESPONSE then Inr rest
          else if opcode = OPCODE_UNARY_ERROR then
            (case pc_from_bytes W rest of
               Inl e \<Rightarrow> Inl (Codec e)
             | Inr wire \<Rightarrow> Inl (into_rpc_error wire))
          else Inl (MalformedFrame (''unexpected response opcode 0x'' @ hex02 opcode)))"

fun is_transport_io_error :: "rpc_error \<Rightarrow> bool" where
  "is_transport_io_error (TransportRead _) = True"
| "is_transport_io_error (TransportWrite _) = True"
| "is_transport_io_error _ = False"

text \<open>\<open>unary_exchange\<close> is \<^verbatim>\<open>call_inner\<close> from the opened substream on; it also returns the send half.\<close>

definition unary_exchange ::
  "'r recv_ops \<Rightarrow> 't send_ops \<Rightarrow> wire_error postcard \<Rightarrow> bytes \<Rightarrow>
   't \<Rightarrow> 'r \<Rightarrow> bytes rpc_result \<times> 't" where
  "unary_exchange R T W frame send recv =
     (case tx_write T send frame of
        (Inl e, send1) \<Rightarrow> (Inl (TransportWrite (''write_all: '' @ e)), send1)
      | (Inr _, send1) \<Rightarrow>
          (case tx_finish T send1 of
             (Inl e, send2) \<Rightarrow> (Inl (TransportWrite (''finish: '' @ e)), send2)
           | (Inr _, send2) \<Rightarrow>
               (case rx_to_end R recv RPC_RESPONSE_READ_LIMIT of
                  (Inl e, _) \<Rightarrow> (Inl (TransportRead (''read_to_end: '' @ e)), send2)
                | (Inr response_buf, _) \<Rightarrow> (decode_response_frame W response_buf, send2))))"

definition call_inner ::
  "leb128 \<Rightarrow> 'r recv_ops \<Rightarrow> 't send_ops \<Rightarrow> wire_error postcard \<Rightarrow> ('t, 'r, 'n) net_ops \<Rightarrow>
   node_id \<Rightarrow> string \<Rightarrow> bytes \<Rightarrow> 'n \<Rightarrow> bytes rpc_result \<times> 'n" where
  "call_inner L R T W N peer method_name request n =
     (case build_unary_request_frame L method_name request of
        Inl e \<Rightarrow> (Inl e, n)
      | Inr frame \<Rightarrow>
          (case net_open N peer ALPN_NERW_RPC_1_0_0 n of
             (Inl e, n1) \<Rightarrow> (Inl (TransportOpenSubstream (net_show_id N peer) e), n1)
           | (Inr (send, recv), n1) \<Rightarrow> (fst (unary_exchange R T W frame send recv), n1)))"

definition call ::
  "leb128 \<Rightarrow> 'r recv_ops \<Rightarrow> 't send_ops \<Rightarrow> wire_error postcard \<Rightarrow> ('t, 'r, 'n) net_ops \<Rightarrow>
   node_id \<Rightarrow> string \<Rightarrow> bytes \<Rightarrow> 'n \<Rightarrow> bytes rpc_result \<times> 'n" where
  "call L R T W N peer method_name request n =
     (case call_inner L R T W N peer method_name request n of
        (Inr response, n1) \<Rightarrow> (Inr response, n1)
      | (Inl err, n1) \<Rightarrow>
          (Inl err, if is_transport_io_error err then net_evict N peer ALPN_NERW_RPC_1_0_0 n1 else n1))"

subsection \<open>Streaming\<close>

text \<open>
  \<open>open_handshake\<close> is \<^verbatim>\<open>call_streaming\<close> from the opened substream to the open-ack; \<open>dbgo\<close> is
  \<^verbatim>\<open>{:?}\<close> of the frame option. The result is the pair of halves the two tasks get.
\<close>

definition open_handshake ::
  "leb128 \<Rightarrow> 'r recv_ops \<Rightarrow> 't send_ops \<Rightarrow> stream_codecs \<Rightarrow> (streaming_frame option \<Rightarrow> string) \<Rightarrow>
   streaming_open_request \<Rightarrow> 't \<Rightarrow> 'r \<Rightarrow> unit rpc_result \<times> 't \<times> 'r" where
  "open_handshake L R T C dbgo open_req send recv =
     (case write_open_request L T C send open_req of
        (Inl e, send1) \<Rightarrow> (Inl e, send1, recv)
      | (Inr _, send1) \<Rightarrow>
          (case read_streaming_frame R C recv of
             (Inl e, recv1) \<Rightarrow> (Inl e, send1, recv1)
           | (Inr (Some (FOpenResponse ack)), recv1) \<Rightarrow>
               (case oresp_status ack of
                  StatusOk \<Rightarrow> (Inr (), send1, recv1)
                | StatusErr reason \<Rightarrow>
                    (case strip_prefix ''unknown streaming method: '' reason of
                       Some suffix_text \<Rightarrow> (Inl (UnknownMethod suffix_text), send1, recv1)
                     | None \<Rightarrow> (Inl (Handler reason), send1, recv1)))
           | (Inr ack_frame, recv1) \<Rightarrow>
               (Inl (MalformedFrame (''expected streaming open-ack, got '' @ dbgo ack_frame)),
                send1, recv1)))"

text \<open>The counter of request ids wraps, as \<^verbatim>\<open>fetch_add\<close> does.\<close>

definition call_streaming ::
  "leb128 \<Rightarrow> 'r recv_ops \<Rightarrow> 't send_ops \<Rightarrow> stream_codecs \<Rightarrow> (streaming_frame option \<Rightarrow> string) \<Rightarrow>
   ('t, 'r, 'n) net_ops \<Rightarrow> node_id \<Rightarrow> string \<Rightarrow> 'n \<times> u64 \<Rightarrow> ('t \<times> 'r) rpc_result \<times> 'n \<times> u64" where
  "call_streaming L R T C dbgo N peer method_name st =
     (case st of (n, counter) \<Rightarrow>
       (case net_open N peer ALPN_NERW_RPC_1_0_0 n of
          (Inl e, n1) \<Rightarrow> (Inl (TransportOpenSubstream (net_show_id N peer) e), n1, counter)
        | (Inr (send, recv), n1) \<Rightarrow>
            (let request_id = counter;
                 open_req = \<lparr>oreq_method_name = method_name, oreq_request_id = request_id\<rparr>
             in case open_handshake L R T C dbgo open_req send recv of
                  (Inl e, _) \<Rightarrow> (Inl e, n1, counter + 1)
                | (Inr _, send1, recv1) \<Rightarrow> (Inr (send1, recv1), n1, counter + 1))))"

fun pump_outbound_requests ::
  "leb128 \<Rightarrow> 't send_ops \<Rightarrow> 't \<Rightarrow> bytes list \<Rightarrow> 't" where
  "pump_outbound_requests L T send [] =
     (case write_request_end T send of
        (_, send1) \<Rightarrow> (case tx_finish T send1 of (_, send2) \<Rightarrow> send2))"
| "pump_outbound_requests L T send (chunk # rest) =
     (case write_request_chunk L T send chunk of
        (Inl _, send1) \<Rightarrow> send1
      | (Inr _, send1) \<Rightarrow> pump_outbound_requests L T send1 rest)"

definition pump_response ::
  "'r recv_ops \<Rightarrow> stream_codecs \<Rightarrow> (streaming_frame \<Rightarrow> string) \<Rightarrow> (item, 'c) mpsc_ops \<Rightarrow>
   'r \<Rightarrow> 'c \<Rightarrow> bool \<times> 'r \<times> 'c" where
  "pump_response R C dbgf M recv resp_tx =
     (case read_streaming_frame R C recv of
        (Inr (Some (FResponseChunk bs)), recv1) \<Rightarrow>
          (case mp_send M resp_tx (Inr bs) of (sent, resp_tx1) \<Rightarrow> (sent, recv1, resp_tx1))
      | (Inr (Some FResponseEnd), recv1) \<Rightarrow> (False, recv1, resp_tx)
      | (Inr None, recv1) \<Rightarrow> (False, recv1, resp_tx)
      | (Inr (Some (FError err)), recv1) \<Rightarrow>
          (case mp_send M resp_tx (Inl (Handler (se_message err))) of
             (_, resp_tx1) \<Rightarrow> (\<not> se_terminal err, recv1, resp_tx1))
      | (Inr (Some other), recv1) \<Rightarrow>
          (case mp_send M resp_tx (Inl (MalformedFrame
              (''unexpected server'' @ arrow @ ''client frame: '' @ dbgf other))) of
             (_, resp_tx1) \<Rightarrow> (False, recv1, resp_tx1))
      | (Inl e, recv1) \<Rightarrow>
          (case mp_send M resp_tx (Inl e) of (_, resp_tx1) \<Rightarrow> (False, recv1, resp_tx1)))"

partial_function (option) pump_inbound_responses ::
  "'r recv_ops \<Rightarrow> stream_codecs \<Rightarrow> (streaming_frame \<Rightarrow> string) \<Rightarrow> (item, 'c) mpsc_ops \<Rightarrow>
   'r \<Rightarrow> 'c \<Rightarrow> ('r \<times> 'c) option" where
  "pump_inbound_responses R C dbgf M recv resp_tx =
     (case pump_response R C dbgf M recv resp_tx of
        (go_on, recv1, resp_tx1) \<Rightarrow>
          if go_on then pump_inbound_responses R C dbgf M recv1 resp_tx1 else Some (recv1, resp_tx1))"

fun response_reaction :: "(streaming_frame \<Rightarrow> string) \<Rightarrow> streaming_frame \<Rightarrow> item option \<times> bool" where
  "response_reaction dbgf (FResponseChunk bs) = (Some (Inr bs), True)"
| "response_reaction dbgf FResponseEnd = (None, False)"
| "response_reaction dbgf (FError err) = (Some (Inl (Handler (se_message err))), \<not> se_terminal err)"
| "response_reaction dbgf other = (Some (Inl (MalformedFrame
     (''unexpected server'' @ arrow @ ''client frame: '' @ dbgf other))), False)"

interpretation response_pump:
  frame_pump R C M "response_reaction dbgf" "pump_response R C dbgf M" "pump_inbound_responses R C dbgf M"
  for R :: "'r recv_ops" and C :: stream_codecs and M :: "(item, 'c) mpsc_ops"
    and dbgf :: "streaming_frame \<Rightarrow> string"
proof unfold_locales
  fix r c
  show "pump_response R C dbgf M r c = pump_turn R C M (response_reaction dbgf) r c"
    by (auto simp: pump_response_def pump_turn_def split: sum.splits option.splits prod.splits
        streaming_frame.splits)
  show "pump_inbound_responses R C dbgf M r c =
    (case pump_response R C dbgf M r c of (go_on, r1, c1) \<Rightarrow>
      if go_on then pump_inbound_responses R C dbgf M r1 c1 else Some (r1, c1))"
    by (rule pump_inbound_responses.simps)
qed

subsection \<open>Lemmas\<close>

text \<open>What a client learns of the server's error.\<close>

definition client_view :: "(string \<Rightarrow> string) \<Rightarrow> rpc_error \<Rightarrow> rpc_error" where
  "client_view dbg e = into_rpc_error (from_rpc_error dbg e)"

lemma decode_reply:
  assumes "postcard_codec W" "reply_bytes W dbg reply = Some bs"
  shows "decode_response_frame W bs = map_sum (client_view dbg) id reply"
  using assms
  by (auto simp: reply_bytes_def decode_response_frame_def opcode_defs client_view_def
      postcard_codec.from_ser split: sum.splits)

lemma client_view_unchanged: "crosses_unchanged e \<Longrightarrow> client_view dbg e = e"
  by (simp add: client_view_def into_from_unchanged)

lemma client_view_no_io: "\<not> is_transport_io_error (client_view dbg e)"
  by (cases e) (simp_all add: client_view_def)

lemma decode_response_no_io:
  assumes "decode_response_frame W b = Inl e"
  shows "\<not> is_transport_io_error e"
proof -
  have "\<not> is_transport_io_error (into_rpc_error w)" for w by (cases w) simp_all
  with assms show ?thesis
    by (auto simp: decode_response_frame_def split: list.splits if_splits sum.splits)
qed

lemma pump_outbound_eq:
  "pump_outbound_requests L T send chunks =
     (case write_frames L T C (map FRequestChunk chunks) send of
        (Inl _, send1) \<Rightarrow> send1
      | (Inr _, send1) \<Rightarrow> snd (tx_finish T (snd (write_frame L T C send1 FRequestEnd))))"
proof (induction chunks arbitrary: send)
  case Nil
  then show ?case by (simp split: prod.split)
next
  case (Cons chunk rest)
  then show ?case by (simp split: sum.split prod.split)
qed

text \<open>The items a caller receives for the frames the server writes after its open-ack.\<close>

fun caller_items :: "(string \<Rightarrow> string) \<Rightarrow> item list \<Rightarrow> join_result \<Rightarrow> item list" where
  "caller_items dbg [] (Inr (Inr _)) = []"
| "caller_items dbg [] (Inr (Inl e)) = [Inl (Handler (rpc_display dbg e))]"
| "caller_items dbg [] (Inl e) = [Inl (Handler (''streaming handler join failure: '' @ e))]"
| "caller_items dbg (Inr chunk # rest) j = Inr chunk # caller_items dbg rest j"
| "caller_items dbg (Inl e # rest) j = [Inl (Handler (rpc_display dbg e))]"

lemma response_items:
  "pump_items (response_reaction dbgf) (response_frames dbg items j) = caller_items dbg items j"
  by (induction dbg items j rule: caller_items.induct)
    (simp_all add: join_frame_def handler_err_to_terminal_def terminal_from_def)

subsection \<open>A concrete network\<close>

text \<open>One substream, given by its two halves, and a count of evictions.\<close>

definition demo_net :: "(tx_buf, rx_buf, (tx_buf \<times> rx_buf) \<times> nat) net_ops" where
  "demo_net = \<lparr>net_open = (\<lambda>_ _ n. (Inr (fst n), n)), net_evict = (\<lambda>_ _ n. (fst n, Suc (snd n))),
     net_show_id = (\<lambda>_. ''peer'')\<rparr>"

text \<open>
  When a unary call drops the cached connection: exactly on read and write failures of the
  substream. A peer that answers with a reply frame within the limit, whatever error it carries,
  never causes an eviction; a broken or oversized answer always does.
\<close>

lemma call_evicts_iff_stream_failed:
  assumes L: "leb128_codec L" and R: "quic_recv R content ended" and S: "quic_send T written closed healthy"
    and W: "postcard_codec W" and name: "length name < 2 ^ 64"
    and client: "net_open N peer ALPN_NERW_RPC_1_0_0 n = (Inr (t, r), n1)" "healthy t"
  shows "if ended r = None \<and> length (content r) \<le> RPC_RESPONSE_READ_LIMIT
    then call L R T W N peer name request n = (decode_response_frame W (content r), n1)
    else \<exists>m. call L R T W N peer name request n =
      (Inl (TransportRead m), net_evict N peer ALPN_NERW_RPC_1_0_0 n1)"
proof -
  obtain frame where frame: "build_unary_request_frame L name request = Inr frame"
    using leb128_codec.request_frame_eq [OF L name] by blast
  obtain x r' where rd: "rx_to_end R r RPC_RESPONSE_READ_LIMIT = (x, r')"
    by (cases "rx_to_end R r RPC_RESPONSE_READ_LIMIT")
  have call: "call_inner L R T W N peer name request n =
    (case x of Inl e \<Rightarrow> Inl (TransportRead (''read_to_end: '' @ e)) | Inr b \<Rightarrow> decode_response_frame W b, n1)"
  proof -
    from quic_send.healthy_write_obtain [OF S client(2)] obtain t1 where
      t1: "tx_write T t frame = (Inr (), t1)" "healthy t1" by blast
    from quic_send.healthy_finish_obtain [OF S t1(2)] obtain t2 where "tx_finish T t1 = (Inr (), t2)" by blast
    with t1 rd frame client(1) show ?thesis
      by (simp add: call_inner_def unary_exchange_def split: sum.split)
  qed
  note no_io = decode_response_no_io [of W]
  show ?thesis
  proof (cases "ended r = None \<and> length (content r) \<le> RPC_RESPONSE_READ_LIMIT")
    case True
    with quic_recv.to_end_ok [OF R, of r RPC_RESPONSE_READ_LIMIT] rd have "x = Inr (content r)" by auto
    with True call no_io show ?thesis
      by (cases "decode_response_frame W (content r)") (simp_all add: call_def)
  next
    case False
    then have "\<exists>e. x = Inl e"
      using rd quic_recv.to_end_long [OF R, of RPC_RESPONSE_READ_LIMIT r]
        quic_recv.to_end_failed [OF R, of r _ RPC_RESPONSE_READ_LIMIT]
      by (metis Pair_inject not_None_eq not_le)
    with False call show ?thesis by (auto simp: call_def)
  qed
qed

lemma call_evicts_iff_stream_failed_witness:
  "(let r = rx_of [0x01, 9] in
    call leb_ref buf_recv buf_send pc_wire_error_ref demo_net [] ''a/b/c'' [7] ((tx_new, r), 0) =
      (decode_response_frame pc_wire_error_ref [0x01, 9], ((tx_new, r), 0))) \<and>
   (let r = \<lparr>rb_data = [0x01], rb_end = Some ClosedStream\<rparr> in
    \<exists>m. call leb_ref buf_recv buf_send pc_wire_error_ref demo_net [] ''a/b/c'' [7] ((tx_new, r), 0) =
      (Inl (TransportRead m), ((tx_new, r), 1)))"
proof -
  have t: "tx_healthy tx_new" by (simp add: tx_new_def tx_healthy_def)
  have n: "net_open demo_net [] ALPN_NERW_RPC_1_0_0 ((tx_new, r), 0) = (Inr (tx_new, r), ((tx_new, r), 0))" for r
    by (simp add: demo_net_def)
  note th = call_evicts_iff_stream_failed [OF lr.leb128_codec_axioms buf_rx.quic_recv_axioms
      buf_tx.quic_send_axioms pwe.postcard_codec_axioms _ n t, of "''a/b/c''"]
  show ?thesis
    using th [of "rx_of [0x01, 9]" "[7]"] th [of "\<lparr>rb_data = [0x01], rb_end = Some ClosedStream\<rparr>" "[7]"]
    by (simp add: RPC_RESPONSE_READ_LIMIT_def demo_net_def)
qed

subsection \<open>Properties\<close>

text \<open>
  C28. A handler's error in a streaming call. Whether it is the handler's result (written by
  finalise_streaming) or sent as an item (written by drain_handler_responses), the caller's stream ends
  with one generic handler error that holds the text of the original: the variant is lost, and a
  handler error even gets its prefix twice. In a unary call the same error, when it is one of the
  variants with a wire form, arrives as it was.
\<close>

theorem streaming_error_as_seen_by_caller:
  assumes L: "leb128_codec L" and R: "quic_recv R content ended" and C: "codecs_ok C"
    and S: "quic_send T written closed healthy" and M: "mpsc (M :: (item, 'c) mpsc_ops) live"
    and W: "postcard_codec W"
    and server: "healthy ts" "written ts = []" "frame_ok C (FError (handler_err_to_terminal dbg e))"
    and streaming: "content r1 = written (finalise_streaming L T C dbg ts (Inr (Inl e)))" "ended r1 = None"
      "content r2 = written (snd (drain_handler_responses L T C dbg ts (Inl e # items)))" "ended r2 = None"
    and unary: "reply_bytes W dbg (Inl e) = Some bs"
  shows "(\<forall>r \<in> {r1, r2}. \<exists>r' c. pump_inbound_responses R C dbgf M r (mp_new M) = Some (r', c) \<and>
      mp_items M c = [Inl (Handler (rpc_display dbg e))]) \<and>
    Handler (rpc_display dbg e) \<noteq> e \<and>
    (\<forall>m. e = Handler m \<longrightarrow> rpc_display dbg e = ''handler error: '' @ m) \<and>
    (crosses_unchanged e \<longrightarrow> decode_response_frame W bs = Inl e)"
proof (intro conjI ballI impI allI)
  let ?f = "FError (handler_err_to_terminal dbg e)"
  have f: "list_all (frame_ok C) [?f]" using server(3) by simp
  from open_ack_written [OF L S server(1,3)] obtain ts' where
    ts': "write_frame L T C ts ?f = (Inr (), ts')" "written ts' = frames_bytes C [?f]"
    using server(2) by auto
  have "finalise_streaming L T C dbg ts (Inr (Inl e)) = ts'"
    "snd (drain_handler_responses L T C dbg ts (Inl e # items)) = ts'"
    using ts'(1) by (simp_all add: finalise_streaming_def)
  with streaming ts'(2) have "content r1 = frames_bytes C [?f]" "content r2 = frames_bytes C [?f]" by simp_all
  note sent = this
  fix r assume "r \<in> {r1, r2}"
  then have r: "content r = frames_bytes C [?f]" "ended r = None"
    using sent streaming(2,4) by (elim insertE emptyE; simp)+
  show "\<exists>r' c. pump_inbound_responses R C dbgf M r (mp_new M) = Some (r', c) \<and>
      mp_items M c = [Inl (Handler (rpc_display dbg e))]"
  proof -
    have "pump_items (response_reaction dbgf) [?f] = [Inl (Handler (rpc_display dbg e))]"
      by (simp add: handler_err_to_terminal_def terminal_from_def)
    moreover from response_pump.pump_frames [OF R M C f r mpsc.new_live [OF M], where dbgf = dbgf]
    obtain r' c where "pump_inbound_responses R C dbgf M r (mp_new M) = Some (r', c)"
      "mp_items M c = mp_items M (mp_new M) @ pump_items (response_reaction dbgf) [?f]" by blast
    ultimately show ?thesis using mpsc.new_items [OF M] by simp
  qed
next
  have "length (rpc_display dbg (Handler m)) > length m" for m by simp
  then show "Handler (rpc_display dbg e) \<noteq> e" by (metis less_irrefl rpc_error.inject(6))
  show "rpc_display dbg e = ''handler error: '' @ m" if "e = Handler m" for m using that by simp
  show "decode_response_frame W bs = Inl e" if "crosses_unchanged e"
    using decode_reply [OF W unary] client_view_unchanged [OF that] by simp
qed

theorem streaming_error_as_seen_by_caller_witness:
  "\<exists>r' c. pump_inbound_responses buf_recv ref_codecs (\<lambda>_. ''frame'') list_chan
      (rx_of (tb_out (finalise_streaming leb_ref buf_send ref_codecs id tx_new (Inr (Inl (Handler ''no'')))))) (mp_new list_chan) =
      Some (r', c) \<and>
    mp_items list_chan c = [Inl (Handler ''handler error: no'')] \<and>
    decode_response_frame pc_wire_error_ref ([0x02, 4, 17] @ str_bytes ''handler error: no'') = Inl (Handler ''no'')"
proof -
  let ?e = "Handler ''no''"
  let ?r1 = "rx_of (tb_out (finalise_streaming leb_ref buf_send ref_codecs id tx_new (Inr (Inl ?e))))"
  let ?r2 = "rx_of (tb_out (snd (drain_handler_responses leb_ref buf_send ref_codecs id tx_new [Inl ?e])))"
  have "frame_payload ref_codecs (FError (handler_err_to_terminal id ?e)) =
    Inr (Some ([17] @ str_bytes ''handler error: no'' @ [1]))" by code_simp
  then have f: "frame_ok ref_codecs (FError (handler_err_to_terminal id ?e))" by (rule frame_okI) simp
  have bs: "reply_bytes pc_wire_error_ref id (Inl ?e) = Some ([0x02, 4, 17] @ str_bytes ''handler error: no'')"
    by code_simp
  have "rb_data ?r1 = tb_out (finalise_streaming leb_ref buf_send ref_codecs id tx_new (Inr (Inl ?e)))" "rb_end ?r1 = None"
    "rb_data ?r2 = tb_out (snd (drain_handler_responses leb_ref buf_send ref_codecs id tx_new [Inl ?e]))" "rb_end ?r2 = None"
    by simp_all
  note r = this
  note th = streaming_error_as_seen_by_caller [OF demo_tx(3) buf_rx.quic_recv_axioms ref_codecs_ok
      buf_tx.quic_send_axioms lc.mpsc_axioms pwe.postcard_codec_axioms]
  note result = th [OF demo_tx(1,2) f, OF r, OF bs, where dbgf = "\<lambda>_. ''frame''"]
  have "\<exists>r' c. pump_inbound_responses buf_recv ref_codecs (\<lambda>_. ''frame'') list_chan ?r1 (mp_new list_chan) = Some (r', c) \<and>
      mp_items list_chan c = [Inl (Handler (rpc_display id ?e))]"
    by (rule bspec [OF conjunct1 [OF result] insertI1])
  moreover have "decode_response_frame pc_wire_error_ref ([0x02, 4, 17] @ str_bytes ''handler error: no'') = Inl ?e"
    by (rule mp [OF result [THEN conjunct2, THEN conjunct2, THEN conjunct2]]) simp
  moreover have "rpc_display id ?e = ''handler error: no''" by simp
  ultimately show ?thesis by (simp only:) blast
qed

text \<open>
  C29. A connection that was silently dropped: the substream opens, and every read fails with the
  connection's error. A unary call evicts the cached connection, so that the next call dials
  again. A streaming call reports the same error and leaves the dead connection in the cache; its
  request id is used up either way.
\<close>

theorem streaming_call_keeps_dead_connection:
  assumes L: "leb128_codec L" and R: "quic_recv R content ended" and C: "codecs_ok C"
    and S: "quic_send T written closed healthy" and W: "postcard_codec W"
    and name: "length name < 2 ^ 64"
      "frame_ok C (FOpenRequest \<lparr>oreq_method_name = name, oreq_request_id = k\<rparr>)"
    and dropped: "net_open N peer ALPN_NERW_RPC_1_0_0 n = (Inr (t, r), n1)" "healthy t"
      "content r = []" "ended r = Some (OtherReadError e)"
  shows "(\<exists>m. call L R T W N peer name request n =
      (Inl (TransportRead m), net_evict N peer ALPN_NERW_RPC_1_0_0 n1)) \<and>
    call_streaming L R T C dbgo N peer name (n, k) =
      (Inl (TransportRead (rx_show_read R (OtherReadError e))), n1, k + 1)"
proof
  show "\<exists>m. call L R T W N peer name request n =
      (Inl (TransportRead m), net_evict N peer ALPN_NERW_RPC_1_0_0 n1)"
    using call_evicts_iff_stream_failed [OF L R S W name(1) dropped(1,2), of request] dropped(4) by simp
next
  let ?req = "\<lparr>oreq_method_name = name, oreq_request_id = k\<rparr>"
  from open_ack_written [OF L S dropped(2) name(2)] obtain t1 where
    t1: "write_open_request L T C t ?req = (Inr (), t1)" by auto
  from quic_recv.read_frame_end [OF R dropped(3), of C] obtain r1 where
    "read_streaming_frame R C r = (Inl (TransportRead (rx_show_read R (OtherReadError e))), r1)"
    using dropped(4) by auto
  with t1 dropped(1) show "call_streaming L R T C dbgo N peer name (n, k) =
      (Inl (TransportRead (rx_show_read R (OtherReadError e))), n1, k + 1)"
    by (simp add: call_streaming_def open_handshake_def)
qed

theorem streaming_call_keeps_dead_connection_witness:
  "(let r = \<lparr>rb_data = [], rb_end = Some (OtherReadError ''connection lost'')\<rparr> in
    (\<exists>m. call leb_ref buf_recv buf_send pc_wire_error_ref demo_net [] ''a@1/i/stream'' [7] ((tx_new, r), 0) =
      (Inl (TransportRead m), ((tx_new, r), 1))) \<and>
    call_streaming leb_ref buf_recv buf_send ref_codecs (\<lambda>_. ''frame'') demo_net [] ''a@1/i/stream'' (((tx_new, r), 0), 7) =
      (Inl (TransportRead ''read error''), ((tx_new, r), 0), 8))"
proof -
  let ?r = "\<lparr>rb_data = [], rb_end = Some (OtherReadError ''connection lost'')\<rparr>"
  have n: "net_open demo_net [] ALPN_NERW_RPC_1_0_0 ((tx_new, ?r), 0) = (Inr (tx_new, ?r), ((tx_new, ?r), 0))"
    by (simp add: demo_net_def)
  have f: "frame_ok ref_codecs (FOpenRequest \<lparr>oreq_method_name = ''a@1/i/stream'', oreq_request_id = 7\<rparr>)"
    using demo_frames_ok(1) by (simp add: demo_open_def)
  have "length ''a@1/i/stream'' < 2 ^ 64" "rb_data ?r = []" "rb_end ?r = Some (OtherReadError ''connection lost'')"
    by simp_all
  note r = this
  note th = streaming_call_keeps_dead_connection [OF demo_tx(3) buf_rx.quic_recv_axioms ref_codecs_ok
      buf_tx.quic_send_axioms pwe.postcard_codec_axioms]
  from th [OF r(1) f, OF n demo_tx(1) r(2,3), where request = "[7]" and dbgo = "\<lambda>_. ''frame''"]
  show ?thesis by (simp add: demo_net_def buf_recv_def)
qed

end
