(* ===== verification/Client_Tasks.thy ===== *)
theory Client_Tasks
  imports Client
begin

section \<open>The tasks of one streaming call on the client\<close>

text \<open>
  After the open-ack, \<^verbatim>\<open>call_streaming\<close> leaves two tasks behind: one pumps the caller's
  chunks onto the wire, the other pumps response frames to the caller and then aborts the first.
  The caller sends chunks, drops its sender, takes responses and may drop the response stream, at
  any time. Every poll of a task and every move of the caller is one event. The fields
  \<open>cl_accepted\<close> (chunks whose send returned Ok) and \<open>cl_taken\<close> (items the caller got) record what the
  caller observes; the code has no such state.
\<close>

datatype outbound = OutRunning | OutReturned | OutAborted

record ('r, 't) client_tasks =
  cl_requests :: "bytes list"
  cl_req_tx :: bool
  cl_out :: outbound
  cl_send :: 't
  cl_in :: "'r pump_task"
  cl_responses :: "item list"
  cl_resp_rx :: bool
  cl_accepted :: "bytes list"
  cl_taken :: "item list"

definition client_spawn :: "'r \<Rightarrow> 't \<Rightarrow> ('r, 't) client_tasks" where
  "client_spawn recv send =
     \<lparr>cl_requests = [], cl_req_tx = True, cl_out = OutRunning, cl_send = send, cl_in = Reading recv,
      cl_responses = [], cl_resp_rx = True, cl_accepted = [], cl_taken = []\<rparr>"

text \<open>One item of \<^verbatim>\<open>pump_outbound_requests\<close>, or its end once the caller has dropped the sender.\<close>

definition outbound_step :: "leb128 \<Rightarrow> 't send_ops \<Rightarrow> ('r, 't) client_tasks \<Rightarrow> ('r, 't) client_tasks option" where
  "outbound_step L T s =
     (case cl_out s of
        OutRunning \<Rightarrow>
          (case cl_requests s of
             chunk # rest \<Rightarrow>
               (case write_request_chunk L T (cl_send s) chunk of
                  (Inl e, send) \<Rightarrow> Some (s\<lparr>cl_out := OutReturned, cl_requests := [], cl_send := send\<rparr>)
                | (Inr _, send) \<Rightarrow> Some (s\<lparr>cl_requests := rest, cl_send := send\<rparr>))
           | [] \<Rightarrow>
               if cl_req_tx s then None
               else
                 (case write_request_end T (cl_send s) of
                    (_, send1) \<Rightarrow>
                      (case tx_finish T send1 of
                         (_, send2) \<Rightarrow> Some (s\<lparr>cl_out := OutReturned, cl_send := send2\<rparr>))))
      | _ \<Rightarrow> None)"

definition inbound_step :: "'r recv_ops \<Rightarrow> stream_codecs \<Rightarrow> (streaming_frame \<Rightarrow> string) \<Rightarrow>
  ('r, 't) client_tasks \<Rightarrow> ('r, 't) client_tasks option" where
  "inbound_step R C dbgf s =
     (case pump_poll R C (response_reaction dbgf) (cl_resp_rx s) (cl_responses s) (cl_in s) of
        None \<Rightarrow> None
      | Some (pump, responses) \<Rightarrow> Some (s\<lparr>cl_in := pump, cl_responses := responses\<rparr>))"

text \<open>
  What the inbound task does after its pump has returned. The aborted task stops where it awaits: at the
  receive of a chunk, or (\<open>Some k\<close>) in the \<^verbatim>\<open>write_all\<close> of the frame of the chunk it has received, of which
  the stream has then taken at most \<open>k\<close> bytes.
\<close>

definition request_chunk_frame :: "leb128 \<Rightarrow> bytes \<Rightarrow> bytes rpc_result" where
  "request_chunk_frame L chunk =
     (case u64_try_from (length chunk) of
        Inl e \<Rightarrow> Inl (MalformedFrame (''streaming body length overflow: '' @ e))
      | Inr body_len \<Rightarrow>
          (case encode_varint_u64 L body_len [OPCODE_STREAMING_REQUEST_CHUNK] of
             Inl e \<Rightarrow> Inl e
           | Inr buf \<Rightarrow> Inr (buf @ chunk)))"

lemma write_request_chunk_frame:
  "write_request_chunk L T t chunk =
     (case request_chunk_frame L chunk of
        Inl e \<Rightarrow> (Inl e, t)
      | Inr buf \<Rightarrow>
          (case tx_write T t buf of
             (Inl e, t1) \<Rightarrow> (Inl (TransportWrite (''streaming write_all: '' @ e)), t1)
           | (Inr _, t1) \<Rightarrow> (Inr (), t1)))"
  by (simp add: write_request_chunk_def write_length_prefixed_def request_chunk_frame_def split: sum.split prod.split)

definition abort_step :: "leb128 \<Rightarrow> 't send_ops \<Rightarrow> nat option \<Rightarrow> ('r, 't) client_tasks \<Rightarrow> ('r, 't) client_tasks option" where
  "abort_step L T part s =
     (case (cl_in s, cl_out s) of
        (Stopped, OutRunning) \<Rightarrow>
          (case part of
             None \<Rightarrow> Some (s\<lparr>cl_out := OutAborted, cl_requests := []\<rparr>)
           | Some k \<Rightarrow>
               (case cl_requests s of
                  [] \<Rightarrow> None
                | chunk # rest \<Rightarrow>
                    (case request_chunk_frame L chunk of
                       Inl e \<Rightarrow> None
                     | Inr buf \<Rightarrow> Some (s\<lparr>cl_out := OutAborted, cl_requests := [],
                         cl_send := snd (tx_write T (cl_send s) (take k buf))\<rparr>))))
      | _ \<Rightarrow> None)"

datatype client_event =
    Outbound
  | Inbound
  | Abort "nat option"
  | CallerSend bytes
  | CallerDropSender
  | CallerTake
  | CallerDropStream

fun client_step :: "leb128 \<Rightarrow> 'r recv_ops \<Rightarrow> 't send_ops \<Rightarrow> stream_codecs \<Rightarrow> (streaming_frame \<Rightarrow> string) \<Rightarrow>
  client_event \<Rightarrow> ('r, 't) client_tasks \<Rightarrow> ('r, 't) client_tasks option" where
  "client_step L R T C dbgf Outbound s = outbound_step L T s"
| "client_step L R T C dbgf Inbound s = inbound_step R C dbgf s"
| "client_step L R T C dbgf (Abort part) s = abort_step L T part s"
| "client_step L R T C dbgf (CallerSend chunk) s =
     (if \<not> cl_req_tx s then None
      else case bounded_send (cl_out s = OutRunning) (cl_requests s) chunk of
          None \<Rightarrow> None
        | Some (sent, requests) \<Rightarrow> Some (s\<lparr>cl_requests := requests,
            cl_accepted := cl_accepted s @ (if sent then [chunk] else [])\<rparr>))"
| "client_step L R T C dbgf CallerDropSender s = (if cl_req_tx s then Some (s\<lparr>cl_req_tx := False\<rparr>) else None)"
| "client_step L R T C dbgf CallerTake s =
     (case cl_responses s of
        x # xs \<Rightarrow> Some (s\<lparr>cl_responses := xs, cl_taken := cl_taken s @ [x]\<rparr>)
      | [] \<Rightarrow> None)"
| "client_step L R T C dbgf CallerDropStream s =
     (if cl_resp_rx s then Some (s\<lparr>cl_resp_rx := False, cl_responses := []\<rparr>) else None)"

fun client_run :: "leb128 \<Rightarrow> 'r recv_ops \<Rightarrow> 't send_ops \<Rightarrow> stream_codecs \<Rightarrow> (streaming_frame \<Rightarrow> string) \<Rightarrow>
  client_event list \<Rightarrow> ('r, 't) client_tasks \<Rightarrow> ('r, 't) client_tasks option" where
  "client_run L R T C dbgf [] s = Some s"
| "client_run L R T C dbgf (e # es) s =
     (case client_step L R T C dbgf e s of
        None \<Rightarrow> None
      | Some s1 \<Rightarrow> client_run L R T C dbgf es s1)"

subsection \<open>What every schedule keeps\<close>

text \<open>
  The outbound half: the chunks accepted are on the wire or queued; a task that has returned has
  left the send half as the sequential pump does on the accepted chunks; an aborted one has
  written a prefix of them and then at most a part of the frame of the chunk behind it.
\<close>

definition cut_after :: "leb128 \<Rightarrow> 't send_ops \<Rightarrow> stream_codecs \<Rightarrow> 't \<Rightarrow> bytes list \<Rightarrow> 't \<Rightarrow> bool" where
  "cut_after L T C send0 accepted send \<longleftrightarrow>
     (\<exists>sent t. prefix sent accepted \<and> write_frames L T C (map FRequestChunk sent) send0 = (Inr (), t) \<and>
        (send = t \<or> (\<exists>chunk buf k. prefix (sent @ [chunk]) accepted \<and> request_chunk_frame L chunk = Inr buf \<and>
           send = snd (tx_write T t (take k buf)))))"

definition outbound_inv :: "leb128 \<Rightarrow> 't send_ops \<Rightarrow> stream_codecs \<Rightarrow> 't \<Rightarrow> ('r, 't) client_tasks \<Rightarrow> bool" where
  "outbound_inv L T C send0 s \<longleftrightarrow>
     (case cl_out s of
        OutRunning \<Rightarrow> \<exists>sent. cl_accepted s = sent @ cl_requests s \<and>
          write_frames L T C (map FRequestChunk sent) send0 = (Inr (), cl_send s)
      | OutReturned \<Rightarrow> cl_send s = pump_outbound_requests L T send0 (cl_accepted s)
      | OutAborted \<Rightarrow> cl_in s = Stopped \<and> cut_after L T C send0 (cl_accepted s) (cl_send s))"

definition inbound_inv :: "'r recv_ops \<Rightarrow> stream_codecs \<Rightarrow> (streaming_frame \<Rightarrow> string) \<Rightarrow> item list \<Rightarrow>
  ('r, 't) client_tasks \<Rightarrow> bool" where
  "inbound_inv R C dbgf items s \<longleftrightarrow>
     (if cl_resp_rx s
      then cl_taken s @ cl_responses s @ pump_pending R C (response_reaction dbgf) (cl_in s) = items
      else cl_responses s = [] \<and> prefix (cl_taken s) items)"

definition client_inv :: "leb128 \<Rightarrow> 'r recv_ops \<Rightarrow> 't send_ops \<Rightarrow> stream_codecs \<Rightarrow> (streaming_frame \<Rightarrow> string) \<Rightarrow>
  't \<Rightarrow> item list \<Rightarrow> ('r, 't) client_tasks \<Rightarrow> bool" where
  "client_inv L R T C dbgf send0 items s \<longleftrightarrow>
     length (cl_requests s) \<le> STREAM_CHANNEL_CAPACITY \<and> length (cl_responses s) \<le> STREAM_CHANNEL_CAPACITY \<and>
     outbound_inv L T C send0 s \<and> inbound_inv R C dbgf items s"

lemma outbound_inv_update [simp]:
  "outbound_inv L T C send0 (s\<lparr>cl_req_tx := b\<rparr>) = outbound_inv L T C send0 s"
  "outbound_inv L T C send0 (s\<lparr>cl_responses := q\<rparr>) = outbound_inv L T C send0 s"
  "outbound_inv L T C send0 (s\<lparr>cl_resp_rx := b\<rparr>) = outbound_inv L T C send0 s"
  "outbound_inv L T C send0 (s\<lparr>cl_taken := xs\<rparr>) = outbound_inv L T C send0 s"
  by (simp_all add: outbound_inv_def split: outbound.split)

lemma inbound_inv_update [simp]:
  "inbound_inv R C dbgf items (s\<lparr>cl_req_tx := b\<rparr>) = inbound_inv R C dbgf items s"
  "inbound_inv R C dbgf items (s\<lparr>cl_requests := cs\<rparr>) = inbound_inv R C dbgf items s"
  "inbound_inv R C dbgf items (s\<lparr>cl_out := out\<rparr>) = inbound_inv R C dbgf items s"
  "inbound_inv R C dbgf items (s\<lparr>cl_accepted := cs\<rparr>) = inbound_inv R C dbgf items s"
  by (simp_all add: inbound_inv_def)

lemma outbound_step_inv:
  assumes step: "outbound_step L T s = Some s'" and inv: "outbound_inv L T C send0 s"
  shows "outbound_inv L T C send0 s'"
proof (cases "cl_out s")
  case OutRunning
  with inv obtain sent where sent: "cl_accepted s = sent @ cl_requests s"
    "write_frames L T C (map FRequestChunk sent) send0 = (Inr (), cl_send s)"
    by (auto simp: outbound_inv_def)
  show ?thesis
  proof (cases "cl_requests s")
    case Nil
    with step OutRunning sent show ?thesis
      by (auto simp: outbound_step_def outbound_inv_def pump_outbound_eq [where C = C] split: if_splits prod.splits)
  next
    case (Cons chunk rest)
    show ?thesis
    proof (cases "write_request_chunk L T (cl_send s) chunk")
      case (Pair res t1)
      show ?thesis
      proof (cases res)
        case (Inl e)
        with step OutRunning sent Cons Pair show ?thesis
          by (auto simp: outbound_step_def outbound_inv_def pump_outbound_eq [where C = C]
              write_frames_more [OF sent(2)])
      next
        case (Inr u)
        have "write_frames L T C (map FRequestChunk (sent @ [chunk])) send0 = (Inr (), t1)"
          using Pair Inr by (simp add: write_frames_more [OF sent(2)])
        with step OutRunning sent Cons Pair Inr show ?thesis
          by (auto simp: outbound_step_def outbound_inv_def intro!: exI [of _ "sent @ [chunk]"])
      qed
    qed
  qed
qed (use step in \<open>simp_all add: outbound_step_def\<close>)

lemma outbound_step_fields:
  assumes "outbound_step L T s = Some s'"
  shows "length (cl_requests s') \<le> length (cl_requests s)" "cl_responses s' = cl_responses s"
    "inbound_inv R C dbgf items s' = inbound_inv R C dbgf items s"
  using assms
  by (auto simp: outbound_step_def inbound_inv_def split: outbound.splits list.splits sum.splits prod.splits if_splits)

lemma inbound_step_inv:
  assumes R: "quic_recv R content ended" and step: "inbound_step R C dbgf s = Some s'"
    and inv: "client_inv L R T C dbgf send0 items s"
  shows "client_inv L R T C dbgf send0 items s'"
proof -
  from step obtain p q where
    p: "pump_poll R C (response_reaction dbgf) (cl_resp_rx s) (cl_responses s) (cl_in s) = Some (p, q)"
    and s': "s' = s\<lparr>cl_in := p, cl_responses := q\<rparr>"
    by (auto simp: inbound_step_def split: option.splits)
  have "length q \<le> STREAM_CHANNEL_CAPACITY" using pump_poll_bound [OF p] inv by (simp add: client_inv_def)
  moreover have "inbound_inv R C dbgf items s'"
  proof (cases "cl_resp_rx s")
    case True
    with p pump_poll_pending [OF R] inv s' show ?thesis by (simp add: client_inv_def inbound_inv_def)
  next
    case False
    then have "q = cl_responses s"
      using p by (cases "cl_in s") (auto simp: bounded_send_def split: option.splits)
    with False inv s' show ?thesis by (simp add: client_inv_def inbound_inv_def)
  qed
  moreover have "cl_in s \<noteq> Stopped" using p by auto
  with inv s' have "outbound_inv L T C send0 s'"
    by (auto simp: client_inv_def outbound_inv_def split: outbound.splits)
  ultimately show ?thesis using inv s' by (simp add: client_inv_def)
qed

lemma abort_step_inv:
  assumes ab: "abort_step L T part s = Some s'" and inv: "client_inv L R T C dbgf send0 items s"
  shows "client_inv L R T C dbgf send0 items s'"
proof -
  from ab have running: "cl_in s = Stopped" "cl_out s = OutRunning"
    by (auto simp: abort_step_def split: pump_task.splits outbound.splits)
  with inv obtain sent where sent: "cl_accepted s = sent @ cl_requests s"
    "write_frames L T C (map FRequestChunk sent) send0 = (Inr (), cl_send s)"
    by (auto simp: client_inv_def outbound_inv_def)
  from ab running obtain send where s': "s' = s\<lparr>cl_out := OutAborted, cl_requests := [], cl_send := send\<rparr>"
    and send: "send = cl_send s \<or> (\<exists>chunk rest buf k. cl_requests s = chunk # rest \<and>
      request_chunk_frame L chunk = Inr buf \<and> send = snd (tx_write T (cl_send s) (take k buf)))"
  proof (cases part)
    case None
    with ab running show thesis by (intro that [of "cl_send s"]) (cases s; auto simp: abort_step_def)+
  next
    case (Some k)
    with ab running obtain chunk rest buf where "cl_requests s = chunk # rest" "request_chunk_frame L chunk = Inr buf"
      "s' = s\<lparr>cl_out := OutAborted, cl_requests := [], cl_send := snd (tx_write T (cl_send s) (take k buf))\<rparr>"
      by (auto simp: abort_step_def split: list.splits sum.splits)
    then show thesis by (intro that [of "snd (tx_write T (cl_send s) (take k buf))"]) auto
  qed
  have "cut_after L T C send0 (cl_accepted s) send"
    unfolding cut_after_def using sent send by (intro exI [of _ sent] exI [of _ "cl_send s"]) auto
  with running inv s' show ?thesis by (auto simp: client_inv_def outbound_inv_def inbound_inv_def)
qed

lemma client_step_inv:
  assumes R: "quic_recv R content ended" and step: "client_step L R T C dbgf e s = Some s'"
    and inv: "client_inv L R T C dbgf send0 items s"
  shows "client_inv L R T C dbgf send0 items s'"
proof (cases e)
  case Outbound
  with step have out: "outbound_step L T s = Some s'" by simp
  from outbound_step_fields [OF out] outbound_step_inv [OF out] inv show ?thesis
    by (auto simp: client_inv_def)
next
  case Inbound
  with step inbound_step_inv [OF R _ inv] show ?thesis by simp
next
  case (Abort part)
  with step abort_step_inv [OF _ inv] show ?thesis by simp
next
  case (CallerSend chunk)
  with step inv show ?thesis
    by (auto simp: client_inv_def outbound_inv_def inbound_inv_def bounded_send_def
        split: if_splits option.splits prod.splits outbound.splits)
next
  case CallerDropSender
  with step inv show ?thesis by (auto simp: client_inv_def split: if_splits)
next
  case CallerTake
  with step inv show ?thesis
    by (cases "cl_resp_rx s") (auto simp: client_inv_def inbound_inv_def split: list.splits)
next
  case CallerDropStream
  with step inv show ?thesis
    by (auto simp: client_inv_def inbound_inv_def intro: prefixI split: if_splits)
qed

lemma client_run_inv:
  assumes R: "quic_recv R content ended"
  shows "client_run L R T C dbgf es s = Some s' \<Longrightarrow> client_inv L R T C dbgf send0 items s \<Longrightarrow>
    client_inv L R T C dbgf send0 items s'"
  by (induction es arbitrary: s) (auto split: option.splits dest: client_step_inv [OF R])

lemma client_spawn_inv:
  "client_inv L R T C dbgf send (the (stream_items R C (response_reaction dbgf) recv)) (client_spawn recv send)"
  by (simp add: client_inv_def outbound_inv_def inbound_inv_def client_spawn_def)

text \<open>When no task can move without the caller, each of them is done or waits for the caller.\<close>

definition waits_for_caller :: "('r, 't) client_tasks \<Rightarrow> bool" where
  "waits_for_caller s \<longleftrightarrow>
     (cl_out s \<noteq> OutRunning \<or> cl_requests s = [] \<and> cl_req_tx s \<and> cl_in s \<noteq> Stopped) \<and>
     (cl_in s = Stopped \<or> cl_resp_rx s \<and> length (cl_responses s) = STREAM_CHANNEL_CAPACITY)"

lemma stuck_waits_for_caller:
  assumes inv: "client_inv L R T C dbgf send0 items s"
    and stuck: "client_step L R T C dbgf Outbound s = None" "client_step L R T C dbgf Inbound s = None"
      "client_step L R T C dbgf (Abort None) s = None"
  shows "waits_for_caller s"
proof -
  from stuck(1) have "cl_out s \<noteq> OutRunning \<or> cl_requests s = [] \<and> cl_req_tx s"
    by (auto simp: outbound_step_def split: outbound.splits list.splits sum.splits prod.splits if_splits)
  moreover from stuck(2) have "pump_poll R C (response_reaction dbgf) (cl_resp_rx s) (cl_responses s) (cl_in s) = None"
    by (auto simp: inbound_step_def split: option.splits)
  then have "cl_in s = Stopped \<or> cl_resp_rx s \<and> STREAM_CHANNEL_CAPACITY \<le> length (cl_responses s)"
    by (auto simp: pump_poll_blocked)
  moreover from stuck(3) have "cl_out s \<noteq> OutRunning \<or> cl_in s \<noteq> Stopped"
    by (auto simp: abort_step_def split: pump_task.splits outbound.splits)
  ultimately show ?thesis using inv by (auto simp: waits_for_caller_def client_inv_def)
qed

lemma client_items:
  assumes R: "quic_recv R content ended" and M: "mpsc M live"
    and alone: "pump_inbound_responses R C dbgf M recv (mp_new M) = Some (recv2, c)"
    and run: "client_run L R T C dbgf es (client_spawn recv send) = Some s"
  shows "client_inv L R T C dbgf send (mp_items M c) s"
proof -
  from response_pump.pump_delivers [OF R M mpsc.new_live [OF M], where r = recv and C = C and dbgf = dbgf] alone
  have items: "the (stream_items R C (response_reaction dbgf) recv) = mp_items M c"
    by (auto simp: mpsc.new_items [OF M])
  show ?thesis using client_run_inv [OF R run client_spawn_inv] unfolding items .
qed

text \<open>A client that is done: it has got every item, and its stream holds every accepted chunk.\<close>

definition client_done :: "('r, 't) client_tasks \<Rightarrow> bool" where
  "client_done s \<longleftrightarrow> cl_out s = OutReturned \<and> cl_in s = Stopped \<and> cl_resp_rx s \<and> cl_responses s = []"

lemma client_done_result:
  assumes "client_inv L R T C dbgf send items s" "client_done s"
  shows "cl_taken s = items" "cl_send s = pump_outbound_requests L T send (cl_accepted s)"
  using assms by (simp_all add: client_inv_def client_done_def inbound_inv_def outbound_inv_def)

subsection \<open>A caller that sends, then takes everything\<close>

lemma client_run_append:
  "client_run L R T C dbgf es s = Some s1 \<Longrightarrow>
    client_run L R T C dbgf (es @ fs) s = client_run L R T C dbgf fs s1"
  by (induction es arbitrary: s) (auto split: option.splits)

fun inbound_work :: "('r \<Rightarrow> bytes) \<Rightarrow> 'r pump_task \<Rightarrow> nat" where
  "inbound_work content (Reading r) = 2 * length (content r) + 2"
| "inbound_work content (Sending x go_on r) = (if go_on then 2 * length (content r) + 3 else 1)"
| "inbound_work content Stopped = 0"

lemma pump_read_work:
  assumes R: "quic_recv R content ended"
  shows "inbound_work content (pump_read R C react r) < inbound_work content (Reading r)"
proof -
  obtain res r1 where rd: "read_streaming_frame R C r = (res, r1)" by (cases "read_streaming_frame R C r")
  show ?thesis
  proof (cases "\<exists>f. res = Inr (Some f)")
    case True
    then obtain f where f: "res = Inr (Some f)" by blast
    from quic_recv.read_frame_spec [OF R rd] f have "length (content r1) < length (content r)" by (auto dest: spells_shorter)
    with rd f show ?thesis by (auto simp: pump_read_def split: prod.split option.split)
  next
    case False
    with rd show ?thesis by (auto simp: pump_read_def split: sum.split option.split)
  qed
qed

lemma inbound_drains:
  assumes R: "quic_recv R content ended"
  shows "cl_responses s = [] \<Longrightarrow> cl_resp_rx s \<Longrightarrow>
    \<exists>es s'. client_run L R T C dbgf es s = Some s' \<and> cl_in s' = Stopped \<and> cl_responses s' = [] \<and>
      cl_resp_rx s' \<and> cl_out s' = cl_out s \<and> cl_accepted s' = cl_accepted s"
proof (induction "inbound_work content (cl_in s)" arbitrary: s rule: less_induct)
  case less
  have go: ?case if "client_run L R T C dbgf es s = Some s1" "cl_responses s1 = []" "cl_resp_rx s1"
    "inbound_work content (cl_in s1) < inbound_work content (cl_in s)" "cl_out s1 = cl_out s" "cl_accepted s1 = cl_accepted s"
    for es s1
  proof -
    from less.hyps [OF that(4,2,3)] obtain fs s' where
      "client_run L R T C dbgf fs s1 = Some s'" "cl_in s' = Stopped" "cl_responses s' = []" "cl_resp_rx s'"
      "cl_out s' = cl_out s1" "cl_accepted s' = cl_accepted s1" by blast
    with that(5,6) client_run_append [OF that(1), of fs] show ?thesis
      by (intro exI [of _ "es @ fs"] exI [of _ s']) simp
  qed
  show ?case
  proof (cases "cl_in s")
    case (Reading r)
    let ?s1 = "s\<lparr>cl_in := pump_read R C (response_reaction dbgf) r\<rparr>"
    have "client_run L R T C dbgf [Inbound] s = Some ?s1" using Reading less.prems by (simp add: inbound_step_def)
    then show ?thesis
      by (rule go) (use less.prems Reading pump_read_work [OF R] in simp_all)
  next
    case (Sending x go_on r)
    let ?s1 = "s\<lparr>cl_in := pump_sent True x go_on r, cl_taken := cl_taken s @ [x]\<rparr>"
    have "client_run L R T C dbgf [Inbound, CallerTake] s = Some ?s1"
      using Sending less.prems by (simp add: inbound_step_def bounded_send_def STREAM_CHANNEL_CAPACITY_def)
    then show ?thesis
      by (rule go) (use less.prems Sending in \<open>simp_all add: pump_sent_def\<close>)
  next
    case Stopped
    with less.prems show ?thesis by (intro exI [of _ "[]"] exI [of _ s]) simp
  qed
qed

lemma caller_sends:
  assumes S: "quic_send T written closed healthy" and L: "leb128_codec L"
  shows "list_all (frame_ok C) (map FRequestChunk chunks) \<Longrightarrow> healthy (cl_send s) \<Longrightarrow> cl_req_tx s \<Longrightarrow>
    cl_out s = OutRunning \<Longrightarrow> cl_requests s = [] \<Longrightarrow>
    \<exists>es s'. client_run L R T C dbgf es s = Some s' \<and> healthy (cl_send s') \<and>
      s' = s\<lparr>cl_send := cl_send s', cl_accepted := cl_accepted s @ chunks\<rparr>"
proof (induction chunks arbitrary: s)
  case Nil
  then show ?case by (intro exI [of _ "[]"] exI [of _ s]) simp
next
  case (Cons chunk rest)
  from Cons.prems(1) obtain bs where b: "frame_bytes C (FRequestChunk chunk) = Some bs"
    "payload_within (2 ^ 64 - 1) C (FRequestChunk chunk)" by (auto elim: frame_okE)
  from quic_send.write_frame_ok [OF S L Cons.prems(2) b] obtain t1 where
    t1: "write_request_chunk L T (cl_send s) chunk = (Inr (), t1)" "healthy t1" by auto
  let ?s1 = "s\<lparr>cl_send := t1, cl_accepted := cl_accepted s @ [chunk]\<rparr>"
  have run: "client_run L R T C dbgf [CallerSend chunk, Outbound] s = Some ?s1"
    using Cons.prems t1(1) by (simp add: outbound_step_def bounded_send_def STREAM_CHANNEL_CAPACITY_def)
  from Cons.IH [of ?s1] Cons.prems t1(2) obtain es s' where
    "client_run L R T C dbgf es ?s1 = Some s'" "healthy (cl_send s')"
    "s' = ?s1\<lparr>cl_send := cl_send s', cl_accepted := cl_accepted ?s1 @ rest\<rparr>" by auto
  with client_run_append [OF run, of es] show ?case
    by (intro exI [of _ "[CallerSend chunk, Outbound] @ es"] exI [of _ s']) simp
qed

lemma client_can_be_done:
  assumes L: "leb128_codec L" and R: "quic_recv R content ended" and S: "quic_send T written closed healthy"
    and chunks: "list_all (frame_ok C) (map FRequestChunk chunks)" and t: "healthy t"
  shows "\<exists>es s. client_run L R T C dbgf es (client_spawn r t) = Some s \<and> client_done s \<and> cl_accepted s = chunks"
proof -
  from caller_sends [OF S L chunks, where s = "client_spawn r t" and R = R and dbgf = dbgf] t
  obtain es s where s: "client_run L R T C dbgf es (client_spawn r t) = Some s"
    "s = (client_spawn r t)\<lparr>cl_send := cl_send s, cl_accepted := chunks\<rparr>"
    by (auto simp: client_spawn_def)
  have f: "cl_out s = OutRunning" "cl_req_tx s" "cl_requests s = []" "cl_accepted s = chunks"
    "cl_responses s = []" "cl_resp_rx s"
    by (subst s(2), simp add: client_spawn_def)+
  then have "\<exists>s1. client_run L R T C dbgf [CallerDropSender, Outbound] s = Some s1 \<and>
    cl_out s1 = OutReturned \<and> cl_accepted s1 = chunks \<and> cl_responses s1 = [] \<and> cl_resp_rx s1"
    by (simp add: outbound_step_def split: prod.split)
  then obtain s1 where s1: "client_run L R T C dbgf [CallerDropSender, Outbound] s = Some s1"
    "cl_out s1 = OutReturned" "cl_accepted s1 = chunks" "cl_responses s1 = []" "cl_resp_rx s1" by blast
  from inbound_drains [OF R s1(4,5), of L T C dbgf] obtain fs s2 where
    s2: "client_run L R T C dbgf fs s1 = Some s2" "cl_in s2 = Stopped" "cl_responses s2 = []" "cl_resp_rx s2"
    "cl_out s2 = cl_out s1" "cl_accepted s2 = cl_accepted s1" by blast
  have "client_run L R T C dbgf (es @ [CallerDropSender, Outbound] @ fs) (client_spawn r t) = Some s2"
    using client_run_append [OF s(1)] client_run_append [OF s1(1)] s2(1) by simp
  with s1 s2 show ?thesis by (auto simp: client_done_def)
qed

subsection \<open>Properties\<close>

text \<open>
  C15. The client's tasks under every schedule and every behaviour of the caller. What the caller takes
  is a prefix of what the sequential pump delivers, and all of it once the pump has stopped and the
  queue of a kept stream is empty. The accepted chunks are on the wire in order or still queued; a
  request task that returned has left the stream exactly as the sequential pump does on them; one
  that was aborted has written a prefix and at most a part of the next chunk's frame, and is aborted
  only after the responses ended. Both queues stay
  within 16, and when neither task can move the client is done or waits for its caller.
\<close>

theorem client_tasks_sound:
  assumes R: "quic_recv R content ended" and M: "mpsc M live"
    and alone: "pump_inbound_responses R C dbgf M recv (mp_new M) = Some (recv2, c)"
    and run: "client_run L R T C dbgf es (client_spawn recv send) = Some s"
  shows "prefix (cl_taken s) (mp_items M c) \<and>
    (cl_in s = Stopped \<and> cl_resp_rx s \<and> cl_responses s = [] \<longrightarrow> cl_taken s = mp_items M c) \<and>
    (case cl_out s of
       OutRunning \<Rightarrow> \<exists>sent. cl_accepted s = sent @ cl_requests s \<and>
         write_frames L T C (map FRequestChunk sent) send = (Inr (), cl_send s)
     | OutReturned \<Rightarrow> cl_send s = pump_outbound_requests L T send (cl_accepted s)
     | OutAborted \<Rightarrow> cl_in s = Stopped \<and> cut_after L T C send (cl_accepted s) (cl_send s)) \<and>
    length (cl_requests s) \<le> 16 \<and> length (cl_responses s) \<le> 16 \<and>
    ((\<forall>e. e \<in> {Outbound, Inbound, Abort None} \<longrightarrow> client_step L R T C dbgf e s = None) \<longrightarrow> waits_for_caller s)"
proof -
  note inv = client_items [OF R M alone run]
  then have "outbound_inv L T C send s" "inbound_inv R C dbgf (mp_items M c) s"
    "length (cl_requests s) \<le> 16" "length (cl_responses s) \<le> 16"
    by (simp_all add: client_inv_def STREAM_CHANNEL_CAPACITY_def)
  moreover from this(2) have "prefix (cl_taken s) (mp_items M c)"
    by (metis inbound_inv_def prefixI)
  moreover from \<open>inbound_inv R C dbgf (mp_items M c) s\<close>
  have "cl_in s = Stopped \<and> cl_resp_rx s \<and> cl_responses s = [] \<longrightarrow> cl_taken s = mp_items M c"
    by (auto simp: inbound_inv_def)
  ultimately show ?thesis
    using stuck_waits_for_caller [OF inv] by (auto simp: outbound_inv_def intro: prefixI split: outbound.splits)
qed

theorem client_tasks_sound_witness:
  "\<exists>s. client_run leb_ref buf_recv buf_send ref_codecs (\<lambda>_. ''frame'')
       [CallerSend [7], Inbound, CallerDropSender] (client_spawn (rx_of []) tx_new) = Some s \<and>
     cl_taken s = [] \<and> cl_accepted s = [[7]] \<and> cl_requests s = [[7]] \<and> length (cl_requests s) \<le> 16"
proof -
  let ?run = "client_run leb_ref buf_recv buf_send ref_codecs (\<lambda>_. ''frame'')
    [CallerSend [7], Inbound, CallerDropSender] (client_spawn (rx_of []) tx_new)"
  obtain s where s: "?run = Some s" "cl_accepted s = [[7]]" "cl_requests s = [[7]]"
    by (simp add: client_spawn_def bounded_send_def STREAM_CHANNEL_CAPACITY_def inbound_step_def)
  obtain r2 c where c: "pump_inbound_responses buf_recv ref_codecs (\<lambda>_. ''frame'') list_chan (rx_of []) (mp_new list_chan)
      = Some (r2, c)"
    using response_pump.pump_returns [OF buf_rx.quic_recv_axioms, where r = "rx_of []" and C = ref_codecs
        and dbgf = "\<lambda>_. ''frame''" and M = list_chan and c = "mp_new list_chan"] by blast
  have "list_all (frame_ok ref_codecs) []" "rb_data (rx_of []) = frames_bytes ref_codecs []"
    "rb_end (rx_of []) = None" "ch_left (mp_new list_chan) = None"
    by (simp_all add: frames_bytes_def list_chan_def)
  from response_pump.pump_frames [OF buf_rx.quic_recv_axioms lc.mpsc_axioms ref_codecs_ok this,
      of "\<lambda>_. ''frame''"] c
  have "mp_items list_chan c = []" by (simp add: lc.new_items)
  with client_tasks_sound [OF buf_rx.quic_recv_axioms lc.mpsc_axioms c s(1)] s show ?thesis by auto
qed

end
