(* ===== verification/Connection_Cache.thy ===== *)
theory Connection_Cache
  imports Client
begin

section \<open>The connection cache behind the client\<close>

text \<open>
  nerw-core keeps one outbound connection per peer and protocol. \<open>connection_cache\<close> states what its
  documentation, as quoted in \<^verbatim>\<open>client.rs\<close>, promises of the three operations the client uses:
  opening a substream leaves its connection in the cache, a failed open evicts the dead entry itself,
  an explicit eviction removes one entry, and no operation touches another entry. The client's part is to
  evict a connection on which an exchange has failed.
\<close>

locale connection_cache =
  fixes N :: "('t, 'r, 'n) net_ops"
    and cached :: "'n \<Rightarrow> node_id \<Rightarrow> bytes \<Rightarrow> bool"
  assumes open_cached: "net_open N p a n = (Inr h, n') \<Longrightarrow> cached n' p a"
    and open_failed: "net_open N p a n = (Inl e, n') \<Longrightarrow> \<not> cached n' p a"
    and open_keeps: "net_open N p a n = (x, n') \<Longrightarrow> (q, b) \<noteq> (p, a) \<Longrightarrow> cached n' q b = cached n q b"
    and evicted: "\<not> cached (net_evict N p a n) p a"
    and evict_keeps: "(q, b) \<noteq> (p, a) \<Longrightarrow> cached (net_evict N p a n) q b = cached n q b"
begin

text \<open>A unary call, by what the open gave.\<close>

lemma call_open_failed:
  assumes "build_unary_request_frame L name request = Inr frame"
    and "net_open N peer ALPN_NERW_RPC_1_0_0 n = (Inl e, n1)"
  shows "call L R T W N peer name request n = (Inl (TransportOpenSubstream (net_show_id N peer) e), n1)"
  using assms by (simp add: call_def call_inner_def)

lemma call_opened:
  assumes "build_unary_request_frame L name request = Inr frame"
    and "net_open N peer ALPN_NERW_RPC_1_0_0 n = (Inr (t, r), n1)"
    and "call L R T W N peer name request n = (res, n')"
  shows "n' = (case res of Inl e \<Rightarrow> if is_transport_io_error e then net_evict N peer ALPN_NERW_RPC_1_0_0 n1 else n1
    | Inr _ \<Rightarrow> n1)"
  using assms by (auto simp: call_def call_inner_def split: sum.splits)

lemma call_cached:
  assumes "build_unary_request_frame L name request = Inr frame"
    and "net_open N peer ALPN_NERW_RPC_1_0_0 n = (Inr (t, r), n1)"
    and "call L R T W N peer name request n = (res, n')"
  shows "cached n' peer ALPN_NERW_RPC_1_0_0 \<longleftrightarrow> (\<forall>e. res = Inl e \<longrightarrow> \<not> is_transport_io_error e)"
  using call_opened [OF assms] open_cached [OF assms(2)] evicted by (auto split: sum.splits)

lemma call_keeps:
  assumes frame: "build_unary_request_frame L name request = Inr frame"
    and res: "call L R T W N peer name request n = (res, n')" and other: "(q, b) \<noteq> (peer, ALPN_NERW_RPC_1_0_0)"
  shows "cached n' q b = cached n q b"
proof (cases "net_open N peer ALPN_NERW_RPC_1_0_0 n")
  case (Pair x n1)
  note kept = open_keeps [OF Pair other]
  show ?thesis
  proof (cases x)
    case (Inl e)
    with call_open_failed [OF frame] Pair res kept show ?thesis by simp
  next
    case (Inr h)
    with Pair have "net_open N peer ALPN_NERW_RPC_1_0_0 n = (Inr (fst h, snd h), n1)" by simp
    from call_opened [OF frame this res] kept evict_keeps [OF other, of n1] show ?thesis
      by (simp split: sum.splits if_splits)
  qed
qed

text \<open>A streaming call leaves the network as the open did.\<close>

lemma call_streaming_net:
  assumes "net_open N peer ALPN_NERW_RPC_1_0_0 n = (x, n1)"
    and "call_streaming L R T C dbgo N peer name (n, k) = (res, n', k')"
  shows "n' = n1 \<and> k' = (if isl x then k else k + 1) \<and>
    (\<forall>e. x = Inl e \<longrightarrow> res = Inl (TransportOpenSubstream (net_show_id N peer) e))"
  using assms by (auto simp: call_streaming_def Let_def split: sum.splits prod.splits)

end

subsection \<open>A network with a cache\<close>

text \<open>
  Every open gives the same two stream halves, except that the peer with the empty id cannot be
  reached; the cache is a list of keys.
\<close>

type_synonym ('t, 'r) cache_net = "('t \<times> 'r) \<times> (node_id \<times> bytes) list"

definition cache_net :: "('t, 'r, ('t, 'r) cache_net) net_ops" where
  "cache_net = \<lparr>
     net_open = (\<lambda>p a (h, c). if p = [] then (Inl ''no route'', (h, filter (\<lambda>k. k \<noteq> (p, a)) c))
                             else (Inr h, (h, List.insert (p, a) c))),
     net_evict = (\<lambda>p a (h, c). (h, filter (\<lambda>k. k \<noteq> (p, a)) c)),
     net_show_id = (\<lambda>_. ''peer'')\<rparr>"

definition in_cache :: "('t, 'r) cache_net \<Rightarrow> node_id \<Rightarrow> bytes \<Rightarrow> bool" where
  "in_cache n p a \<longleftrightarrow> (p, a) \<in> set (snd n)"

interpretation cn: connection_cache "cache_net :: ('t, 'r, ('t, 'r) cache_net) net_ops" in_cache
  by unfold_locales (auto simp: cache_net_def in_cache_def split: if_splits prod.splits)

subsection \<open>Properties\<close>

text \<open>
  C20. What a call leaves in the connection cache, for every network that keeps its contract. A failed
  open is reported and leaves no entry. Once the substream is open, a unary call leaves the
  connection cached unless its result is a transport read or write error; on a send half that works
  this means: exactly when the answer was complete and within the client's limit, whatever the answer says.
  A streaming call leaves the connection in the cache whatever its result is, and uses up its request
  id. Neither call touches another entry.
\<close>

theorem cache_after_call:
  assumes N: "connection_cache N cached" and L: "leb128_codec L" and R: "quic_recv R content ended"
    and S: "quic_send T written closed healthy" and W: "postcard_codec W" and name: "length name < 2 ^ 64"
    and unary: "call L R T W N peer name request n = (res, n')"
    and streaming: "call_streaming L R T C dbgo N peer name (n, k) = (sres, n'', k')"
  shows "(case net_open N peer ALPN_NERW_RPC_1_0_0 n of
      (Inl e, _) \<Rightarrow> res = Inl (TransportOpenSubstream (net_show_id N peer) e) \<and> 
        sres = Inl (TransportOpenSubstream (net_show_id N peer) e) \<and> k' = k \<and>
        \<not> cached n' peer ALPN_NERW_RPC_1_0_0 \<and> \<not> cached n'' peer ALPN_NERW_RPC_1_0_0
    | (Inr (t, r), _) \<Rightarrow>
        (cached n' peer ALPN_NERW_RPC_1_0_0 \<longleftrightarrow> (\<nexists>m. res = Inl (TransportRead m) \<or> res = Inl (TransportWrite m))) \<and>
        (healthy t \<longrightarrow> (cached n' peer ALPN_NERW_RPC_1_0_0 \<longleftrightarrow>
          ended r = None \<and> length (content r) \<le> RPC_RESPONSE_READ_LIMIT)) \<and>
        cached n'' peer ALPN_NERW_RPC_1_0_0 \<and> k' = k + 1) \<and>
    ((q, b) \<noteq> (peer, ALPN_NERW_RPC_1_0_0) \<longrightarrow> cached n' q b = cached n q b \<and> cached n'' q b = cached n q b)"
  (is "?own \<and> (_ \<longrightarrow> ?others)")
proof (intro conjI impI)
  obtain frame where frame: "build_unary_request_frame L name request = Inr frame"
    using leb128_codec.request_frame_eq [OF L name] by blast
  obtain x n1 where opened: "net_open N peer ALPN_NERW_RPC_1_0_0 n = (x, n1)"
    by (cases "net_open N peer ALPN_NERW_RPC_1_0_0 n")
  note st = connection_cache.call_streaming_net [OF N opened streaming]
  show ?own
  proof (cases x)
    case (Inl e)
    with connection_cache.call_open_failed [OF N frame] opened unary st connection_cache.open_failed [OF N]
    show ?thesis by fastforce
  next
    case (Inr h)
    obtain t r where h: "h = (t, r)" by (cases h)
    with Inr opened have op: "net_open N peer ALPN_NERW_RPC_1_0_0 n = (Inr (t, r), n1)" by simp
    note cached = connection_cache.call_cached [OF N frame op unary]
    have io: "(\<forall>e. res = Inl e \<longrightarrow> \<not> is_transport_io_error e) \<longleftrightarrow>
      (\<nexists>m. res = Inl (TransportRead m) \<or> res = Inl (TransportWrite m))"
      by (auto elim: is_transport_io_error.elims)
    have "cached n' peer ALPN_NERW_RPC_1_0_0 \<longleftrightarrow> ended r = None \<and> length (content r) \<le> RPC_RESPONSE_READ_LIMIT"
      if "healthy t"
      using call_evicts_iff_stream_failed [OF L R S W name op that, of request] unary cached decode_response_no_io [of W]
      by (auto split: if_splits)
    with op Inr h st cached io connection_cache.open_cached [OF N op] show ?thesis by simp
  qed
  show "cached n' q b = cached n q b" if "(q, b) \<noteq> (peer, ALPN_NERW_RPC_1_0_0)"
    by (rule connection_cache.call_keeps [OF N frame unary that])
  show "cached n'' q b = cached n q b" if "(q, b) \<noteq> (peer, ALPN_NERW_RPC_1_0_0)"
    using connection_cache.open_keeps [OF N opened that] st by simp
qed

theorem cache_after_call_witness:
  "let net = (((tx_new, rx_of [0x01, 9]), []) :: (tx_buf, rx_buf) cache_net);
       dropped = (((tx_new, \<lparr>rb_data = [], rb_end = Some (OtherReadError ''connection lost'')\<rparr>), []) :: (tx_buf, rx_buf) cache_net);
       unary = (\<lambda>n. snd (call leb_ref buf_recv buf_send pc_wire_error_ref cache_net [1] ''a/b/c'' [7] n));
       streaming = (\<lambda>n. fst (snd (call_streaming leb_ref buf_recv buf_send ref_codecs (\<lambda>_. ''frame'') cache_net [1] ''a/b/c'' (n, 7))))
   in in_cache (unary net) [1] ALPN_NERW_RPC_1_0_0 \<and>
     \<not> in_cache (unary dropped) [1] ALPN_NERW_RPC_1_0_0 \<and>
     in_cache (streaming dropped) [1] ALPN_NERW_RPC_1_0_0"
proof -
  have ok: "tx_healthy tx_new" by (simp add: tx_new_def tx_healthy_def)
  have n: "net_open cache_net [1] ALPN_NERW_RPC_1_0_0 (h, []) = (Inr h, (h, [([1], ALPN_NERW_RPC_1_0_0)]))"
    for h :: "tx_buf \<times> rx_buf" by (simp add: cache_net_def)
  note th = cache_after_call [OF cn.connection_cache_axioms lr.leb128_codec_axioms buf_rx.quic_recv_axioms
      buf_tx.quic_send_axioms pwe.postcard_codec_axioms]
  have name: "length ''a/b/c'' < 2 ^ 64" by simp
  have own: "(in_cache n' [1] ALPN_NERW_RPC_1_0_0 \<longleftrightarrow> rb_end r = None \<and> length (rb_data r) \<le> RPC_RESPONSE_READ_LIMIT) \<and>
      in_cache n'' [1] ALPN_NERW_RPC_1_0_0"
    if "n' = snd (call leb_ref buf_recv buf_send pc_wire_error_ref cache_net [1] ''a/b/c'' [7] ((tx_new, r), []))"
      "n'' = fst (snd (call_streaming leb_ref buf_recv buf_send ref_codecs (\<lambda>_. ''frame'') cache_net [1] ''a/b/c''
        (((tx_new, r), []), 7)))" for r n' n''
  proof -
    let ?u = "call leb_ref buf_recv buf_send pc_wire_error_ref cache_net [1] ''a/b/c'' [7] ((tx_new, r), [])"
    let ?v = "call_streaming leb_ref buf_recv buf_send ref_codecs (\<lambda>_. ''frame'') cache_net [1] ''a/b/c'' (((tx_new, r), []), 7)"
    have u: "?u = (fst ?u, n')" by (simp only: that(1) prod.collapse)
    have v: "?v = (fst ?v, n'', snd (snd ?v))" by (simp only: that(2) prod.collapse)
    from th [OF name u v, THEN conjunct1, unfolded n prod.case sum.case] ok show ?thesis by blast
  qed
  show ?thesis unfolding Let_def
    by (simp only: own [OF refl refl]) (simp add: RPC_RESPONSE_READ_LIMIT_def)
qed

end
