(* ===== verification/Task_Pool.thy ===== *)
theory Task_Pool
  imports Rust_Prelude "HOL-Library.Multiset"
begin

section \<open>Tasks behind a semaphore\<close>

text \<open>
  The server and the datagram dispatcher bound their concurrency in the same way: a task is
  spawned for every arrival, waits for a permit of a \<^verbatim>\<open>tokio::sync::Semaphore\<close> that was
  created with a fixed number of permits and is never closed, works, and gives the permit back when
  it ends. The contract of a semaphore (permits are granted in the order of the requests, an owned
  permit is returned when dropped) is the step relation \<open>pool_step\<close>. Both components have a step
  relation of their own that maps onto this one step by step; what is proved here holds for both.
\<close>

record 'a pool =
  po_permits :: nat
  po_waiting :: "'a list"
  po_running :: "'a multiset"
  po_done :: "'a multiset"

definition pool_new :: "nat \<Rightarrow> 'a pool" where
  "pool_new permits = \<lparr>po_permits = permits, po_waiting = [], po_running = {#}, po_done = {#}\<rparr>"

datatype 'a pool_event = Spawn 'a | Acquire | Finish 'a

inductive pool_step :: "'a pool \<Rightarrow> 'a pool_event \<Rightarrow> 'a pool \<Rightarrow> bool" where
  spawn: "pool_step p (Spawn x) (p\<lparr>po_waiting := po_waiting p @ [x]\<rparr>)"
| acquire: "0 < po_permits p \<Longrightarrow> po_waiting p = x # ws \<Longrightarrow>
    pool_step p Acquire (p\<lparr>po_permits := po_permits p - 1, po_waiting := ws,
      po_running := add_mset x (po_running p)\<rparr>)"
| finish: "x \<in># po_running p \<Longrightarrow>
    pool_step p (Finish x) (p\<lparr>po_permits := po_permits p + 1, po_running := po_running p - {#x#},
      po_done := add_mset x (po_done p)\<rparr>)"

inductive_cases pool_step_SpawnE: "pool_step p (Spawn x) q"
inductive_cases pool_step_AcquireE: "pool_step p Acquire q"
inductive_cases pool_step_FinishE: "pool_step p (Finish x) q"

inductive pool_run :: "'a pool \<Rightarrow> 'a pool_event list \<Rightarrow> 'a pool \<Rightarrow> bool" where
  run_nil: "pool_run p [] p"
| run_snoc: "pool_run p es q \<Longrightarrow> pool_step q e r \<Longrightarrow> pool_run p (es @ [e]) r"

lemma pool_run_Cons:
  assumes "pool_step p e q" "pool_run q es r"
  shows "pool_run p (e # es) r"
  using assms(2,1)
proof (induction rule: pool_run.induct)
  case (run_nil q)
  from pool_run.run_snoc [OF pool_run.run_nil run_nil] show ?case by simp
next
  case (run_snoc q es r f s)
  from pool_run.run_snoc [OF run_snoc.IH [OF run_snoc.prems] run_snoc.hyps(2)] show ?case by simp
qed

fun spawned :: "'a pool_event list \<Rightarrow> 'a multiset" where
  "spawned [] = {#}"
| "spawned (Spawn x # es) = add_mset x (spawned es)"
| "spawned (_ # es) = spawned es"

lemma spawned_append: "spawned (es @ fs) = spawned es + spawned fs"
  by (induction es rule: spawned.induct) simp_all

text \<open>Permits are neither lost nor invented, and no task is lost, doubled or made up.\<close>

definition pool_inv :: "nat \<Rightarrow> 'a multiset \<Rightarrow> 'a pool \<Rightarrow> bool" where
  "pool_inv limit arrived p \<longleftrightarrow>
     po_permits p + size (po_running p) = limit \<and>
     mset (po_waiting p) + po_running p + po_done p = arrived"

lemma pool_step_inv:
  assumes "pool_step p e q" "pool_inv limit arrived p"
  shows "pool_inv limit (arrived + spawned [e]) q"
  using assms
proof cases
  case (finish x)
  from finish(3) obtain m where "po_running p = add_mset x m" by (metis multi_member_split)
  with assms(2) have "po_permits p + Suc (size m) = limit"
    "mset (po_waiting p) + add_mset x m + po_done p = arrived" by (simp_all add: pool_inv_def)
  with finish(1,2) \<open>po_running p = add_mset x m\<close> show ?thesis by (simp add: pool_inv_def)
qed (auto simp: pool_inv_def)

lemma pool_run_keeps:
  "pool_run p es q \<Longrightarrow> pool_inv limit arrived p \<Longrightarrow> pool_inv limit (arrived + spawned es) q"
proof (induction rule: pool_run.induct)
  case (run_nil p)
  then show ?case by simp
next
  case (run_snoc p es q e r)
  from pool_step_inv [OF run_snoc.hyps(2) run_snoc.IH [OF run_snoc.prems]] show ?case
    by (simp add: spawned_append add.assoc)
qed

lemma pool_run_inv: "pool_run (pool_new limit) es q \<Longrightarrow> pool_inv limit (spawned es) q"
  using pool_run_keeps [of "pool_new limit" es q limit "{#}"] by (simp add: pool_inv_def pool_new_def)

text \<open>With at least one permit, some task can move as long as any is unfinished.\<close>

lemma pool_progress:
  assumes "pool_inv limit arrived p" "0 < limit" "po_waiting p \<noteq> [] \<or> po_running p \<noteq> {#}"
  shows "\<exists>e q. (\<forall>x. e \<noteq> Spawn x) \<and> pool_step p e q"
proof (cases "po_running p = {#}")
  case True
  with assms obtain x ws where "po_waiting p = x # ws" "0 < po_permits p"
    by (cases "po_waiting p") (auto simp: pool_inv_def)
  from acquire [OF this(2,1)] have "(\<forall>x. Acquire \<noteq> Spawn x) \<and> (\<exists>q. pool_step p Acquire q)" by auto
  then show ?thesis by metis
next
  case False
  then obtain x where "x \<in># po_running p" by (metis multiset_nonemptyE)
  from finish [OF this] have "(\<forall>y. Finish x \<noteq> Spawn y) \<and> (\<exists>q. pool_step p (Finish x) q)" by auto
  then show ?thesis by metis
qed

text \<open>The number of moves left before every spawned task has finished.\<close>

definition pool_work :: "'a pool \<Rightarrow> nat" where
  "pool_work p = 2 * length (po_waiting p) + size (po_running p)"

lemma pool_work_decreases:
  assumes "pool_step p e q" "\<forall>x. e \<noteq> Spawn x"
  shows "pool_work q < pool_work p"
  using assms
proof cases
  case (finish x)
  then obtain m where "po_running p = add_mset x m" by (metis multi_member_split)
  with finish show ?thesis by (simp add: pool_work_def)
qed (auto simp: pool_work_def)

text \<open>Hence every pool can be run until nothing is left, without a further arrival.\<close>

lemma pool_drains:
  assumes "pool_inv limit arrived p" "0 < limit"
  shows "\<exists>es q. pool_run p es q \<and> spawned es = {#} \<and> po_waiting q = [] \<and> po_running q = {#}"
  using assms
proof (induction "pool_work p" arbitrary: p rule: less_induct)
  case less
  show ?case
  proof (cases "po_waiting p = [] \<and> po_running p = {#}")
    case True
    then show ?thesis using run_nil by fastforce
  next
    case False
    then obtain e q where e: "\<forall>x. e \<noteq> Spawn x" "pool_step p e q"
      using pool_progress [OF less.prems] by blast
    then have sp: "spawned [e] = {#}" by (cases e) auto
    from pool_step_inv [OF e(2) less.prems(1)] sp have "pool_inv limit arrived q" by simp
    from less.hyps [OF pool_work_decreases [OF e(2,1)] this less.prems(2)] obtain es r where
      "pool_run q es r" "spawned es = {#}" "po_waiting r = []" "po_running r = {#}" by blast
    moreover have "spawned (e # es) = spawned [e] + spawned es" using spawned_append [of "[e]" es] by simp
    ultimately show ?thesis using pool_run_Cons [OF e(2)] sp by (intro exI [of _ "e # es"] exI [of _ r]) auto
  qed
qed

text \<open>With no permit, no task ever runs.\<close>

lemma pool_zero_stuck:
  "pool_run p es q \<Longrightarrow> p = pool_new 0 \<Longrightarrow> po_permits q = 0 \<and> po_running q = {#} \<and> po_done q = {#}"
  by (induction rule: pool_run.induct) (auto simp: pool_new_def elim: pool_step.cases)

end
