(* ===== verification/Server.thy ===== *)
theory Server
  imports Server_Unary Task_Pool
begin

section \<open>server.rs: the server and its accept loop\<close>

text \<open>
  The server object with its ALPN table and its one accept loop, and the system of tasks it spawns:
  a task per connection, which waits for a connection permit and then accepts streams, and a task
  per stream, which waits for a stream permit and then handles the substream. What one substream
  task does is \<open>handle_inbound_substream\<close> of the theory \<open>Server_Streaming\<close>; here it is the event
  \<open>StreamFinished\<close>. The ALPN table is a \<^verbatim>\<open>DashMap\<close>, the parameter \<open>M\<close>; handlers of the
  application are values \<open>'a\<close>; \<open>'j\<close> is a \<^verbatim>\<open>JoinHandle\<close>.
\<close>

definition DEFAULT_MAX_CONCURRENT_STREAMS :: nat where
  "DEFAULT_MAX_CONCURRENT_STREAMS = 256"

definition DEFAULT_MAX_CONCURRENT_CONNECTIONS :: nat where
  "DEFAULT_MAX_CONCURRENT_CONNECTIONS = 1024"

definition CLOSE_NO_HANDLER :: u32 where
  "CLOSE_NO_HANDLER = 1"

record server_config =
  max_concurrent_streams :: nat
  max_concurrent_connections :: nat

definition config_default :: server_config where
  "config_default = \<lparr>max_concurrent_streams = DEFAULT_MAX_CONCURRENT_STREAMS,
     max_concurrent_connections = DEFAULT_MAX_CONCURRENT_CONNECTIONS\<rparr>"

text \<open>The table holds the built-in handler, whose semaphores \<open>serve\<close> creates, or one of the application.\<close>

datatype 'a alpn_handler = WireDispatch nat nat | AppHandler 'a

record ('m, 'j) rpc_server =
  sv_config :: server_config
  sv_alpn_handlers :: 'm
  sv_accept_loop :: "'j option"

definition server_with_config :: "(bytes, 'a alpn_handler, 'm) map_ops \<Rightarrow> server_config \<Rightarrow> ('m, 'j) rpc_server" where
  "server_with_config M config =
     \<lparr>sv_config = config, sv_alpn_handlers = mo_new M, sv_accept_loop = None\<rparr>"

definition server_new :: "(bytes, 'a alpn_handler, 'm) map_ops \<Rightarrow> ('m, 'j) rpc_server" where
  "server_new M = server_with_config M config_default"

definition registered_alpn_count :: "(bytes, 'a alpn_handler, 'm) map_ops \<Rightarrow> ('m, 'j) rpc_server \<Rightarrow> nat" where
  "registered_alpn_count M srv = mo_len M (sv_alpn_handlers srv)"

definition register_alpn_handler ::
  "(bytes, 'a alpn_handler, 'm) map_ops \<Rightarrow> bytes \<Rightarrow> 'a \<Rightarrow> ('m, 'j) rpc_server \<Rightarrow> ('m, 'j) rpc_server" where
  "register_alpn_handler M alpn handler srv =
     srv\<lparr>sv_alpn_handlers := mo_insert M alpn (AppHandler handler) (sv_alpn_handlers srv)\<rparr>"

text \<open>\<open>handle\<close> is what \<^verbatim>\<open>tokio::spawn\<close> returns for the accept loop.\<close>

definition serve ::
  "(bytes, 'a alpn_handler, 'm) map_ops \<Rightarrow> 'j \<Rightarrow> ('m, 'j) rpc_server \<Rightarrow> unit rpc_result \<times> ('m, 'j) rpc_server" where
  "serve M handle srv =
     (if sv_accept_loop srv \<noteq> None then (Inl AlreadyServing, srv)
      else
        (let wire_handler = WireDispatch (max_concurrent_streams (sv_config srv))
               (max_concurrent_connections (sv_config srv));
             srv1 = srv\<lparr>sv_alpn_handlers :=
               mo_insert M ALPN_NERW_RPC_1_0_0 wire_handler (sv_alpn_handlers srv)\<rparr>
         in (Inr (), srv1\<lparr>sv_accept_loop := Some handle\<rparr>)))"

text \<open>Dropping the server: the handle to abort, if any.\<close>

definition drop_server :: "('m, 'j) rpc_server \<Rightarrow> 'j option \<times> ('m, 'j) rpc_server" where
  "drop_server srv = (sv_accept_loop srv, srv\<lparr>sv_accept_loop := None\<rparr>)"

subsection \<open>The accept loop and its tasks\<close>

text \<open>
  The loop spawns a task for every connection the endpoint accepts (\<open>sy_pending\<close> counts those that
  are still in the handshake); the task looks its protocol up in the table once the handshake is
  done. Dropping the server aborts the loop; the tasks it has spawned go on. The slot of the dropped
  object is left as it is.

  What the handshake of an incoming connection gives, and what the accept loop does with it.\<close>

datatype incoming = IncomingFailed | IncomingConnected bytes

datatype 'a accept_action = NoAction | RunWire nat nat | RunApp 'a | CloseConnection u32 bytes

definition accept_incoming ::
  "(bytes, 'a alpn_handler, 'm) map_ops \<Rightarrow> 'm \<Rightarrow> incoming \<Rightarrow> 'a accept_action" where
  "accept_incoming M table inc =
     (case inc of
        IncomingFailed \<Rightarrow> NoAction
      | IncomingConnected alpn \<Rightarrow>
          (case mo_get M table alpn of
             Some (WireDispatch streams connections) \<Rightarrow> RunWire streams connections
           | Some (AppHandler h) \<Rightarrow> RunApp h
           | None \<Rightarrow> CloseConnection CLOSE_NO_HANDLER (str_bytes ''no-handler-registered'')))"

record ('m, 'j, 's) system =
  sy_server :: "('m, 'j) rpc_server"
  sy_accepting :: bool
  sy_pending :: nat
  sy_connection_id_counter :: u64
  sy_connections :: "u64 pool"
  sy_streams :: "(u64 \<times> 's) pool"

datatype ('a, 'j, 's) sys_event =
    Served 'j
  | AlpnRegistered bytes 'a
  | ConnectionAccepted
  | Incoming incoming
  | EndpointClosed
  | ServerDropped
  | ConnectionPermit
  | StreamAccepted u64 's
  | AcceptBiFailed u64
  | StreamPermit
  | StreamFinished "u64 \<times> 's"

definition system_init :: "(bytes, 'a alpn_handler, 'm) map_ops \<Rightarrow> server_config \<Rightarrow> ('m, 'j, 's) system" where
  "system_init M config =
     \<lparr>sy_server = server_with_config M config, sy_accepting = False, sy_pending = 0, sy_connection_id_counter = 1,
      sy_connections = pool_new 0, sy_streams = pool_new 0\<rparr>"

inductive sys_step ::
  "(bytes, 'a alpn_handler, 'm) map_ops \<Rightarrow> ('m, 'j, 's) system \<Rightarrow> ('a, 'j, 's) sys_event \<Rightarrow>
   ('m, 'j, 's) system \<Rightarrow> bool" for M where
  served: "serve M j (sy_server s) = (Inr (), srv) \<Longrightarrow>
    sys_step M s (Served j) (s\<lparr>sy_server := srv, sy_accepting := True,
      sy_connections := pool_new (max_concurrent_connections (sv_config srv)),
      sy_streams := pool_new (max_concurrent_streams (sv_config srv))\<rparr>)"
| serve_again: "serve M j (sy_server s) = (Inl e, srv) \<Longrightarrow>
    sys_step M s (Served j) (s\<lparr>sy_server := srv\<rparr>)"
| alpn_registered: "sys_step M s (AlpnRegistered alpn h)
    (s\<lparr>sy_server := register_alpn_handler M alpn h (sy_server s)\<rparr>)"
| connection_accepted: "sy_accepting s \<Longrightarrow>
    sys_step M s ConnectionAccepted (s\<lparr>sy_pending := sy_pending s + 1\<rparr>)"
| wire_connection: "0 < sy_pending s \<Longrightarrow>
    accept_incoming M (sv_alpn_handlers (sy_server s)) inc = RunWire ns nc \<Longrightarrow>
    pool_step (sy_connections s) (Spawn (sy_connection_id_counter s)) p \<Longrightarrow>
    sys_step M s (Incoming inc) (s\<lparr>sy_pending := sy_pending s - 1, sy_connections := p,
      sy_connection_id_counter := sy_connection_id_counter s + 1\<rparr>)"
| other_connection: "0 < sy_pending s \<Longrightarrow>
    accept_incoming M (sv_alpn_handlers (sy_server s)) inc = act \<Longrightarrow> (\<forall>ns nc. act \<noteq> RunWire ns nc) \<Longrightarrow>
    sys_step M s (Incoming inc) (s\<lparr>sy_pending := sy_pending s - 1\<rparr>)"
| endpoint_closed: "sy_accepting s \<Longrightarrow> sys_step M s EndpointClosed (s\<lparr>sy_accepting := False\<rparr>)"
| server_dropped: "drop_server (sy_server s) = (Some j, srv) \<Longrightarrow>
    sys_step M s ServerDropped (s\<lparr>sy_accepting := False\<rparr>)"
| connection_permit: "pool_step (sy_connections s) Acquire p \<Longrightarrow>
    sys_step M s ConnectionPermit (s\<lparr>sy_connections := p\<rparr>)"
| stream_accepted: "c \<in># po_running (sy_connections s) \<Longrightarrow> pool_step (sy_streams s) (Spawn (c, x)) p \<Longrightarrow>
    sys_step M s (StreamAccepted c x) (s\<lparr>sy_streams := p\<rparr>)"
| accept_bi_failed: "pool_step (sy_connections s) (Finish c) p \<Longrightarrow>
    sys_step M s (AcceptBiFailed c) (s\<lparr>sy_connections := p\<rparr>)"
| stream_permit: "pool_step (sy_streams s) Acquire p \<Longrightarrow>
    sys_step M s StreamPermit (s\<lparr>sy_streams := p\<rparr>)"
| stream_finished: "pool_step (sy_streams s) (Finish t) p \<Longrightarrow>
    sys_step M s (StreamFinished t) (s\<lparr>sy_streams := p\<rparr>)"

inductive sys_run ::
  "(bytes, 'a alpn_handler, 'm) map_ops \<Rightarrow> ('m, 'j, 's) system \<Rightarrow> ('a, 'j, 's) sys_event list \<Rightarrow>
   ('m, 'j, 's) system \<Rightarrow> bool" for M where
  sys_nil: "sys_run M s [] s"
| sys_snoc: "sys_run M s es s1 \<Longrightarrow> sys_step M s1 e s2 \<Longrightarrow> sys_run M s (es @ [e]) s2"

fun accepted_streams :: "('a, 'j, 's) sys_event list \<Rightarrow> (u64 \<times> 's) multiset" where
  "accepted_streams [] = {#}"
| "accepted_streams (StreamAccepted c x # es) = add_mset (c, x) (accepted_streams es)"
| "accepted_streams (_ # es) = accepted_streams es"

lemma accepted_append: "accepted_streams (es @ fs) = accepted_streams es + accepted_streams fs"
  by (induction es rule: accepted_streams.induct) simp_all

subsection \<open>Invariant\<close>

text \<open>
  \<open>n\<close> connections have reached the built-in handler; their ids are \<open>1, ..., n\<close> modulo 2^64.
\<close>

definition connection_ids :: "nat \<Rightarrow> u64 multiset" where
  "connection_ids n = image_mset word_of_nat (mset [1..<Suc n])"

definition sys_inv :: "server_config \<Rightarrow> (u64 \<times> 's) multiset \<Rightarrow> ('m, 'j, 's) system \<Rightarrow> bool" where
  "sys_inv config arrived s \<longleftrightarrow>
     sv_config (sy_server s) = config \<and>
     (if sv_accept_loop (sy_server s) = None then
        \<not> sy_accepting s \<and> sy_pending s = 0 \<and> sy_connections s = pool_new 0 \<and> sy_streams s = pool_new 0 \<and> arrived = {#} \<and>
        sy_connection_id_counter s = 1
      else
        pool_inv (max_concurrent_streams config) arrived (sy_streams s) \<and>
        (\<exists>n. pool_inv (max_concurrent_connections config) (connection_ids n) (sy_connections s) \<and>
          sy_connection_id_counter s = word_of_nat (Suc n)))"

lemma connection_ids_Suc: "connection_ids (Suc n) = connection_ids n + {#word_of_nat (Suc n)#}"
  by (simp add: connection_ids_def)

text \<open>The ids repeat only after 2^64 connections.\<close>

lemma connection_ids_distinct:
  assumes "n < 2 ^ 64"
  shows "count (connection_ids n) c \<le> 1"
proof -
  have "unat (word_of_nat k :: u64) = k" if "k \<le> n" for k
    using that assms by (simp add: unat_of_nat)
  then have "inj_on (word_of_nat :: nat \<Rightarrow> u64) (set [1..<Suc n])"
    by (intro inj_on_inverseI [where g = unat]) (simp del: upt_Suc)
  then have "distinct (map (word_of_nat :: nat \<Rightarrow> u64) [1..<Suc n])"
    by (simp only: distinct_map distinct_upt simp_thms)
  then show ?thesis
    unfolding connection_ids_def mset_map [symmetric] by (simp only: distinct_count_atmost_1) simp
qed

lemma pool_new_inv: "pool_inv limit {#} (pool_new limit)"
  by (simp add: pool_inv_def pool_new_def)

lemma pool_new_zero_stuck:
  assumes "pool_step (pool_new 0) e q"
  shows "\<exists>x. e = Spawn x"
  using assms by cases (simp_all add: pool_new_def)

lemma serve_Inr:
  "serve M j srv = (Inr (), srv') \<longleftrightarrow> sv_accept_loop srv = None \<and>
    srv' = srv\<lparr>sv_alpn_handlers := mo_insert M ALPN_NERW_RPC_1_0_0
        (WireDispatch (max_concurrent_streams (sv_config srv)) (max_concurrent_connections (sv_config srv)))
        (sv_alpn_handlers srv), sv_accept_loop := Some j\<rparr>"
  by (auto simp: serve_def Let_def)

lemma serve_Inl: "serve M j srv = (Inl e, srv') \<longleftrightarrow> sv_accept_loop srv \<noteq> None \<and> e = AlreadyServing \<and> srv' = srv"
  by (auto simp: serve_def Let_def)

lemma sys_inv_running:
  "sys_inv config arrived s \<Longrightarrow> sy_accepting s \<or> 0 < sy_pending s \<or> po_running (sy_connections s) \<noteq> {#} \<Longrightarrow>
    sv_accept_loop (sy_server s) \<noteq> None"
  by (auto simp: sys_inv_def pool_new_def split: if_splits)

lemma sys_inv_connections:
  assumes "sys_inv config arrived s" "pool_step (sy_connections s) e p" "\<forall>x. e \<noteq> Spawn x"
  shows "sys_inv config arrived (s\<lparr>sy_connections := p\<rparr>)"
proof (cases "sv_accept_loop (sy_server s) = None")
  case True
  with assms pool_new_zero_stuck [of e p] show ?thesis by (auto simp: sys_inv_def)
next
  case False
  moreover have "spawned [e] = {#}" using assms(3) by (cases e) simp_all
  ultimately show ?thesis using assms pool_step_inv [OF assms(2)] by (fastforce simp: sys_inv_def)
qed

lemma sys_inv_streams:
  assumes "sys_inv config arrived s" "pool_step (sy_streams s) e p" "\<forall>x. e \<noteq> Spawn x"
  shows "sys_inv config arrived (s\<lparr>sy_streams := p\<rparr>)"
proof (cases "sv_accept_loop (sy_server s) = None")
  case True
  with assms pool_new_zero_stuck [of e p] show ?thesis by (auto simp: sys_inv_def)
next
  case False
  moreover have "spawned [e] = {#}" using assms(3) by (cases e) simp_all
  ultimately show ?thesis using assms pool_step_inv [OF assms(2)] by (fastforce simp: sys_inv_def)
qed

lemma sys_step_inv:
  assumes "sys_step M s e s'" "sys_inv config arrived s"
  shows "sys_inv config (arrived + accepted_streams [e]) s'"
  using assms
proof cases
  case (served j srv)
  with assms(2) have "arrived = {#}" "sy_connection_id_counter s = 1" "sv_config (sy_server s) = config"
    "sv_config srv = config" "sv_accept_loop srv \<noteq> None"
    by (auto simp: sys_inv_def serve_Inr)
  with served show ?thesis
    by (auto simp: sys_inv_def pool_new_inv connection_ids_def intro: exI [of _ 0])
next
  case (wire_connection inc ns nc p)
  with sys_inv_running [OF assms(2)] have slot: "sv_accept_loop (sy_server s) \<noteq> None" by simp
  with assms(2) obtain n where n: "pool_inv (max_concurrent_connections config) (connection_ids n) (sy_connections s)"
    "sy_connection_id_counter s = word_of_nat (Suc n)" by (auto simp: sys_inv_def)
  from pool_step_inv [OF wire_connection(5) n(1)] n(2) have
    "pool_inv (max_concurrent_connections config) (connection_ids (Suc n)) p"
    by (simp add: connection_ids_Suc)
  moreover have "sy_connection_id_counter s + 1 = word_of_nat (Suc (Suc n))" using n(2) by simp
  ultimately show ?thesis
    using wire_connection slot assms(2) by (auto simp: sys_inv_def)
next
  case (connection_permit p)
  with sys_inv_connections [OF assms(2)] show ?thesis by simp
next
  case (stream_accepted c x p)
  then have "po_running (sy_connections s) \<noteq> {#}" by auto
  with sys_inv_running [OF assms(2)] have "sv_accept_loop (sy_server s) \<noteq> None" by simp
  with stream_accepted assms(2) show ?thesis by (auto simp: sys_inv_def dest!: pool_step_inv)
next
  case (accept_bi_failed c p)
  with sys_inv_connections [OF assms(2)] show ?thesis by simp
next
  case (stream_permit p)
  with sys_inv_streams [OF assms(2)] show ?thesis by simp
next
  case (stream_finished t p)
  with sys_inv_streams [OF assms(2)] show ?thesis by simp
next
  case connection_accepted
  with sys_inv_running [OF assms(2)] have "sv_accept_loop (sy_server s) \<noteq> None" by simp
  with connection_accepted assms(2) show ?thesis by (simp add: sys_inv_def)
next
  case (other_connection inc act)
  with sys_inv_running [OF assms(2)] have "sv_accept_loop (sy_server s) \<noteq> None" by simp
  with other_connection assms(2) show ?thesis by (auto simp: sys_inv_def)
qed (use assms(2) in \<open>auto simp: sys_inv_def serve_Inl register_alpn_handler_def\<close>)

lemma sys_run_inv:
  "sys_run M s es s' \<Longrightarrow> s = system_init M config \<Longrightarrow> sys_inv config (accepted_streams es) s'"
proof (induction rule: sys_run.induct)
  case (sys_nil s)
  then show ?case by (simp add: sys_inv_def system_init_def server_with_config_def)
next
  case (sys_snoc s es s1 e s2)
  from sys_step_inv [OF sys_snoc.hyps(2) sys_snoc.IH [OF sys_snoc.prems]] show ?case
    by (simp add: accepted_append)
qed

text \<open>The stream tasks of a server can finish without any further event from outside.\<close>

lemma sys_run_of_streams:
  "pool_run p es q \<Longrightarrow> p = sy_streams s \<Longrightarrow> spawned es = {#} \<Longrightarrow>
    \<exists>es' s'. sys_run M s es' s' \<and> sy_streams s' = q \<and> accepted_streams es' = {#}"
proof (induction rule: pool_run.induct)
  case (run_nil p)
  then show ?case by (intro exI [of _ "[]"] exI [of _ s]) (simp add: sys_run.sys_nil)
next
  case (run_snoc p es q e r)
  then obtain es' s' where r: "sys_run M s es' s'" "sy_streams s' = q" "accepted_streams es' = {#}"
    by (auto simp: spawned_append)
  have "\<exists>e'. sys_step M s' e' (s'\<lparr>sy_streams := r\<rparr>) \<and> accepted_streams [e'] = {#}"
  proof (cases e)
    case (Spawn x)
    with run_snoc.prems(2) show ?thesis by (simp add: spawned_append)
  next
    case Acquire
    with run_snoc.hyps(2) r(2) have "sys_step M s' StreamPermit (s'\<lparr>sy_streams := r\<rparr>)"
      by (intro sys_step.stream_permit) simp
    then show ?thesis by (intro exI [of _ StreamPermit]) simp
  next
    case (Finish t)
    with run_snoc.hyps(2) r(2) have "sys_step M s' (StreamFinished t) (s'\<lparr>sy_streams := r\<rparr>)"
      by (intro sys_step.stream_finished) simp
    then show ?thesis by (intro exI [of _ "StreamFinished t"]) simp
  qed
  then obtain e' where "sys_step M s' e' (s'\<lparr>sy_streams := r\<rparr>)" "accepted_streams [e'] = {#}" by blast
  with r sys_run.sys_snoc [OF r(1)] show ?case
    by (intro exI [of _ "es' @ [e']"] exI [of _ "s'\<lparr>sy_streams := r\<rparr>"]) (simp add: accepted_append)
qed

text \<open>From every reachable state the accepted streams can be finished without a further arrival.\<close>

lemma streams_can_finish:
  assumes run: "sys_run M (system_init M config) es s" and permits: "0 < max_concurrent_streams config"
  shows "\<exists>es' s'. sys_run M s es' s' \<and> accepted_streams es' = {#} \<and> po_done (sy_streams s') = accepted_streams es"
proof (cases "sv_accept_loop (sy_server s) = None")
  case True
  with sys_run_inv [OF run refl] have "sy_streams s = pool_new 0" "accepted_streams es = {#}"
    by (simp_all add: sys_inv_def)
  then show ?thesis
    using sys_run.sys_nil [of M s] by (intro exI [of _ "[]"] exI [of _ s]) (simp add: pool_new_def)
next
  case False
  with sys_run_inv [OF run refl] have
    st: "pool_inv (max_concurrent_streams config) (accepted_streams es) (sy_streams s)"
    by (simp add: sys_inv_def)
  from pool_drains [OF st permits] obtain pes q where q: "pool_run (sy_streams s) pes q" "spawned pes = {#}"
    "po_waiting q = []" "po_running q = {#}" by blast
  from sys_run_of_streams [OF q(1) refl q(2), of M] obtain es' s' where
    "sys_run M s es' s'" "sy_streams s' = q" "accepted_streams es' = {#}" by blast
  with pool_run_keeps [OF q(1) st] q show ?thesis by (auto simp: pool_inv_def)
qed

subsection \<open>The table as a map\<close>

text \<open>
  The specification of the object: the handle of the first call of serve, and the partial map from protocols
  to handlers that the calls of a run give.
\<close>

type_synonym ('a, 'j) server_spec = "'j option \<times> (bytes \<rightharpoonup> 'a alpn_handler)"

fun spec_event :: "server_config \<Rightarrow> ('a, 'j, 's) sys_event \<Rightarrow> ('a, 'j) server_spec \<Rightarrow> ('a, 'j) server_spec" where
  "spec_event config (Served j) (None, m) =
     (Some j, m(ALPN_NERW_RPC_1_0_0 \<mapsto> WireDispatch (max_concurrent_streams config) (max_concurrent_connections config)))"
| "spec_event config (AlpnRegistered alpn h) (slot, m) = (slot, m(alpn \<mapsto> AppHandler h))"
| "spec_event config _ spec = spec"

definition server_spec :: "server_config \<Rightarrow> ('a, 'j, 's) sys_event list \<Rightarrow> ('a, 'j) server_spec" where
  "server_spec config es = fold (spec_event config) es (None, Map.empty)"

lemma server_spec_snoc: "server_spec config (es @ [e]) = spec_event config e (server_spec config es)"
  by (simp add: server_spec_def)

definition server_refines ::
  "(bytes, 'a alpn_handler, 'm) map_ops \<Rightarrow> ('m \<Rightarrow> bool) \<Rightarrow> server_config \<Rightarrow> ('a, 'j) server_spec \<Rightarrow>
   ('m, 'j) rpc_server \<Rightarrow> bool" where
  "server_refines M mo_inv config spec srv \<longleftrightarrow>
     sv_config srv = config \<and> mo_inv (sv_alpn_handlers srv) \<and>
     spec = (sv_accept_loop srv, mo_get M (sv_alpn_handlers srv))"

lemma sys_step_refines:
  assumes M: "keyed_map M mo_inv" and step: "sys_step M s e s'"
    and ref: "server_refines M mo_inv config spec (sy_server s)"
  shows "server_refines M mo_inv config (spec_event config e spec) (sy_server s')"
  using step ref
  by cases (auto simp: server_refines_def serve_Inr serve_Inl register_alpn_handler_def
      keyed_map.get_insert [OF M] keyed_map.inv_insert [OF M])

lemma sys_run_refines:
  assumes M: "keyed_map M mo_inv"
  shows "sys_run M s es s' \<Longrightarrow> s = system_init M config \<Longrightarrow>
    server_refines M mo_inv config (server_spec config es) (sy_server s')"
proof (induction rule: sys_run.induct)
  case (sys_nil s)
  then show ?case
    using keyed_map.inv_new [OF M] keyed_map.get_new [OF M]
    by (auto simp: server_refines_def server_spec_def system_init_def server_with_config_def)
next
  case (sys_snoc s es s1 e s2)
  from sys_step_refines [OF M sys_snoc.hyps(2) sys_snoc.IH [OF sys_snoc.prems]] show ?case
    by (simp add: server_spec_snoc)
qed

text \<open>The built-in handler is only ever installed by serve, under its own name and with the configured limits.\<close>

definition wire_only :: "server_config \<Rightarrow> ('a, 'j) server_spec \<Rightarrow> bool" where
  "wire_only config spec \<longleftrightarrow>
     (\<forall>alpn ns nc. snd spec alpn = Some (WireDispatch ns nc) \<longrightarrow> fst spec \<noteq> None \<and> alpn = ALPN_NERW_RPC_1_0_0 \<and>
        ns = max_concurrent_streams config \<and> nc = max_concurrent_connections config)"

lemma spec_event_wire_only: "wire_only config spec \<Longrightarrow> wire_only config (spec_event config e spec)"
  by (cases "(config, e, spec)" rule: spec_event.cases) (auto simp: wire_only_def split: if_splits)

lemma server_spec_wire_only: "wire_only config (server_spec config es)"
  by (induction es rule: rev_induct)
    (auto simp: server_spec_snoc spec_event_wire_only, simp add: server_spec_def wire_only_def)

subsection \<open>Properties\<close>

text \<open>
  C14. Whatever connections, streams, registrations, failures and shutdowns happen in whatever order:
  the running connection and stream tasks never exceed the configured limits, every accepted
  stream is waiting, running or finished and none is lost or handled twice, the connections are
  numbered 1, 2, ... modulo 2^64 in the order they arrive, so that no two of the first 2^64 - 1 share
  an id, and, when the configuration allows at least one stream, all accepted streams can be finished
  from every reachable state.
\<close>

theorem server_load_bounded:
  assumes run: "sys_run M (system_init M config) es s"
  shows "size (po_running (sy_connections s)) \<le> max_concurrent_connections config \<and>
    size (po_running (sy_streams s)) \<le> max_concurrent_streams config \<and>
    mset (po_waiting (sy_streams s)) + po_running (sy_streams s) + po_done (sy_streams s) = accepted_streams es \<and>
    (\<exists>n. mset (po_waiting (sy_connections s)) + po_running (sy_connections s) + po_done (sy_connections s) =
       connection_ids n \<and> (n < 2 ^ 64 \<longrightarrow> (\<forall>c. count (connection_ids n) c \<le> 1))) \<and>
    (0 < max_concurrent_streams config \<longrightarrow>
      (\<exists>es' s'. sys_run M s es' s' \<and> accepted_streams es' = {#} \<and> po_done (sy_streams s') = accepted_streams es))"
proof -
  note inv = sys_run_inv [OF run refl]
  have "size (po_running (sy_connections s)) \<le> max_concurrent_connections config \<and>
    size (po_running (sy_streams s)) \<le> max_concurrent_streams config \<and>
    mset (po_waiting (sy_streams s)) + po_running (sy_streams s) + po_done (sy_streams s) = accepted_streams es \<and>
    (\<exists>n. mset (po_waiting (sy_connections s)) + po_running (sy_connections s) + po_done (sy_connections s) =
       connection_ids n \<and> (n < 2 ^ 64 \<longrightarrow> (\<forall>c. count (connection_ids n) c \<le> 1)))"
  proof (cases "sv_accept_loop (sy_server s) = None")
    case True
    with inv show ?thesis by (auto simp: sys_inv_def pool_new_def connection_ids_def intro: exI [of _ 0])
  next
    case False
    with inv obtain n where
      "pool_inv (max_concurrent_streams config) (accepted_streams es) (sy_streams s)"
      "pool_inv (max_concurrent_connections config) (connection_ids n) (sy_connections s)"
      by (auto simp: sys_inv_def)
    with connection_ids_distinct [of n] show ?thesis by (auto simp: pool_inv_def)
  qed
  with streams_can_finish [OF run] show ?thesis by simp
qed

subsubsection \<open>A first stream\<close>

type_synonym 's demo_system = "((bytes, nat alpn_handler) hash_map, nat, 's) system"

abbreviation demo_arrivals :: "'s \<Rightarrow> (nat, nat, 's) sys_event list" where
  "demo_arrivals x \<equiv> [Served 7, ConnectionAccepted, Incoming (IncomingConnected ALPN_NERW_RPC_1_0_0),
     ConnectionPermit, StreamAccepted 1 x]"

lemma sys_run_Cons:
  assumes "sys_step M s e s1" "sys_run M s1 es s2"
  shows "sys_run M s (e # es) s2"
  using assms(2,1)
proof (induction rule: sys_run.induct)
  case (sys_nil s1)
  from sys_run.sys_snoc [OF sys_run.sys_nil sys_nil] show ?case by simp
next
  case (sys_snoc s1 es s2 f s3)
  from sys_run.sys_snoc [OF sys_snoc.IH [OF sys_snoc.prems] sys_snoc.hyps(2)] show ?case by simp
qed

lemma demo_first_stream:
  assumes nc: "0 < max_concurrent_connections config"
  shows "\<exists>s. sys_run hm_ops (system_init hm_ops config :: 's demo_system) (demo_arrivals x) s \<and>
    po_waiting (sy_streams s) = [(1, x)] \<and> po_running (sy_connections s) = {#1#}"
proof -
  let ?s0 = "system_init hm_ops config :: 's demo_system"
  let ?nc = "max_concurrent_connections config"
  let ?ns = "max_concurrent_streams config"
  define srv where "srv = snd (serve hm_ops 7 (sy_server ?s0))"
  have serve: "serve hm_ops 7 (sy_server ?s0) = (Inr (), srv)" and conf: "sv_config srv = config"
    and get: "hm_get (sv_alpn_handlers srv) ALPN_NERW_RPC_1_0_0 = Some (WireDispatch ?ns ?nc)"
    by (simp_all add: srv_def serve_def system_init_def server_with_config_def Let_def hm_insert_def hm_get_def)
  define st where "st = (\<lambda>pending counter conns streams. \<lparr>sy_server = srv, sy_accepting = True,
    sy_pending = pending, sy_connection_id_counter = counter, sy_connections = conns,
    sy_streams = streams\<rparr> :: 's demo_system)"
  define conns where "conns = (\<lambda>free ws rs. \<lparr>po_permits = free, po_waiting = ws, po_running = rs, po_done = {#}\<rparr> :: u64 pool)"
  have 1: "sys_step hm_ops ?s0 (Served 7) (st 0 1 (pool_new ?nc) (pool_new ?ns))"
    using sys_step.served [OF serve] by (simp add: conf st_def system_init_def)
  have 2: "sys_step hm_ops (st 0 1 (pool_new ?nc) (pool_new ?ns)) ConnectionAccepted
      (st 1 1 (pool_new ?nc) (pool_new ?ns))"
    using sys_step.connection_accepted [of "st 0 1 (pool_new ?nc) (pool_new ?ns)"] by (simp add: st_def)
  have "pool_step (pool_new ?nc) (Spawn 1) (conns ?nc [1] {#})"
    using pool_step.spawn [of "pool_new ?nc" 1] by (simp add: pool_new_def conns_def)
  then have 3: "sys_step hm_ops (st 1 1 (pool_new ?nc) (pool_new ?ns))
      (Incoming (IncomingConnected ALPN_NERW_RPC_1_0_0)) (st 0 2 (conns ?nc [1] {#}) (pool_new ?ns))"
    using sys_step.wire_connection [of "st 1 1 (pool_new ?nc) (pool_new ?ns)" hm_ops
        "IncomingConnected ALPN_NERW_RPC_1_0_0" ?ns ?nc "conns ?nc [1] {#}"] get
    by (simp add: st_def accept_incoming_def)
  have "pool_step (conns ?nc [1] {#}) Acquire (conns (?nc - 1) [] {#1#})"
    using pool_step.acquire [of "conns ?nc [1] {#}" 1 "[]"] nc by (simp add: conns_def)
  then have 4: "sys_step hm_ops (st 0 2 (conns ?nc [1] {#}) (pool_new ?ns)) ConnectionPermit
      (st 0 2 (conns (?nc - 1) [] {#1#}) (pool_new ?ns))"
    using sys_step.connection_permit [of "st 0 2 (conns ?nc [1] {#}) (pool_new ?ns)"] by (simp add: st_def)
  let ?streams = "(pool_new ?ns)\<lparr>po_waiting := po_waiting (pool_new ?ns) @ [(1, x)]\<rparr>"
  have 5: "sys_step hm_ops (st 0 2 (conns (?nc - 1) [] {#1#}) (pool_new ?ns)) (StreamAccepted 1 x)
      (st 0 2 (conns (?nc - 1) [] {#1#}) ?streams)"
    using sys_step.stream_accepted [of 1 "st 0 2 (conns (?nc - 1) [] {#1#}) (pool_new ?ns)" x ?streams]
      pool_step.spawn [of "pool_new ?ns" "(1, x)"] by (simp add: st_def conns_def)
  from sys_run_Cons [OF 1 sys_run_Cons [OF 2 sys_run_Cons [OF 3 sys_run_Cons [OF 4
      sys_run_Cons [OF 5 sys_run.sys_nil]]]]] show ?thesis
    by (intro exI [of _ "st 0 2 (conns (?nc - 1) [] {#1#}) ?streams"])
      (simp add: st_def conns_def pool_new_def)
qed

theorem server_load_bounded_witness:
  "\<exists>s. sys_run hm_ops (system_init hm_ops config_default :: nat demo_system) (demo_arrivals 9) s \<and>
     po_waiting (sy_streams s) = [(1, 9)] \<and> size (po_running (sy_streams s)) \<le> 256 \<and>
     (\<exists>es' s'. sys_run hm_ops s es' s' \<and> po_done (sy_streams s') = {#(1, 9)#})"
proof -
  have "0 < max_concurrent_connections config_default"
    by (simp add: config_default_def DEFAULT_MAX_CONCURRENT_CONNECTIONS_def)
  from demo_first_stream [OF this, of "9 :: nat"] obtain s where
    s: "sys_run hm_ops (system_init hm_ops config_default :: nat demo_system) (demo_arrivals 9) s"
      "po_waiting (sy_streams s) = [(1, 9)]" by blast
  from server_load_bounded [OF s(1)] s show ?thesis
    by (auto simp: config_default_def DEFAULT_MAX_CONCURRENT_STREAMS_def)
qed

text \<open>
  C39. A configuration with zero stream permits is accepted, unlike the dispatcher's, and then no
  stream is ever handled, whatever happens: every accepted stream waits for ever.
\<close>

theorem zero_stream_permits_deadlock:
  assumes run: "sys_run M (system_init M config) es s" and zero: "max_concurrent_streams config = 0"
  shows "po_running (sy_streams s) = {#} \<and> po_done (sy_streams s) = {#} \<and>
    mset (po_waiting (sy_streams s)) = accepted_streams es"
proof -
  have stuck: "sys_run M s0 es s \<Longrightarrow> s0 = system_init M config \<Longrightarrow> po_done (sy_streams s) = {#}" for s0 es s
  proof (induction rule: sys_run.induct)
    case (sys_nil s)
    then show ?case by (simp add: system_init_def pool_new_def)
  next
    case (sys_snoc s es s1 e s2)
    have "po_running (sy_streams s1) = {#}"
      using sys_run_inv [OF sys_snoc.hyps(1) sys_snoc.prems] zero
      by (auto simp: sys_inv_def pool_inv_def pool_new_def split: if_splits)
    with sys_snoc.hyps(2) sys_snoc.IH [OF sys_snoc.prems] show ?case
      by cases (auto simp: pool_new_def elim: pool_step.cases)
  qed
  from sys_run_inv [OF run refl] zero stuck [OF run refl] show ?thesis
    by (auto simp: sys_inv_def pool_inv_def pool_new_def split: if_splits)
qed

theorem zero_stream_permits_deadlock_witness:
  "\<exists>s. sys_run hm_ops (system_init hm_ops \<lparr>max_concurrent_streams = 0, max_concurrent_connections = 5\<rparr> :: nat demo_system)
       (demo_arrivals 9) s \<and>
     po_waiting (sy_streams s) = [(1, 9)] \<and> po_running (sy_streams s) = {#} \<and> po_done (sy_streams s) = {#}"
proof -
  let ?config = "\<lparr>max_concurrent_streams = 0, max_concurrent_connections = 5\<rparr>"
  have "0 < max_concurrent_connections ?config" by simp
  from demo_first_stream [OF this, of "9 :: nat"] obtain s where
    s: "sys_run hm_ops (system_init hm_ops ?config :: nat demo_system) (demo_arrivals 9) s"
      "po_waiting (sy_streams s) = [(1, 9)]" by blast
  from zero_stream_permits_deadlock [OF s(1)] s show ?thesis by auto
qed

text \<open>
  One call of serve on a fresh server: the first call of serve installs the built-in handler with the
  configured limits under the RPC name, replacing whatever was registered there and nothing else,
  and every later one is refused and changes nothing; an unregistered protocol is closed with the
  no-handler code.
\<close>

theorem serve_once:
  assumes M: "keyed_map M mo_inv" and inv: "mo_inv (sv_alpn_handlers srv)" and fresh: "sv_accept_loop srv = None"
    and first: "serve M j srv = (res, srv')"
  shows "res = Inr () \<and>
    accept_incoming M (sv_alpn_handlers srv') (IncomingConnected ALPN_NERW_RPC_1_0_0) =
      RunWire (max_concurrent_streams (sv_config srv)) (max_concurrent_connections (sv_config srv)) \<and>
    (\<forall>alpn. alpn \<noteq> ALPN_NERW_RPC_1_0_0 \<longrightarrow>
      mo_get M (sv_alpn_handlers srv') alpn = mo_get M (sv_alpn_handlers srv) alpn) \<and>
    (\<forall>j'. serve M j' srv' = (Inl AlreadyServing, srv')) \<and>
    (\<forall>alpn. mo_get M (sv_alpn_handlers srv') alpn = None \<longrightarrow>
      accept_incoming M (sv_alpn_handlers srv') (IncomingConnected alpn) =
        CloseConnection 1 (str_bytes ''no-handler-registered'')) \<and>
    fst (drop_server srv') = Some j"
  using first fresh keyed_map.get_insert [OF M inv]
  by (auto simp: serve_def Let_def accept_incoming_def drop_server_def CLOSE_NO_HANDLER_def)

theorem serve_once_witness:
  "let srv = server_new hm_ops :: ((bytes, nat alpn_handler) hash_map, nat) rpc_server;
       srv' = snd (serve hm_ops 7 srv)
   in serve hm_ops 8 srv' = (Inl AlreadyServing, srv')"
proof -
  let ?srv = "server_new hm_ops :: ((bytes, nat alpn_handler) hash_map, nat) rpc_server"
  have "hm_inv (sv_alpn_handlers ?srv)" "sv_accept_loop ?srv = None"
    by (simp_all add: server_new_def server_with_config_def hm_inv_def)
  from serve_once [OF hm.keyed_map_axioms this surjective_pairing, of 7] show ?thesis
    by (simp add: Let_def)
qed

text \<open>
  C35. The server object, in every interleaving of its own calls with the tasks of its connections. Its
  slot holds the handle of the first call of serve, every later call is refused and changes nothing, and drop
  aborts that handle. Its table is the map that the calls give when replayed: a connection that completes its
  handshake goes to the handler last installed for its protocol, and is closed with the no-handler code
  when there is none. The built-in handler runs only after serve, only for the RPC protocol and only with the
  configured limits.
\<close>

theorem server_routes_by_registrations:
  assumes M: "keyed_map M mo_inv" and run: "sys_run M (system_init M config) es s"
    and spec: "server_spec config es = (slot, table)"
  shows "accept_incoming M (sv_alpn_handlers (sy_server s)) (IncomingConnected alpn) =
      (case table alpn of
         Some (WireDispatch ns nc) \<Rightarrow> RunWire ns nc
       | Some (AppHandler h) \<Rightarrow> RunApp h
       | None \<Rightarrow> CloseConnection 1 (str_bytes ''no-handler-registered'')) \<and>
    (\<forall>ns nc. accept_incoming M (sv_alpn_handlers (sy_server s)) (IncomingConnected alpn) = RunWire ns nc \<longrightarrow>
      slot \<noteq> None \<and> alpn = ALPN_NERW_RPC_1_0_0 \<and>
      ns = max_concurrent_streams config \<and> nc = max_concurrent_connections config) \<and>
    registered_alpn_count M (sy_server s) = card (dom table) \<and>
    (serve M j (sy_server s) = (Inl AlreadyServing, sy_server s) \<longleftrightarrow> slot \<noteq> None) \<and>
    fst (drop_server (sy_server s)) = slot"
proof -
  from sys_run_refines [OF M run refl] spec have
    ref: "mo_inv (sv_alpn_handlers (sy_server s))" "sv_accept_loop (sy_server s) = slot"
      "mo_get M (sv_alpn_handlers (sy_server s)) = table"
    by (simp_all add: server_refines_def)
  have route: "accept_incoming M (sv_alpn_handlers (sy_server s)) (IncomingConnected alpn) =
      (case table alpn of
         Some (WireDispatch ns nc) \<Rightarrow> RunWire ns nc
       | Some (AppHandler h) \<Rightarrow> RunApp h
       | None \<Rightarrow> CloseConnection 1 (str_bytes ''no-handler-registered''))"
    by (simp add: accept_incoming_def ref CLOSE_NO_HANDLER_def split: option.split alpn_handler.split)
  moreover have "slot \<noteq> None \<and> alpn = ALPN_NERW_RPC_1_0_0 \<and>
      ns = max_concurrent_streams config \<and> nc = max_concurrent_connections config"
    if "accept_incoming M (sv_alpn_handlers (sy_server s)) (IncomingConnected alpn) = RunWire ns nc" for ns nc
    using that server_spec_wire_only [of config es] spec
    by (auto simp: route wire_only_def split: option.splits alpn_handler.splits)
  ultimately show ?thesis
    using keyed_map.len_dom [OF M ref(1)] ref
    by (auto simp: registered_alpn_count_def drop_server_def serve_def Let_def)
qed

theorem server_routes_by_registrations_witness:
  "\<exists>s. sys_run hm_ops (system_init hm_ops config_default :: nat demo_system) (demo_arrivals 9) s \<and>
     accept_incoming hm_ops (sv_alpn_handlers (sy_server s)) (IncomingConnected ALPN_NERW_RPC_1_0_0) = RunWire 256 1024 \<and>
     accept_incoming hm_ops (sv_alpn_handlers (sy_server s)) (IncomingConnected [1]) =
       CloseConnection 1 (str_bytes ''no-handler-registered'') \<and>
     serve hm_ops 8 (sy_server s) = (Inl AlreadyServing, sy_server s)"
proof -
  have "0 < max_concurrent_connections config_default"
    by (simp add: config_default_def DEFAULT_MAX_CONCURRENT_CONNECTIONS_def)
  from demo_first_stream [OF this, of "9 :: nat"] obtain s where
    s: "sys_run hm_ops (system_init hm_ops config_default :: nat demo_system) (demo_arrivals 9) s" by blast
  have spec: "server_spec config_default (demo_arrivals 9) = (Some 7, [ALPN_NERW_RPC_1_0_0 \<mapsto> WireDispatch 256 1024])"
    by (simp add: server_spec_def config_default_def DEFAULT_MAX_CONCURRENT_CONNECTIONS_def
        DEFAULT_MAX_CONCURRENT_STREAMS_def)
  have "ALPN_NERW_RPC_1_0_0 \<noteq> [1]" by code_simp
  with server_routes_by_registrations [OF hm.keyed_map_axioms s spec, of ALPN_NERW_RPC_1_0_0 8]
    server_routes_by_registrations [OF hm.keyed_map_axioms s spec, of "[1]" 8] s
  show ?thesis by (intro exI [of _ s]) simp
qed

end
