(* ===== verification/Served_Streams.thy ===== *)
theory Served_Streams
  imports Server Client
begin

section \<open>What the stream tasks of a server write\<close>

text \<open>
  The theory \<open>Server\<close> says which stream tasks run and in which order; here each does what
  \<^verbatim>\<open>handle_inbound_substream\<close> does. An accepted stream is its two halves and the environment
  of its context, in which the connection's id is the one the connection was given. The application's state
  is threaded through the tasks in the order in which they finish; how the tasks of one streaming
  call interleave is the subject of \<open>Server_Tasks\<close>.
\<close>

type_synonym ('t, 'r) inbound_stream = "'t \<times> 'r \<times> call_env"

definition stream_env :: "u64 \<times> ('t, 'r) inbound_stream \<Rightarrow> call_env" where
  "stream_env task = (snd (snd (snd task)))\<lparr>env_connection_id := fst task\<rparr>"

definition stream_task ::
  "(call_env \<Rightarrow> 't \<Rightarrow> 'r \<Rightarrow> 'w \<Rightarrow> ('t \<times> 'w) option) \<Rightarrow> u64 \<times> ('t, 'r) inbound_stream \<Rightarrow> 'w \<Rightarrow> ('t \<times> 'w) option" where
  "stream_task handle task w =
     (case task of (c, send, recv, _) \<Rightarrow> handle (stream_env task) send recv w)"

fun serve_streams ::
  "(call_env \<Rightarrow> 't \<Rightarrow> 'r \<Rightarrow> 'w \<Rightarrow> ('t \<times> 'w) option) \<Rightarrow> (u64 \<times> ('t, 'r) inbound_stream) list \<Rightarrow> 'w \<Rightarrow>
   ('t list \<times> 'w) option" where
  "serve_streams handle [] w = Some ([], w)"
| "serve_streams handle (task # tasks) w =
     (case stream_task handle task w of
        None \<Rightarrow> None
      | Some (send, w1) \<Rightarrow>
          (case serve_streams handle tasks w1 of
             None \<Rightarrow> None
           | Some (sends, w2) \<Rightarrow> Some (send # sends, w2)))"

lemma serve_streams_append:
  "serve_streams handle (xs @ ys) w =
     (case serve_streams handle xs w of
        None \<Rightarrow> None
      | Some (sends, w1) \<Rightarrow>
          (case serve_streams handle ys w1 of
             None \<Rightarrow> None
           | Some (sends', w2) \<Rightarrow> Some (sends @ sends', w2)))"
  by (induction xs arbitrary: w) (auto split: option.split)

lemma serve_streams_returns:
  assumes "\<And>env t r w. \<exists>t' w'. handle env t r w = Some (t', w')"
  shows "\<exists>sends w'. serve_streams handle tasks w = Some (sends, w') \<and> length sends = length tasks"
proof (induction tasks arbitrary: w)
  case (Cons task tasks)
  obtain c t r env where task: "task = (c, t, r, env)" by (metis prod_cases4)
  from assms [of "stream_env task" t r w] obtain t' w1 where
    "stream_task handle task w = Some (t', w1)" by (auto simp: task stream_task_def)
  moreover from Cons [of w1] obtain sends w' where
    "serve_streams handle tasks w1 = Some (sends, w')" "length sends = length tasks" by blast
  ultimately show ?case by simp
qed simp

text \<open>The task at a position, on the state that the tasks finished before it have left.\<close>

lemma serve_streams_nth:
  assumes "serve_streams handle tasks w = Some (sends, w')" "i < length tasks"
  shows "\<exists>sends0 w0 w1. serve_streams handle (take i tasks) w = Some (sends0, w0) \<and> length sends = length tasks \<and>
    stream_task handle (tasks ! i) w0 = Some (sends ! i, w1)"
  using assms
proof (induction tasks arbitrary: w sends i)
  case (Cons task tasks)
  from Cons.prems(1) obtain t w1 rest where
    t: "stream_task handle task w = Some (t, w1)" and
    rest: "serve_streams handle tasks w1 = Some (rest, w')" "sends = t # rest"
    by (auto split: option.splits)
  show ?case
  proof (cases i)
    case 0
    have "length rest = length tasks"
      using rest(1) by (induction tasks arbitrary: w1 rest) (auto split: option.splits)
    with 0 t rest show ?thesis by simp
  next
    case (Suc k)
    with Cons.prems(2) have "k < length tasks" by simp
    from Cons.IH [OF rest(1) this] t rest(2) Suc show ?thesis by (auto split: option.split)
  qed
qed simp

subsection \<open>The streams a run has finished\<close>

fun finished_streams :: "('a, 'j, 's) sys_event list \<Rightarrow> (u64 \<times> 's) list" where
  "finished_streams [] = []"
| "finished_streams (StreamFinished t # es) = t # finished_streams es"
| "finished_streams (_ # es) = finished_streams es"

lemma finished_append: "finished_streams (es @ fs) = finished_streams es @ finished_streams fs"
  by (induction es rule: finished_streams.induct) simp_all

lemma sys_step_done:
  assumes "sys_step M s e s'" "sys_inv config arrived s"
  shows "po_done (sy_streams s') = po_done (sy_streams s) + mset (finished_streams [e])"
  using assms
  by cases (auto simp: sys_inv_def serve_Inr pool_new_def elim: pool_step.cases)

lemma sys_run_done:
  "sys_run M s es s' \<Longrightarrow> s = system_init M config \<Longrightarrow> po_done (sy_streams s') = mset (finished_streams es)"
proof (induction rule: sys_run.induct)
  case (sys_nil s)
  then show ?case by (simp add: system_init_def pool_new_def)
next
  case (sys_snoc s es s1 e s2)
  from sys_step_done [OF sys_snoc.hyps(2) sys_run_inv [OF sys_snoc.hyps(1) sys_snoc.prems]]
    sys_snoc.IH [OF sys_snoc.prems] show ?case by (simp add: finished_append)
qed

lemma sys_run_append:
  "sys_run M s1 fs s2 \<Longrightarrow> sys_run M s es s1 \<Longrightarrow> sys_run M s (es @ fs) s2"
proof (induction rule: sys_run.induct)
  case (sys_snoc s1 fs s2 f s3)
  from sys_run.sys_snoc [OF sys_snoc.IH [OF sys_snoc.prems] sys_snoc.hyps(2)] show ?case by simp
qed simp

subsection \<open>Streams that carry a unary request\<close>

text \<open>
  A stream whose peer has written the request frame of \<open>name\<close> and \<open>request\<close>, within the limits of the server, and
  finished its half; \<open>reply_sent\<close> says what is on the wire for the outcome of the call, and what a client
  decodes from it. A panic leaves the send half as it was.
\<close>

definition carries_request ::
  "leb128 \<Rightarrow> ('r \<Rightarrow> bytes) \<Rightarrow> ('r \<Rightarrow> read_error option) \<Rightarrow> ('t \<Rightarrow> bytes) \<Rightarrow> ('t \<Rightarrow> bool) \<Rightarrow>
   string \<Rightarrow> bytes \<Rightarrow> ('t, 'r) inbound_stream \<Rightarrow> bool" where
  "carries_request L content ended written healthy name request stream =
     (case stream of (send, recv, _) \<Rightarrow>
        healthy send \<and> written send = [] \<and> ended recv = None \<and> rust_str name \<and> length name \<le> MAX_METHOD_NAME_LEN \<and>
        (case build_unary_request_frame L name request of
           Inl _ \<Rightarrow> False
         | Inr frame \<Rightarrow> content recv = frame \<and> length frame \<le> RPC_STREAM_READ_LIMIT + 1))"

definition reply_sent ::
  "wire_error postcard \<Rightarrow> (string \<Rightarrow> string) \<Rightarrow> ('t \<Rightarrow> bytes) \<Rightarrow> bytes rpc_result option \<Rightarrow> 't \<Rightarrow> 't \<Rightarrow> bool" where
  "reply_sent W dbg written outcome send send' =
     (case outcome of
        None \<Rightarrow> send' = send
      | Some reply \<Rightarrow>
          (case reply_bytes W dbg reply of
             None \<Rightarrow> True
           | Some bs \<Rightarrow> written send' = bs \<and>
               decode_response_frame W (written send') = map_sum (client_view dbg) id reply))"

subsection \<open>A concrete stream\<close>

text \<open>A call of the echo method, and the stream that carries it.\<close>

abbreviation demo_frame :: bytes where
  "demo_frame \<equiv> [0x00, 10] @ str_bytes ''a@1/i/echo'' @ [9]"

abbreviation demo_stream :: "(tx_buf, rx_buf) inbound_stream" where
  "demo_stream \<equiv> (tx_new, rx_of demo_frame, demo_env)"

lemma demo_name: "rust_str ''a@1/i/echo''"
  by code_simp

lemma demo_request: "build_unary_request_frame leb_ref ''a@1/i/echo'' [9] = Inr demo_frame"
  by (simp add: lr.request_frame_eq opcode_defs uleb_small)

lemma demo_outcome: "call_outcome demo_run demo_registry env ''a@1/i/echo'' [9] n = (Some (Inr [9]), Suc n)"
  by (simp add: call_outcome_def lookup_def lookup_entry_def demo_registry_def demo_run_def hm_get_def)

lemma demo_reply: "reply_bytes pc_wire_error_ref id (Inr bs) = Some (0x01 # bs)"
  by (simp add: reply_bytes_def opcode_defs)

lemma demo_carries: "carries_request leb_ref rb_data rb_end tb_out tx_healthy ''a@1/i/echo'' [9] demo_stream"
  by (simp add: carries_request_def demo_request demo_name tx_new_def tx_healthy_def MAX_METHOD_NAME_LEN_def
      RPC_STREAM_READ_LIMIT_def)

end
