(* ===== verification/Datagram.thy ===== *)
theory Datagram
  imports Wire Context Keyed_Map Task_Pool Transport
begin

section \<open>datagram.rs: the datagram dispatcher\<close>

text \<open>
  The dispatcher's table is a \<^verbatim>\<open>DashMap\<close>, the parameter \<open>M\<close> of type \<open>map_ops\<close> on
  tables \<open>'m\<close>; handlers are values \<open>'h\<close> that \<open>run\<close> runs on a context, a payload and the application
  state \<open>'w\<close>. A panic is \<open>Inl\<close> of its message.
\<close>

definition DEFAULT_MAX_CONCURRENT_DATAGRAMS :: nat where
  "DEFAULT_MAX_CONCURRENT_DATAGRAMS = 1024"

record 'm dispatcher =
  dd_handlers :: 'm
  dd_in_flight_permits :: nat

definition with_max_in_flight :: "('k, 'h, 'm) map_ops \<Rightarrow> nat \<Rightarrow> string + 'm dispatcher" where
  "with_max_in_flight M max_in_flight =
     (if \<not> 0 < max_in_flight then
        Inl ''DatagramDispatcher max_in_flight must be > 0; zero would deadlock the dispatcher''
      else Inr \<lparr>dd_handlers = mo_new M, dd_in_flight_permits = max_in_flight\<rparr>)"

definition dispatcher_new :: "('k, 'h, 'm) map_ops \<Rightarrow> string + 'm dispatcher" where
  "dispatcher_new M = with_max_in_flight M DEFAULT_MAX_CONCURRENT_DATAGRAMS"

definition dg_register ::
  "(u64, 'h, 'm) map_ops \<Rightarrow> u64 \<Rightarrow> 'h \<Rightarrow> 'm dispatcher \<Rightarrow> unit rpc_result \<times> 'm dispatcher" where
  "dg_register M stream_id handler d =
     (case mo_get M (dd_handlers d) stream_id of
        Some _ \<Rightarrow> (Inl (DatagramStreamIdCollision stream_id), d)
      | None \<Rightarrow> (Inr (), d\<lparr>dd_handlers := mo_insert M stream_id handler (dd_handlers d)\<rparr>))"

definition dg_unregister ::
  "(u64, 'h, 'm) map_ops \<Rightarrow> u64 \<Rightarrow> 'm dispatcher \<Rightarrow> 'h option \<times> 'm dispatcher" where
  "dg_unregister M stream_id d =
     (mo_get M (dd_handlers d) stream_id,
      d\<lparr>dd_handlers := mo_remove M stream_id (dd_handlers d)\<rparr>)"

definition registered_count :: "(u64, 'h, 'm) map_ops \<Rightarrow> 'm dispatcher \<Rightarrow> nat" where
  "registered_count M d = mo_len M (dd_handlers d)"

definition dispatch ::
  "leb128 \<Rightarrow> (u64, 'h, 'm) map_ops \<Rightarrow> ('h \<Rightarrow> rpc_context \<Rightarrow> bytes \<Rightarrow> 'w \<Rightarrow> unit rpc_result \<times> 'w) \<Rightarrow>
   'm dispatcher \<Rightarrow> rpc_context \<Rightarrow> bytes \<Rightarrow> 'w \<Rightarrow> unit rpc_result \<times> 'w" where
  "dispatch L M run d ctx frame w =
     (if frame = [] then (Inl (DatagramTooShort 0), w)
      else
        (case decode_stream_id L frame of
           Inl e \<Rightarrow> (Inl e, w)
         | Inr (stream_id, payload_slice) \<Rightarrow>
             (let prefix_len = length frame - length payload_slice;
                  payload = drop prefix_len frame
              in case mo_get M (dd_handlers d) stream_id of
                   Some h \<Rightarrow> run h ctx payload w
                 | None \<Rightarrow> (Inl (DatagramStreamIdUnknown stream_id), w))))"

definition build_context :: "uuid \<times> uuid \<Rightarrow> node_id \<Rightarrow> rpc_context" where
  "build_context ids from_peer =
     \<lparr>ctx_peer = \<lparr>pm_node_id = from_peer, pm_connection_id = 0, pm_stream_id = 0,
        pm_alpn = ALPN_NERW_DATAGRAM_1_0_0, pm_handshake_at_ms = 0, pm_tls_cipher_suite = None\<rparr>,
      ctx_timing = timing_zero, ctx_auth = None, ctx_session = None, ctx_tracing = tracing_fresh ids\<rparr>"

subsection \<open>The read loops\<close>

text \<open>
  \<^verbatim>\<open>subscribe_connection\<close> spawns a loop, which reads datagrams until the connection closes
  and spawns a task for each; a task waits for a permit, dispatches, drops the result and gives the
  permit back. All loops of a dispatcher share its semaphore. Subscriptions and registrations may
  happen between any two steps. A task is the context built when the datagram was read, and the
  datagram.
\<close>

type_synonym dg_task = "rpc_context \<times> bytes"

record ('m, 'w) dg_state =
  dg_disp :: "'m dispatcher"
  dg_loops :: "node_id multiset"
  dg_pool :: "dg_task pool"
  dg_world :: 'w

datatype 'h dg_event =
    Subscribed node_id
  | Received "uuid \<times> uuid" node_id bytes
  | ConnectionClosed node_id
  | PermitAcquired
  | Dispatched dg_task
  | Registered u64 'h
  | Unregistered u64

definition dg_start :: "'m dispatcher \<Rightarrow> 'w \<Rightarrow> ('m, 'w) dg_state" where
  "dg_start d w =
     \<lparr>dg_disp = d, dg_loops = {#}, dg_pool = pool_new (dd_in_flight_permits d), dg_world = w\<rparr>"

definition subscribe_connection :: "node_id \<Rightarrow> ('m, 'w) dg_state \<Rightarrow> ('m, 'w) dg_state" where
  "subscribe_connection from_peer s = s\<lparr>dg_loops := add_mset from_peer (dg_loops s)\<rparr>"

inductive dg_step ::
  "leb128 \<Rightarrow> (u64, 'h, 'm) map_ops \<Rightarrow> ('h \<Rightarrow> rpc_context \<Rightarrow> bytes \<Rightarrow> 'w \<Rightarrow> unit rpc_result \<times> 'w) \<Rightarrow>
   ('m, 'w) dg_state \<Rightarrow> 'h dg_event \<Rightarrow> ('m, 'w) dg_state \<Rightarrow> bool"
  for L M run where
  subscribed: "dg_step L M run s (Subscribed from_peer) (subscribe_connection from_peer s)"
| received: "from_peer \<in># dg_loops s \<Longrightarrow>
    pool_step (dg_pool s) (Spawn (build_context ids from_peer, frame)) p \<Longrightarrow>
    dg_step L M run s (Received ids from_peer frame) (s\<lparr>dg_pool := p\<rparr>)"
| closed: "from_peer \<in># dg_loops s \<Longrightarrow>
    dg_step L M run s (ConnectionClosed from_peer) (s\<lparr>dg_loops := dg_loops s - {#from_peer#}\<rparr>)"
| acquired: "pool_step (dg_pool s) Acquire p \<Longrightarrow> dg_step L M run s PermitAcquired (s\<lparr>dg_pool := p\<rparr>)"
| dispatched: "pool_step (dg_pool s) (Finish (ctx, frame)) p \<Longrightarrow>
    dispatch L M run (dg_disp s) ctx frame (dg_world s) = (res, w) \<Longrightarrow>
    dg_step L M run s (Dispatched (ctx, frame)) (s\<lparr>dg_pool := p, dg_world := w\<rparr>)"
| registered: "dg_register M sid h (dg_disp s) = (res, d) \<Longrightarrow>
    dg_step L M run s (Registered sid h) (s\<lparr>dg_disp := d\<rparr>)"
| unregistered: "dg_unregister M sid (dg_disp s) = (res, d) \<Longrightarrow>
    dg_step L M run s (Unregistered sid) (s\<lparr>dg_disp := d\<rparr>)"

inductive dg_run ::
  "leb128 \<Rightarrow> (u64, 'h, 'm) map_ops \<Rightarrow> ('h \<Rightarrow> rpc_context \<Rightarrow> bytes \<Rightarrow> 'w \<Rightarrow> unit rpc_result \<times> 'w) \<Rightarrow>
   ('m, 'w) dg_state \<Rightarrow> 'h dg_event list \<Rightarrow> ('m, 'w) dg_state \<Rightarrow> bool"
  for L M run where
  dg_nil: "dg_run L M run s [] s"
| dg_snoc: "dg_run L M run s es s1 \<Longrightarrow> dg_step L M run s1 e s2 \<Longrightarrow> dg_run L M run s (es @ [e]) s2"

text \<open>What an event is for the pool.\<close>

fun pool_event_of :: "'h dg_event \<Rightarrow> dg_task pool_event list" where
  "pool_event_of (Received ids from_peer frame) = [Spawn (build_context ids from_peer, frame)]"
| "pool_event_of PermitAcquired = [Acquire]"
| "pool_event_of (Dispatched t) = [Finish t]"
| "pool_event_of _ = []"

lemma dg_step_pool:
  assumes "dg_step L M run s e s'" "pool_run p0 es (dg_pool s)"
  shows "pool_run p0 (es @ pool_event_of e) (dg_pool s')"
  using assms by cases (auto simp: subscribe_connection_def intro: pool_run.run_snoc)

lemma dg_run_pool:
  "dg_run L M run s es s' \<Longrightarrow> pool_run (dg_pool s) (concat (map pool_event_of es)) (dg_pool s')"
  by (induction rule: dg_run.induct) (auto intro: pool_run.run_nil dest: dg_step_pool)

fun received :: "'h dg_event list \<Rightarrow> dg_task multiset" where
  "received [] = {#}"
| "received (Received ids from_peer frame # es) =
     add_mset (build_context ids from_peer, frame) (received es)"
| "received (_ # es) = received es"

lemma spawned_received: "spawned (concat (map pool_event_of es)) = received es"
  by (induction es rule: received.induct) simp_all

text \<open>The pool of a dispatcher is a pool run, whatever happens in between.\<close>

lemma dg_run_inv:
  assumes "dg_run L M run (dg_start d w) es s"
  shows "pool_inv (dd_in_flight_permits d) (received es) (dg_pool s)"
  using pool_run_inv [of "dd_in_flight_permits d"] dg_run_pool [OF assms]
  by (auto simp: dg_start_def spawned_received [symmetric])

text \<open>Every move of the pool other than an arrival is a move of the loop, so the tasks can finish.\<close>

lemma dg_step_of_pool:
  assumes "pool_step (dg_pool s) e p" "\<forall>t. e \<noteq> Spawn t"
  shows "\<exists>e' s'. dg_step L M run s e' s' \<and> dg_pool s' = p \<and> pool_event_of e' = [e] \<and> received [e'] = {#}"
proof (cases e)
  case (Finish t)
  obtain ctx frame where t: "t = (ctx, frame)" by (cases t)
  obtain res w where "dispatch L M run (dg_disp s) ctx frame (dg_world s) = (res, w)"
    by (cases "dispatch L M run (dg_disp s) ctx frame (dg_world s)")
  with dg_step.dispatched [of s ctx frame p L M run res w] assms(1) Finish t show ?thesis
    by (intro exI [of _ "Dispatched (ctx, frame)"] exI [of _ "s\<lparr>dg_pool := p, dg_world := w\<rparr>"]) simp
next
  case Acquire
  with dg_step.acquired [of s p L M run] assms(1) show ?thesis
    by (intro exI [of _ PermitAcquired] exI [of _ "s\<lparr>dg_pool := p\<rparr>"]) simp
qed (use assms in simp)

lemma received_append: "received (es @ fs) = received es + received fs"
  by (induction es rule: received.induct) simp_all

lemma dg_run_of_pool:
  "pool_run p es q \<Longrightarrow> p = dg_pool s \<Longrightarrow> spawned es = {#} \<Longrightarrow>
    \<exists>es' s'. dg_run L M run s es' s' \<and> dg_pool s' = q \<and> received es' = {#}"
proof (induction rule: pool_run.induct)
  case (run_nil p)
  then show ?case by (intro exI [of _ "[]"] exI [of _ s]) (simp add: dg_run.dg_nil)
next
  case (run_snoc p es q e r)
  then obtain es' s' where r: "dg_run L M run s es' s'" "dg_pool s' = q" "received es' = {#}"
    by (auto simp: spawned_append)
  have "\<forall>t. e \<noteq> Spawn t" using run_snoc.prems(2) by (auto simp: spawned_append)
  with dg_step_of_pool [of s' e r L M run] run_snoc.hyps(2) r(2) obtain e' s'' where
    "dg_step L M run s' e' s''" "dg_pool s'' = r" "received [e'] = {#}" by auto
  with r dg_run.dg_snoc [OF r(1), of e' s''] show ?case
    by (intro exI [of _ "es' @ [e']"] exI [of _ s'']) (simp add: received_append)
qed

context leb128_codec begin

lemma dispatch_framed:
  assumes "encode_stream_id L sid [] = Inr pre"
  shows "dispatch L M run d ctx (pre @ payload) w =
    (case mo_get M (dd_handlers d) sid of
       Some h \<Rightarrow> run h ctx payload w | None \<Rightarrow> (Inl (DatagramStreamIdUnknown sid), w))"
proof -
  from assms have pre: "pre = uleb (unat sid)" by (simp add: encode_stream_id_eq)
  then have "drop (length (pre @ payload) - length payload) (pre @ payload) = payload" by simp
  then show ?thesis
    using decode_stream_id_ok [of sid payload] pre by (simp add: dispatch_def Let_def split: option.split)
qed

lemma datagram_cases:
  obtains (empty) "frame = []" "dispatch L M run d ctx frame w = (Inl (DatagramTooShort 0), w)"
    | (malformed) m where "frame \<noteq> []" "dispatch L M run d ctx frame w = (Inl (MalformedFrame m), w)"
    | (unknown) sid where "frame \<noteq> []" "mo_get M (dd_handlers d) sid = None"
      "dispatch L M run d ctx frame w = (Inl (DatagramStreamIdUnknown sid), w)"
    | (handled) hdr sid payload h where "frame = hdr @ payload" "hdr \<noteq> []"
      "decode_stream_id L frame = Inr (sid, payload)" "mo_get M (dd_handlers d) sid = Some h"
      "dispatch L M run d ctx frame w = run h ctx payload w"
proof (cases "frame = []")
  case True
  then show thesis by (intro empty) (simp_all add: dispatch_def)
next
  case False
  show thesis
  proof (cases "decode_stream_id L frame")
    case (Inl e)
    with decode_stream_id_only_malformed [OF this] False malformed show thesis
      by (auto simp: dispatch_def)
  next
    case (Inr r)
    then obtain sid payload where d: "decode_stream_id L frame = Inr (sid, payload)" by (cases r) auto
    from decode_stream_id_used [OF d] obtain hdr where hdr: "hdr \<noteq> []" "frame = hdr @ payload" by blast
    then have "drop (length frame - length payload) frame = payload" by simp
    with d hdr False show thesis
      by (cases "mo_get M (dd_handlers d) sid") (auto simp: dispatch_def intro: unknown handled)
  qed
qed

end

text \<open>What the dispatcher is to do with a datagram for \<open>sid\<close>.\<close>

definition routed ::
  "(u64, 'h, 'm) map_ops \<Rightarrow> ('h \<Rightarrow> rpc_context \<Rightarrow> bytes \<Rightarrow> 'w \<Rightarrow> unit rpc_result \<times> 'w) \<Rightarrow>
   'm dispatcher \<Rightarrow> rpc_context \<Rightarrow> u64 \<Rightarrow> bytes \<Rightarrow> 'w \<Rightarrow> unit rpc_result \<times> 'w" where
  "routed M run d ctx sid payload w =
     (case mo_get M (dd_handlers d) sid of
        Some h \<Rightarrow> run h ctx payload w
      | None \<Rightarrow> (Inl (DatagramStreamIdUnknown sid), w))"

context leb128_exact begin

text \<open>A datagram that opens with a complete varint.\<close>

lemma dispatch_header:
  assumes "varint_bytes hdr"
  shows "(\<exists>m. dispatch L M run d ctx (hdr @ rest) w = (Inl (MalformedFrame m), w)) \<or>
    uval hdr < 2 ^ 64 \<and> dispatch L M run d ctx (hdr @ rest) w = routed M run d ctx (word_of_nat (uval hdr)) rest w"
proof (cases "decode_stream_id L (hdr @ rest)")
  case (Inl e)
  from assms have "hdr \<noteq> []" by auto
  with Inl decode_stream_id_only_malformed [OF Inl] show ?thesis by (auto simp: dispatch_def)
next
  case (Inr r)
  then obtain sid tail_bytes where d: "decode_stream_id L (hdr @ rest) = Inr (sid, tail_bytes)" by (cases r) auto
  from decode_stream_id_header [OF assms d] have sid: "tail_bytes = rest" "uval hdr = unat sid" by auto
  from assms have "hdr \<noteq> []" by auto
  then have "dispatch L M run d ctx (hdr @ rest) w = routed M run d ctx sid rest w"
    using d sid(1) by (simp add: dispatch_def routed_def split: option.split)
  moreover have "uval hdr < 2 ^ 64" "word_of_nat (uval hdr) = sid"
    using unat_u64_less [of sid] by (simp_all add: sid(2))
  ultimately show ?thesis by simp
qed

end

lemma dg_run_Cons:
  assumes "dg_step L M run s e s1" "dg_run L M run s1 es s2"
  shows "dg_run L M run s (e # es) s2"
  using assms(2,1)
proof (induction rule: dg_run.induct)
  case (dg_nil s1)
  from dg_run.dg_snoc [OF dg_run.dg_nil dg_nil] show ?case by simp
next
  case (dg_snoc s1 es s2 f s3)
  from dg_run.dg_snoc [OF dg_snoc.IH [OF dg_snoc.prems] dg_snoc.hyps(2)] show ?case by simp
qed

text \<open>
  The abstract table: the partial map that the registrations and unregistrations of a run give. A
  registration of a taken id changes nothing.
\<close>

fun table_event :: "'h dg_event \<Rightarrow> (u64 \<rightharpoonup> 'h) \<Rightarrow> (u64 \<rightharpoonup> 'h)" where
  "table_event (Registered sid h) m = (if m sid = None then m(sid \<mapsto> h) else m)"
| "table_event (Unregistered sid) m = m(sid := None)"
| "table_event _ m = m"

definition table_after :: "'h dg_event list \<Rightarrow> (u64 \<rightharpoonup> 'h)" where
  "table_after es = fold table_event es Map.empty"

lemma table_after_snoc: "table_after (es @ [e]) = table_event e (table_after es)"
  by (simp add: table_after_def)

definition table_refines ::
  "(u64, 'h, 'm) map_ops \<Rightarrow> ('m \<Rightarrow> bool) \<Rightarrow> nat \<Rightarrow> (u64 \<rightharpoonup> 'h) \<Rightarrow> 'm dispatcher \<Rightarrow> bool" where
  "table_refines M mo_inv permits m d \<longleftrightarrow>
     mo_inv (dd_handlers d) \<and> mo_get M (dd_handlers d) = m \<and> dd_in_flight_permits d = permits"

lemma dg_step_table:
  assumes "keyed_map M mo_inv" "dg_step L M run s e s'" "table_refines M mo_inv permits m (dg_disp s)"
  shows "table_refines M mo_inv permits (table_event e m) (dg_disp s')"
  using assms(2,3)
  by cases (auto simp: table_refines_def subscribe_connection_def dg_register_def dg_unregister_def
      keyed_map.get_insert [OF assms(1)] keyed_map.get_remove [OF assms(1)] keyed_map.inv_insert [OF assms(1)]
      keyed_map.inv_remove [OF assms(1)] split: option.splits)

lemma dg_run_table:
  assumes "keyed_map M mo_inv" "with_max_in_flight M permits = Inr d" "dg_run L M run (dg_start d w) es s"
  shows "table_refines M mo_inv permits (table_after es) (dg_disp s)"
proof -
  have start: "table_refines M mo_inv permits Map.empty (dg_disp (dg_start d w))"
    using assms(2) keyed_map.inv_new [OF assms(1)] keyed_map.get_new [OF assms(1)]
    by (auto simp: table_refines_def with_max_in_flight_def dg_start_def split: if_splits)
  have "dg_run L M run s0 es s \<Longrightarrow> table_refines M mo_inv permits Map.empty (dg_disp s0) \<Longrightarrow>
      table_refines M mo_inv permits (table_after es) (dg_disp s)" for s0
    by (induction rule: dg_run.induct)
      (auto simp: table_after_snoc table_after_def intro: dg_step_table [OF assms(1)])
  from this [OF assms(3) start] show ?thesis .
qed

subsection \<open>Properties\<close>

text \<open>
  C21. Datagram routing, for every datagram. One that opens with the canonical encoding of an id reaches
  exactly the handler registered under that id, with exactly the bytes behind it; an unregistered id is the
  unknown-id error and leaves the application state alone. One that opens with any other complete varint is
  malformed, or the number its bytes spell fits a u64 and it is routed by that number, to no other handler
  and with no other payload; a number that does not fit is always malformed. Without a complete varint no
  handler runs: an empty datagram is too short, every other one is malformed. These cases are all.
\<close>

theorem datagram_dispatch_routes:
  assumes L: "leb128_exact L"
  shows "dispatch L M run d ctx (uleb (unat sid) @ payload) w = routed M run d ctx sid payload w \<and>
    (\<forall>hdr rest. frame = hdr @ rest \<longrightarrow> varint_bytes hdr \<longrightarrow>
      (\<exists>m. dispatch L M run d ctx frame w = (Inl (MalformedFrame m), w)) \<or>
      uval hdr < 2 ^ 64 \<and> dispatch L M run d ctx frame w = routed M run d ctx (word_of_nat (uval hdr)) rest w) \<and>
    ((\<nexists>hdr rest. frame = hdr @ rest \<and> varint_bytes hdr) \<longrightarrow>
      (if frame = [] then dispatch L M run d ctx frame w = (Inl (DatagramTooShort 0), w)
       else \<exists>m. dispatch L M run d ctx frame w = (Inl (MalformedFrame m), w)))"
proof (intro conjI allI impI)
  note codec = leb128_exact.axioms(1) [OF L]
  show "dispatch L M run d ctx (uleb (unat sid) @ payload) w = routed M run d ctx sid payload w"
    unfolding routed_def
    by (rule leb128_codec.dispatch_framed [OF codec]) (simp add: leb128_codec.encode_stream_id_eq [OF codec])
  show "(\<exists>m. dispatch L M run d ctx frame w = (Inl (MalformedFrame m), w)) \<or>
      uval hdr < 2 ^ 64 \<and> dispatch L M run d ctx frame w = routed M run d ctx (word_of_nat (uval hdr)) rest w"
    if "frame = hdr @ rest" "varint_bytes hdr" for hdr rest
    using leb128_exact.dispatch_header [OF L that(2), of M run d ctx rest w] that(1) by simp
  show "if frame = [] then dispatch L M run d ctx frame w = (Inl (DatagramTooShort 0), w)
      else \<exists>m. dispatch L M run d ctx frame w = (Inl (MalformedFrame m), w)"
    if none: "\<nexists>hdr rest. frame = hdr @ rest \<and> varint_bytes hdr"
  proof -
    from varint_split [of frame "length frame"] none have "\<forall>b \<in> set frame. 128 \<le> unat b" by auto
    from leb128_codec.decode_stream_id_open [OF codec this] show ?thesis by (auto simp: dispatch_def)
  qed
qed

theorem datagram_dispatch_routes_witness:
  "let d = \<lparr>dd_handlers = [(300, ''h'')], dd_in_flight_permits = 1\<rparr>;
       run = (\<lambda>h ctx p w. (Inr (), w @ [(h, p)]));
       ctx = build_context (0, 0) []
   in dispatch leb_ref hm_ops run d ctx (uleb (unat (300 :: u64)) @ [7, 8]) [] = (Inr (), [(''h'', [7, 8])]) \<and>
     (\<exists>m. dispatch leb_ref hm_ops run d ctx [0xFF] [] = (Inl (MalformedFrame m), []))"
proof -
  note th = datagram_dispatch_routes [OF lr.leb128_exact_axioms, where M = hm_ops and
      d = "\<lparr>dd_handlers = [(300, ''h'')], dd_in_flight_permits = 1\<rparr>" and
      run = "\<lambda>h ctx p w. (Inr (), w @ [(h, p)])" and ctx = "build_context (0, 0) []" and w = "[]"
      and sid = 300 and payload = "[7, 8]" and frame = "[0xFF]"]
  have "mo_get hm_ops [(300 :: u64, ''h'')] 300 = Some ''h''" by (simp add: hm_get_def)
  moreover have "\<nexists>hdr rest. [0xFF :: u8] = hdr @ rest \<and> varint_bytes hdr"
    by (auto simp: Cons_eq_append_conv)
  ultimately show ?thesis
    using conjunct1 [OF th] conjunct2 [OF conjunct2 [OF th]] by (simp add: Let_def routed_def)
qed

text \<open>
  One operation on the dispatcher's table: a free id can be registered and then routes to its handler, a taken id
  is refused and keeps its handler, unregistering returns the handler and frees exactly that id,
  and the count follows.
\<close>

theorem datagram_registration:
  assumes M: "keyed_map M mo_inv" and d: "mo_inv (dd_handlers d)"
  shows "case mo_get M (dd_handlers d) sid of
      None \<Rightarrow>
        fst (dg_register M sid h d) = Inr () \<and>
        mo_get M (dd_handlers (snd (dg_register M sid h d))) = (mo_get M (dd_handlers d))(sid \<mapsto> h) \<and>
        registered_count M (snd (dg_register M sid h d)) = Suc (registered_count M d) \<and>
        fst (dg_unregister M sid d) = None \<and>
        registered_count M (snd (dg_unregister M sid d)) = registered_count M d
    | Some h0 \<Rightarrow>
        dg_register M sid h d = (Inl (DatagramStreamIdCollision sid), d) \<and>
        fst (dg_unregister M sid d) = Some h0 \<and>
        mo_get M (dd_handlers (snd (dg_unregister M sid d))) = (mo_get M (dd_handlers d))(sid := None) \<and>
        registered_count M (snd (dg_unregister M sid d)) = registered_count M d - 1"
  using keyed_map.get_insert [OF M d] keyed_map.get_remove [OF M d]
    keyed_map.len_insert [OF M d, of sid h] keyed_map.len_remove [OF M d, of sid]
  by (simp add: dg_register_def dg_unregister_def registered_count_def split: option.split)

theorem datagram_registration_witness:
  "fst (dg_register hm_ops 5 ''h'' \<lparr>dd_handlers = [], dd_in_flight_permits = 1\<rparr>) = Inr ()"
  using datagram_registration [OF hm.keyed_map_axioms, where
      d = "\<lparr>dd_handlers = [], dd_in_flight_permits = 1\<rparr>" and sid = 5 and h = "''h''"]
  by (simp add: hm_inv_def hm_get_def)

text \<open>
  C36. The dispatcher's table refines a partial map from stream ids to handlers. After any run of the
  dispatcher, with registrations, unregistrations, arrivals, dispatches and closing connections
  interleaved in any order, the table is the map that the registrations and unregistrations give
  when replayed: a datagram is dispatched by the map, the count is the size of its domain, registering
  an id succeeds exactly when the map has it free, and unregistering returns the map's entry.
\<close>

theorem datagram_table_refines:
  assumes M: "keyed_map M mo_inv" and L: "leb128_codec L" and new: "with_max_in_flight M max_in_flight = Inr d0"
    and run: "dg_run L M run (dg_start d0 w0) es s"
  shows "dispatch L M run (dg_disp s) ctx (uleb (unat sid) @ payload) w =
      (case table_after es sid of
         Some h \<Rightarrow> run h ctx payload w | None \<Rightarrow> (Inl (DatagramStreamIdUnknown sid), w)) \<and>
    registered_count M (dg_disp s) = card (dom (table_after es)) \<and>
    fst (dg_register M sid h (dg_disp s)) =
      (if table_after es sid = None then Inr () else Inl (DatagramStreamIdCollision sid)) \<and>
    fst (dg_unregister M sid (dg_disp s)) = table_after es sid \<and>
    dd_in_flight_permits (dg_disp s) = max_in_flight"
proof -
  from dg_run_table [OF M new run] have table: "mo_inv (dd_handlers (dg_disp s))"
    "mo_get M (dd_handlers (dg_disp s)) = table_after es" "dd_in_flight_permits (dg_disp s) = max_in_flight"
    by (simp_all add: table_refines_def)
  have "dispatch L M run (dg_disp s) ctx (uleb (unat sid) @ payload) w =
      (case mo_get M (dd_handlers (dg_disp s)) sid of
         Some h \<Rightarrow> run h ctx payload w | None \<Rightarrow> (Inl (DatagramStreamIdUnknown sid), w))"
    by (rule leb128_codec.dispatch_framed [OF L]) (simp add: leb128_codec.encode_stream_id_eq [OF L])
  with table keyed_map.len_dom [OF M table(1)] show ?thesis
    by (simp add: registered_count_def dg_register_def dg_unregister_def split: option.split)
qed

theorem datagram_table_refines_witness:
  "\<exists>s. dg_run leb_ref hm_ops (\<lambda>h ctx p w. (Inr (), w @ [(h, p)])) (dg_start \<lparr>dd_handlers = [], dd_in_flight_permits = 2\<rparr> [])
      [Registered 300 ''h'', Subscribed [], Registered 300 ''g''] s \<and>
    dispatch leb_ref hm_ops (\<lambda>h ctx p w. (Inr (), w @ [(h, p)])) (dg_disp s) (build_context (0, 0) [])
      (uleb (unat (300 :: u64)) @ [7]) [] = (Inr (), [(''h'', [7])]) \<and>
    fst (dg_unregister hm_ops 5 (dg_disp s)) = None"
proof -
  let ?run = "\<lambda>h ctx p w. (Inr (), w @ [(h, p)])"
  let ?w0 = "[] :: (string \<times> bytes) list"
  let ?d = "\<lparr>dd_handlers = [], dd_in_flight_permits = 2\<rparr>"
  let ?d1 = "\<lparr>dd_handlers = [(300 :: u64, ''h'')], dd_in_flight_permits = 2\<rparr>"
  let ?s = "subscribe_connection [] ((dg_start ?d ?w0)\<lparr>dg_disp := ?d1\<rparr>)"
  have "dg_step leb_ref hm_ops ?run (dg_start ?d ?w0) (Registered 300 ''h'') ((dg_start ?d ?w0)\<lparr>dg_disp := ?d1\<rparr>)"
    by (rule dg_step.registered) (simp add: dg_start_def dg_register_def hm_get_def hm_insert_def)
  note free = this
  have "dg_step leb_ref hm_ops ?run ?s (Registered 300 ''g'') (?s\<lparr>dg_disp := ?d1\<rparr>)"
    by (rule dg_step.registered) (simp add: subscribe_connection_def dg_register_def hm_get_def)
  moreover have "?s\<lparr>dg_disp := ?d1\<rparr> = ?s" by (simp add: subscribe_connection_def)
  ultimately have taken: "dg_step leb_ref hm_ops ?run ?s (Registered 300 ''g'') ?s" by simp
  have run: "dg_run leb_ref hm_ops ?run (dg_start ?d ?w0) [Registered 300 ''h'', Subscribed [], Registered 300 ''g''] ?s"
    by (rule dg_run_Cons [OF free dg_run_Cons [OF dg_step.subscribed dg_run_Cons [OF taken dg_run.dg_nil]]])
  have new: "with_max_in_flight hm_ops 2 = Inr ?d" by (simp add: with_max_in_flight_def)
  have "table_after [Registered 300 ''h'', Subscribed [], Registered 300 ''g''] = [300 \<mapsto> ''h'']"
    by (simp add: table_after_def)
  with datagram_table_refines [OF hm.keyed_map_axioms lr.leb128_codec_axioms new run, where ctx = "build_context (0, 0) []"
      and sid = 300 and payload = "[7]" and w = "[]"]
    datagram_table_refines [OF hm.keyed_map_axioms lr.leb128_codec_axioms new run, where sid = 5] run
  show ?thesis by (intro exI [of _ ?s]) simp
qed

text \<open>
  C18. Whatever datagrams arrive on however many connections, whatever the handlers do and whenever
  handlers are registered: at most max_in_flight dispatches run at once, every datagram read is
  waiting, running or dispatched, none twice, and from every reachable state all of them can be
  dispatched without a further arrival, so the dispatcher never deadlocks.
\<close>

theorem datagram_flood_bounded:
  assumes new: "with_max_in_flight M max_in_flight = Inr d0" and d: "dd_in_flight_permits d = dd_in_flight_permits d0"
    and run: "dg_run L M run (dg_start d w) es s"
  shows "size (po_running (dg_pool s)) \<le> max_in_flight \<and>
    mset (po_waiting (dg_pool s)) + po_running (dg_pool s) + po_done (dg_pool s) = received es \<and>
    (\<exists>es' s'. dg_run L M run s es' s' \<and> received es' = {#} \<and> po_done (dg_pool s') = received es)"
proof -
  from new have limit: "dd_in_flight_permits d = max_in_flight" "0 < max_in_flight"
    using d by (auto simp: with_max_in_flight_def split: if_splits)
  with dg_run_inv [OF run] have inv: "pool_inv max_in_flight (received es) (dg_pool s)" by simp
  from pool_drains [OF inv limit(2)] obtain pes q where
    q: "pool_run (dg_pool s) pes q" "spawned pes = {#}" "po_waiting q = []" "po_running q = {#}" by blast
  from dg_run_of_pool [OF q(1) refl q(2)] obtain es' s' where
    s': "dg_run L M run s es' s'" "dg_pool s' = q" "received es' = {#}" by blast
  have "pool_inv max_in_flight (received es + spawned pes) q"
    using pool_run_keeps [OF q(1) inv] .
  with q s' inv show ?thesis by (auto simp: pool_inv_def)
qed

lemma received_flood:
  "received (map (Received ids from_peer) frames) = mset (map (Pair (build_context ids from_peer)) frames)"
  by (induction frames) simp_all

text \<open>
  C40. The documentation of the loop says that a flood queues instead of spawning unbounded tasks. The
  permit bounds the dispatches that run, but the task is spawned before it asks for the permit:
  while no dispatch ends, any number of datagrams of one peer leaves as many waiting tasks, each
  holding its datagram.
\<close>

theorem datagram_tasks_unbounded:
  "\<exists>s. dg_run L M run (dg_start d w) (Subscribed from_peer # map (Received ids from_peer) frames) s \<and>
     po_waiting (dg_pool s) = map (Pair (build_context ids from_peer)) frames \<and>
     po_running (dg_pool s) = {#} \<and> po_done (dg_pool s) = {#} \<and>
     received (Subscribed from_peer # map (Received ids from_peer) frames) = mset (po_waiting (dg_pool s))"
proof -
  let ?task = "Pair (build_context ids from_peer)"
  let ?s = "subscribe_connection from_peer (dg_start d w)"
  let ?at = "\<lambda>ws. ?s\<lparr>dg_pool := (dg_pool ?s)\<lparr>po_waiting := ws\<rparr>\<rparr>"
  have flood: "dg_run L M run (?at ws) (map (Received ids from_peer) fs) (?at (ws @ map ?task fs))" for ws fs
  proof (induction fs arbitrary: ws)
    case (Cons f fs)
    have "pool_step (dg_pool (?at ws)) (Spawn (?task f)) (dg_pool (?at (ws @ [?task f])))"
      using pool_step.spawn [of "dg_pool (?at ws)" "?task f"] by simp
    from dg_step.received [OF _ this] have
      "dg_step L M run (?at ws) (Received ids from_peer f) (?at (ws @ [?task f]))"
      by (simp add: subscribe_connection_def)
    from dg_run_Cons [OF this Cons.IH] show ?case by simp
  qed (simp add: dg_run.dg_nil)
  have "?at [] = ?s" by (simp add: subscribe_connection_def dg_start_def pool_new_def)
  with flood [of "[]" frames] have
    "dg_run L M run ?s (map (Received ids from_peer) frames) (?at (map ?task frames))" by simp
  from dg_run_Cons [OF dg_step.subscribed this] show ?thesis
    by (intro exI [of _ "?at (map ?task frames)"])
      (simp add: subscribe_connection_def dg_start_def pool_new_def received_flood)
qed

theorem datagram_flood_bounded_witness:
  "\<exists>s. dg_run leb_ref hm_ops (\<lambda>h ctx p w. (Inr (), Suc w))
      (dg_start \<lparr>dd_handlers = [(5 :: u64, ())], dd_in_flight_permits = 2\<rparr> (0 :: nat))
      [Subscribed [], Received (0, 0) [] [5, 1]] s \<and>
    po_waiting (dg_pool s) = [(build_context (0, 0) [], [5, 1])] \<and> size (po_running (dg_pool s)) \<le> 2 \<and>
    (\<exists>es' s'. dg_run leb_ref hm_ops (\<lambda>h ctx p w. (Inr (), Suc w)) s es' s' \<and>
      po_done (dg_pool s') = {#(build_context (0, 0) [], [5, 1])#})"
proof -
  let ?d = "\<lparr>dd_handlers = [(5 :: u64, ())], dd_in_flight_permits = 2\<rparr>"
  let ?s = "subscribe_connection [] (dg_start ?d (0 :: nat))"
  let ?t = "(build_context (0, 0) [], [5, 1])"
  let ?s1 = "?s\<lparr>dg_pool := (dg_pool ?s)\<lparr>po_waiting := po_waiting (dg_pool ?s) @ [?t]\<rparr>\<rparr>"
  have new: "with_max_in_flight hm_ops 2 = Inr \<lparr>dd_handlers = [], dd_in_flight_permits = 2\<rparr>"
    by (simp add: with_max_in_flight_def)
  have "dg_step leb_ref hm_ops (\<lambda>h ctx p w. (Inr (), Suc w)) ?s (Received (0, 0) [] [5, 1]) ?s1"
    by (rule dg_step.received [OF _ pool_step.spawn]) (simp add: subscribe_connection_def)
  from dg_run_Cons [OF dg_step.subscribed dg_run_Cons [OF this dg_run.dg_nil]] have
    run: "dg_run leb_ref hm_ops (\<lambda>h ctx p w. (Inr (), Suc w)) (dg_start ?d 0)
      [Subscribed [], Received (0, 0) [] [5, 1]] ?s1" .
  from datagram_flood_bounded [OF new _ this] run show ?thesis
    by (intro exI [of _ ?s1]) (auto simp: subscribe_connection_def dg_start_def pool_new_def)
qed

end
