(* ===== verification/Schema.thy ===== *)
theory Schema
  imports Method Postcard Context
begin

section \<open>schema.rs: the built-in self-description method\<close>

text \<open>
  \<^verbatim>\<open>schema_get\<close> answers with the sorted names of the registry. The handler holds a weak
  reference to the registry: \<open>None\<close> when it has been dropped. The codec of the response is the
  parameter \<open>P\<close>. A \<^verbatim>\<open>SchemaHandler\<close> is registered as a unary handler value \<open>h\<close>.
\<close>

definition METHOD_SCHEMA_GET :: string where
  "METHOD_SCHEMA_GET = ''nerw:schema@1.0.0/schema/get''"

record schema_response =
  sr_methods :: "string list"

datatype schema_error = RegistryGone

fun schema_error_display :: "schema_error \<Rightarrow> string" where
  "schema_error_display RegistryGone = ''method registry has been dropped''"

definition schema_handle ::
  "schema_response postcard \<Rightarrow> ('u, 's) method_registry option \<Rightarrow> rpc_context \<Rightarrow> bytes \<Rightarrow> bytes rpc_result" where
  "schema_handle P registry ctx request =
     (case registry of
        None \<Rightarrow> Inl (Handler (schema_error_display RegistryGone))
      | Some r \<Rightarrow>
          (let response = \<lparr>sr_methods = method_names r\<rparr>
           in case pc_to_vec P response of Inl e \<Rightarrow> Inl (Codec e) | Inr bs \<Rightarrow> Inr bs))"

definition register_schema_method ::
  "('u, 's) method_registry \<Rightarrow> 'u \<Rightarrow> string + ('u, 's) method_registry" where
  "register_schema_method registry h = register METHOD_SCHEMA_GET h registry"

subsection \<open>Lemmas\<close>

lemma schema_name_pinned: "pinned METHOD_SCHEMA_GET"
  by code_simp

lemma method_names_set: "set (method_names reg) = dom (registry_map reg)"
  by (simp add: method_names_def registry_map_def hm_keys_set)

lemma method_names_sorted:
  "registry_inv reg \<Longrightarrow> sorted (method_names reg) \<and> distinct (method_names reg)"
  by (simp add: method_names_def registry_inv_def hm_keys_distinct)

definition fmt_schema_response :: "schema_response fmt" where
  "fmt_schema_response = fmt_map (\<lambda>ms. \<lparr>sr_methods = ms\<rparr>) sr_methods (fmt_seq fmt_str)"

interpretation psr: postcard_codec "postcard_of fmt_schema_response"
  by (rule postcard_of_ok) (simp add: fmt_schema_response_def fmt_intros)

subsection \<open>Properties\<close>

text \<open>
  C37. Registering the built-in method never panics, and from then on it is found under its name; its
  answer decodes to the names of exactly the registered methods, itself included, in ascending
  order without repetition, whatever was registered and in whatever order, and an old client still
  reads these names when a newer server appends fields. A dropped registry is a handler error.
\<close>

theorem schema_describes_registry:
  assumes P: "postcard_codec P" and reg: "registry_inv reg"
    and answer: "schema_handle P (Some reg') ctx request = Inr bs"
    and registered: "register_schema_method reg h = Inr reg'"
  shows "lookup reg' METHOD_SCHEMA_GET = Some h \<and>
    (\<exists>names. pc_from_bytes P (bs @ new_fields) = Inr \<lparr>sr_methods = names\<rparr> \<and>
       set names = insert METHOD_SCHEMA_GET (dom (registry_map reg)) \<and> sorted names \<and> distinct names) \<and>
    (\<forall>g. \<exists>reg''. register_schema_method reg g = Inr reg'') \<and>
    schema_handle P (None :: ('u, 's) method_registry option) ctx request =
      Inl (Handler ''method registry has been dropped'')"
proof (intro conjI allI)
  note r = registered [unfolded register_schema_method_def]
  note m = register_map [OF reg r]
  then show "lookup reg' METHOD_SCHEMA_GET = Some h"
    by (simp add: lookup_def lookup_entry_resolve resolve_def domIff)
  from answer have "pc_to_vec P \<lparr>sr_methods = method_names reg'\<rparr> = Inr bs"
    by (auto simp: schema_handle_def split: sum.splits)
  then have "pc_from_bytes P (bs @ new_fields) = Inr \<lparr>sr_methods = method_names reg'\<rparr>"
    by (rule postcard_codec.from_ser_more [OF P])
  moreover have "set (method_names reg') = insert METHOD_SCHEMA_GET (dom (registry_map reg))"
    using m by (simp add: method_names_set)
  ultimately show "\<exists>names. pc_from_bytes P (bs @ new_fields) = Inr \<lparr>sr_methods = names\<rparr> \<and>
       set names = insert METHOD_SCHEMA_GET (dom (registry_map reg)) \<and> sorted names \<and> distinct names"
    using method_names_sorted [OF register_inv [OF reg r]] by blast
  show "\<exists>reg''. register_schema_method reg g = Inr reg''" for g
    using schema_name_pinned validate_pinned [of METHOD_SCHEMA_GET]
    by (auto simp: register_schema_method_def register_def split: sum.split)
qed (simp add: schema_handle_def)

theorem schema_describes_registry_witness:
  "\<exists>reg' bs names. register_schema_method \<lparr>handlers = [(''z@1/i/m'', Unary 3)]\<rparr> (4 :: nat) = Inr reg' \<and>
     schema_handle (postcard_of fmt_schema_response) (Some (reg' :: (nat, nat) method_registry))
       (rpc_context_minimal (0, 0) (peer_loopback [])) [] = Inr bs \<and>
     pc_from_bytes (postcard_of fmt_schema_response) (bs @ [1, 0]) = Inr \<lparr>sr_methods = names\<rparr> \<and>
     set names = {METHOD_SCHEMA_GET, ''z@1/i/m''}"
proof -
  let ?reg = "\<lparr>handlers = [(''z@1/i/m'', Unary 3)]\<rparr> :: (nat, nat) method_registry"
  let ?reg' = "\<lparr>handlers = [(''z@1/i/m'', Unary 3), (METHOD_SCHEMA_GET, Unary 4)]\<rparr> :: (nat, nat) method_registry"
  have inv: "registry_inv ?reg"
  proof -
    have "pinned ''z@1/i/m''" by code_simp
    then show ?thesis by (simp add: registry_inv_def hm_inv_def hm_keys_def)
  qed
  have r: "register_schema_method ?reg 4 = Inr ?reg'" by code_simp
  have "\<not> isl (schema_handle (postcard_of fmt_schema_response) (Some ?reg')
       (rpc_context_minimal (0, 0) (peer_loopback [])) [])"
    by code_simp
  then obtain bs where a: "schema_handle (postcard_of fmt_schema_response) (Some ?reg')
       (rpc_context_minimal (0, 0) (peer_loopback [])) [] = Inr bs" by (metis isl_def sum.exhaust)
  have "dom (registry_map ?reg) = {''z@1/i/m''}" by (auto simp: registry_map_def hm_get_def)
  with schema_describes_registry [OF psr.postcard_codec_axioms inv a r, of "[1, 0]"] r a show ?thesis
    by auto
qed

end
