(* ===== verification/Test_Wire.thy ===== *)
theory Test_Wire
  imports Wire Wire_Error Payload_Codec Streaming Transport Transit
begin

section \<open>The unit tests of the wire formats\<close>

text \<open>
  The unit tests that stand in \<^verbatim>\<open>wire.rs\<close>, \<^verbatim>\<open>error.rs\<close>, \<^verbatim>\<open>wire_error.rs\<close>, \<^verbatim>\<open>codec.rs\<close>,
  \<^verbatim>\<open>transport.rs\<close> and \<^verbatim>\<open>streaming.rs\<close>, one executable predicate per test function, evaluated on
  the model: its authors' expectations of the code are met by the definitions. Where a test runs the
  \<^verbatim>\<open>leb128\<close> crate, it is shown for every reader and writer with the laws of \<open>leb128_codec\<close>; where it
  looks at the bytes of postcard, for the formats of the theory \<open>Postcard\<close>.

  \<open>expect_ok\<close> and \<open>expect_err\<close> are \<^verbatim>\<open>expect\<close> and \<^verbatim>\<open>expect_err\<close>, which fail the test;
  \<open>str_contains\<close> and \<open>str_matches\<close> (the number of disjoint occurrences) are the methods of \<^verbatim>\<open>str\<close>.
\<close>

definition expect_ok :: "'e + 'a \<Rightarrow> ('a \<Rightarrow> bool) \<Rightarrow> bool" where
  "expect_ok res rest = (case res of Inl _ \<Rightarrow> False | Inr x \<Rightarrow> rest x)"

definition expect_err :: "'e + 'a \<Rightarrow> ('e \<Rightarrow> bool) \<Rightarrow> bool" where
  "expect_err res rest = (case res of Inl e \<Rightarrow> rest e | Inr _ \<Rightarrow> False)"

lemma expect_simps [simp]:
  "expect_ok (Inl e) rest = False" "expect_ok (Inr x) rest = rest x"
  "expect_err (Inl e) rest' = rest' e" "expect_err (Inr x) rest' = False"
  by (simp_all add: expect_ok_def expect_err_def)

fun str_contains :: "string \<Rightarrow> string \<Rightarrow> bool" where
  "str_contains [] sub = (sub = [])"
| "str_contains (c # cs) sub = (strip_prefix sub (c # cs) \<noteq> None \<or> str_contains cs sub)"

text \<open>\<open>skip\<close> characters of the last occurrence are still to be passed over.\<close>

fun count_matches :: "nat \<Rightarrow> string \<Rightarrow> string \<Rightarrow> nat" where
  "count_matches skip [] sub = 0"
| "count_matches (Suc skip) (c # cs) sub = count_matches skip cs sub"
| "count_matches 0 (c # cs) sub =
     (if strip_prefix sub (c # cs) \<noteq> None then Suc (count_matches (length sub - 1) cs sub)
      else count_matches 0 cs sub)"

definition str_matches :: "string \<Rightarrow> string \<Rightarrow> nat" where
  "str_matches s sub = count_matches 0 s sub"

lemma char_a: "byte_of_char (CHR ''a'') < 128"
  by code_simp

lemma digits:
  "digit_char 0 = CHR ''0''" "digit_char (Suc 0) = CHR ''1''" "digit_char 2 = CHR ''2''" "digit_char 4 = CHR ''4''"
  "digit_char 5 = CHR ''5''" "digit_char 6 = CHR ''6''" "digit_char 7 = CHR ''7''" "digit_char 9 = CHR ''9''"
  by code_simp+

lemma shown_numbers:
  "show_nat 0 = ''0''" "show_nat 7 = ''7''" "show_nat 42 = ''42''" "show_nat 5000 = ''5000''" "show_nat 4096 = ''4096''"
  "show_nat 1000000 = ''1000000''"
  by (simp_all add: show_nat.simps digits)

fun is_malformed :: "rpc_error \<Rightarrow> bool" where
  "is_malformed (MalformedFrame _) = True"
| "is_malformed _ = False"

subsection \<open>wire.rs\<close>

definition test_method_name_roundtrip :: "leb128 \<Rightarrow> bool" where
  "test_method_name_roundtrip L =
     (let name = ''tolki:chat@1.0.0/chat/send-message'' in
      expect_ok (encode_method_name L name []) (\<lambda>buf.
        expect_ok (decode_method_name L buf) (\<lambda>(decoded, rest). decoded = name \<and> rest = [])))"

definition test_method_name_with_payload_after :: "leb128 \<Rightarrow> bool" where
  "test_method_name_with_payload_after L =
     (let name = ''tolki:schema@1.0.0/schema/get'' in
      expect_ok (encode_method_name L name []) (\<lambda>buf.
        expect_ok (decode_method_name L (buf @ str_bytes ''PAYLOAD'')) (\<lambda>(decoded, rest).
          decoded = name \<and> rest = str_bytes ''PAYLOAD'')))"

definition test_rejects_truncated_buffer :: "leb128 \<Rightarrow> bool" where
  "test_rejects_truncated_buffer L = expect_err (decode_method_name L [0x10]) (\<lambda>_. True)"

definition test_rejects_invalid_utf8 :: "leb128 \<Rightarrow> bool" where
  "test_rejects_invalid_utf8 L = expect_err (decode_method_name L [0x02, 0xFF, 0xFE]) is_malformed"

definition test_decode_rejects_oversized_method_name :: "leb128 \<Rightarrow> bool" where
  "test_decode_rejects_oversized_method_name L =
     expect_ok (leb_write L 5000) (\<lambda>bad.
       expect_err (decode_method_name L bad) (\<lambda>e.
         case e of MalformedFrame msg \<Rightarrow> str_contains msg ''5000'' \<and> str_contains msg ''4096'' | _ \<Rightarrow> False))"

definition test_decode_accepts_method_name_at_max_len :: "leb128 \<Rightarrow> bool" where
  "test_decode_accepts_method_name_at_max_len L =
     (let name = replicate MAX_METHOD_NAME_LEN (CHR ''a'') in
      expect_ok (encode_method_name L name []) (\<lambda>buf.
        expect_ok (decode_method_name L buf) (\<lambda>(decoded, rest). length decoded = MAX_METHOD_NAME_LEN \<and> rest = [])))"

definition test_opcodes_have_expected_values :: bool where
  "test_opcodes_have_expected_values \<longleftrightarrow>
     OPCODE_UNARY_REQUEST = 0x00 \<and> OPCODE_UNARY_RESPONSE = 0x01 \<and> OPCODE_UNARY_ERROR = 0x02 \<and>
     OPCODE_STREAMING_OPEN_REQUEST = 0x10 \<and> OPCODE_STREAMING_OPEN_RESPONSE = 0x11 \<and>
     OPCODE_STREAMING_REQUEST_CHUNK = 0x20 \<and> OPCODE_STREAMING_RESPONSE_CHUNK = 0x21 \<and>
     OPCODE_STREAMING_REQUEST_END = 0x30 \<and> OPCODE_STREAMING_RESPONSE_END = 0x31 \<and>
     OPCODE_STREAMING_ERROR = 0x40"

definition test_stream_id_roundtrip_small :: "leb128 \<Rightarrow> bool" where
  "test_stream_id_roundtrip_small L =
     expect_ok (encode_stream_id L 42 []) (\<lambda>buf. length buf = 1 \<and>
       expect_ok (decode_stream_id L buf) (\<lambda>(decoded, rest). decoded = 42 \<and> rest = []))"

definition test_stream_id_roundtrip_large :: "leb128 \<Rightarrow> bool" where
  "test_stream_id_roundtrip_large L =
     (let u32_max = 0xFFFFFFFF in
      expect_ok (encode_stream_id L u32_max []) (\<lambda>buf.
        expect_ok (decode_stream_id L buf) (\<lambda>(decoded, rest). decoded = u32_max \<and> rest = [])))"

definition test_stream_id_with_payload_after :: "leb128 \<Rightarrow> bool" where
  "test_stream_id_with_payload_after L =
     expect_ok (encode_stream_id L 7 []) (\<lambda>buf.
       expect_ok (decode_stream_id L (buf @ str_bytes ''PAYLOAD'')) (\<lambda>(decoded, rest).
         decoded = 7 \<and> rest = str_bytes ''PAYLOAD''))"

definition test_stream_id_decode_rejects_empty_buffer :: "leb128 \<Rightarrow> bool" where
  "test_stream_id_decode_rejects_empty_buffer L = expect_err (decode_stream_id L []) is_malformed"

definition test_stream_id_decode_rejects_truncated_varint :: "leb128 \<Rightarrow> bool" where
  "test_stream_id_decode_rejects_truncated_varint L = expect_err (decode_stream_id L [0x80]) is_malformed"

definition test_stream_id_zero_roundtrip :: "leb128 \<Rightarrow> bool" where
  "test_stream_id_zero_roundtrip L =
     expect_ok (encode_stream_id L 0 []) (\<lambda>buf. buf = [0x00] \<and>
       expect_ok (decode_stream_id L buf) (\<lambda>(decoded, rest). decoded = 0 \<and> rest = []))"

context leb128_codec begin

text \<open>What a buffer that the code's writer filled is read back as, with further bytes behind it.\<close>

lemma encoded_name:
  assumes "rust_str name" "length name \<le> MAX_METHOD_NAME_LEN"
  shows "expect_ok (encode_method_name L name []) (\<lambda>buf. expect_ok (decode_method_name L (buf @ tl2)) P) \<longleftrightarrow> P (name, tl2)"
    "expect_ok (encode_method_name L name []) (\<lambda>buf. expect_ok (decode_method_name L buf) Q) \<longleftrightarrow> Q (name, [])"
proof -
  have "length name < 2 ^ 64" using assms(2) by (simp add: MAX_METHOD_NAME_LEN_def)
  note eq = encode_method_name_eq [OF this] and ok = decode_method_name_ok [OF assms]
  show "expect_ok (encode_method_name L name []) (\<lambda>buf. expect_ok (decode_method_name L (buf @ tl2)) P) \<longleftrightarrow> P (name, tl2)"
    by (simp add: eq ok)
  show "expect_ok (encode_method_name L name []) (\<lambda>buf. expect_ok (decode_method_name L buf) Q) \<longleftrightarrow> Q (name, [])"
    using ok [of "[]"] by (simp add: eq)
qed

lemma read_byte: "n < 128 \<Longrightarrow> leb_read L (word_of_nat n # rest) = Inr (word_of_nat n, 1)"
  using read_uleb [of "word_of_nat n" rest] by (simp add: uleb_small unat_of_nat)

lemma method_name_tests:
  "test_method_name_roundtrip L" "test_method_name_with_payload_after L"
  "test_rejects_truncated_buffer L" "test_rejects_invalid_utf8 L" "test_decode_rejects_oversized_method_name L"
  "test_decode_accepts_method_name_at_max_len L"
proof -
  have "rust_str ''tolki:chat@1.0.0/chat/send-message''" "rust_str ''tolki:schema@1.0.0/schema/get''" by code_simp+
  then show "test_method_name_roundtrip L" "test_method_name_with_payload_after L"
    by (simp_all add: test_method_name_roundtrip_def test_method_name_with_payload_after_def encoded_name MAX_METHOD_NAME_LEN_def)
  show "test_rejects_truncated_buffer L"
    using read_byte [of 16 "[]"]
    by (simp add: test_rejects_truncated_buffer_def decode_method_name_def usize_try_from_def
        checked_add_usize_def MAX_METHOD_NAME_LEN_def)
  have "from_utf8 [0xFF, 0xFE] = Inl \<lparr>valid_up_to = 0, error_len = Some 1\<rparr>" by code_simp
  then show "test_rejects_invalid_utf8 L"
    using read_byte [of 2 "[0xFF, 0xFE]"]
    by (simp add: test_rejects_invalid_utf8_def decode_method_name_def usize_try_from_def
        checked_add_usize_def MAX_METHOD_NAME_LEN_def)
  have "decode_method_name L (uleb 5000 @ []) = Inl (MalformedFrame (''method-name length '' @ show_nat 5000 @
      '' exceeds maximum '' @ show_nat 4096))"
    by (rule decode_method_name_oversize) (simp_all add: MAX_METHOD_NAME_LEN_def)
  moreover have "str_contains (''method-name length '' @ show_nat 5000 @ '' exceeds maximum '' @ show_nat 4096) ''5000''"
    "str_contains (''method-name length '' @ show_nat 5000 @ '' exceeds maximum '' @ show_nat 4096) ''4096''"
    unfolding shown_numbers by code_simp+
  ultimately show "test_decode_rejects_oversized_method_name L"
    by (simp add: test_decode_rejects_oversized_method_name_def write_uleb)
  have "rust_str (replicate MAX_METHOD_NAME_LEN (CHR ''a''))" by (rule rust_str_ascii) (simp add: in_set_replicate char_a)
  then show "test_decode_accepts_method_name_at_max_len L"
    by (simp add: test_decode_accepts_method_name_at_max_len_def encoded_name)
qed

lemma stream_id_tests:
  "test_stream_id_roundtrip_small L" "test_stream_id_roundtrip_large L" "test_stream_id_with_payload_after L"
  "test_stream_id_decode_rejects_empty_buffer L" "test_stream_id_decode_rejects_truncated_varint L"
  "test_stream_id_zero_roundtrip L"
proof -
  note read = decode_stream_id_ok
  show "test_stream_id_roundtrip_small L" "test_stream_id_zero_roundtrip L"
    using read [of 42 "[]"] read [of 0 "[]"]
    by (simp_all add: test_stream_id_roundtrip_small_def test_stream_id_zero_roundtrip_def encode_stream_id_eq uleb_small)
  show "test_stream_id_roundtrip_large L" "test_stream_id_with_payload_after L"
    using read [of "0xFFFFFFFF" "[]"] read [of 7 "str_bytes ''PAYLOAD''"]
    by (simp_all add: test_stream_id_roundtrip_large_def test_stream_id_with_payload_after_def encode_stream_id_eq)
  show "test_stream_id_decode_rejects_empty_buffer L" "test_stream_id_decode_rejects_truncated_varint L"
    using read_nil read_open [where bs = "[0x80]"]
    by (auto simp: test_stream_id_decode_rejects_empty_buffer_def test_stream_id_decode_rejects_truncated_varint_def
        decode_stream_id_def)
qed

end

lemma opcode_tests: "test_opcodes_have_expected_values"
  by code_simp

subsection \<open>error.rs\<close>

text \<open>The quoting \<open>dbg\<close> of one string is a parameter; a test that displays strings holds for all of them.\<close>

definition test_unknown_method_displays_name :: "(string \<Rightarrow> string) \<Rightarrow> bool" where
  "test_unknown_method_displays_name dbg =
     str_contains (rpc_display dbg (UnknownMethod ''foo:bar@1.0.0/iface/m'')) ''foo:bar@1.0.0/iface/m''"

definition test_version_mismatch_displays_both :: "(string \<Rightarrow> string) \<Rightarrow> bool" where
  "test_version_mismatch_displays_both dbg =
     (let s = rpc_display dbg (VersionMismatch ''2.0.0'' [''1.0.0'', ''1.1.0''])
      in str_contains s ''2.0.0'' \<and> str_contains s ''1.0.0'')"

definition test_codec_error_wraps_postcard :: "'a postcard \<Rightarrow> bool" where
  "test_codec_error_wraps_postcard P =
     expect_err (codec_decode P []) (\<lambda>err. case err of Codec _ \<Rightarrow> True | _ \<Rightarrow> False)"

definition test_transport_open_substream_displays_node_and_reason :: "(string \<Rightarrow> string) \<Rightarrow> bool" where
  "test_transport_open_substream_displays_node_and_reason dbg =
     (let s = rpc_display dbg (TransportOpenSubstream ''abc-deadbeef'' ''handshake timeout'')
      in str_contains s ''abc-deadbeef'' \<and> str_contains s ''handshake timeout'')"

definition test_transport_register_alpn_displays_alpn :: "(string \<Rightarrow> string) \<Rightarrow> bool" where
  "test_transport_register_alpn_displays_alpn dbg =
     (let s = rpc_display dbg (TransportRegisterAlpn ''nerw/rpc/1.0.0'' ''not preregistered'')
      in str_contains s ''nerw/rpc/1.0.0'' \<and> str_contains s ''not preregistered'')"

definition test_datagram_stream_id_collision_displays_id :: "(string \<Rightarrow> string) \<Rightarrow> bool" where
  "test_datagram_stream_id_collision_displays_id dbg =
     (let s = rpc_display dbg (DatagramStreamIdCollision 42)
      in str_contains s ''42'' \<and> str_contains s ''already registered'')"

definition test_datagram_stream_id_unknown_displays_id :: "(string \<Rightarrow> string) \<Rightarrow> bool" where
  "test_datagram_stream_id_unknown_displays_id dbg =
     (let s = rpc_display dbg (DatagramStreamIdUnknown 7)
      in str_contains s ''7'' \<and> str_contains s ''not registered'')"

definition test_datagram_stream_id_collision_supports_large_ids :: "(string \<Rightarrow> string) \<Rightarrow> bool" where
  "test_datagram_stream_id_collision_supports_large_ids dbg =
     str_contains (rpc_display dbg (DatagramStreamIdCollision 1000000)) ''1000000''"

definition test_datagram_too_short_displays_len :: "(string \<Rightarrow> string) \<Rightarrow> bool" where
  "test_datagram_too_short_displays_len dbg =
     (let s = rpc_display dbg (DatagramTooShort 0) in str_contains s ''0'' \<and> str_contains s ''too short'')"

definition test_already_serving_displays_actionable_message :: "(string \<Rightarrow> string) \<Rightarrow> bool" where
  "test_already_serving_displays_actionable_message dbg =
     (let s = rpc_display dbg AlreadyServing in str_contains s ''serve'' \<and> str_contains s ''accept loop'')"

lemma error_display_tests:
  "test_unknown_method_displays_name dbg"
  "test_transport_open_substream_displays_node_and_reason dbg"
  "test_transport_register_alpn_displays_alpn dbg"
  "test_datagram_stream_id_collision_displays_id dbg"
  "test_datagram_stream_id_unknown_displays_id dbg"
  "test_datagram_stream_id_collision_supports_large_ids dbg"
  "test_datagram_too_short_displays_len dbg"
  "test_already_serving_displays_actionable_message dbg"
  by (simp_all add: test_unknown_method_displays_name_def test_transport_open_substream_displays_node_and_reason_def
      test_transport_register_alpn_displays_alpn_def test_datagram_stream_id_collision_displays_id_def
      test_datagram_stream_id_unknown_displays_id_def test_datagram_stream_id_collision_supports_large_ids_def
      test_datagram_too_short_displays_len_def test_already_serving_displays_actionable_message_def
      shown_numbers strip_prefix_def)

text \<open>The requested version stands unquoted in the text, the available ones as \<open>dbg\<close> quotes them.\<close>

lemma version_mismatch_displays_both_test: "test_version_mismatch_displays_both (\<lambda>s. [CHR 0x22] @ s @ [CHR 0x22])"
  by code_simp

lemma codec_error_test: "test_codec_error_wraps_postcard (postcard_of fmt_u64)"
  by code_simp

subsection \<open>wire_error.rs\<close>

definition test_unknown_method_roundtrip_via_postcard :: bool where
  "test_unknown_method_roundtrip_via_postcard =
     (let original = WireUnknownMethod ''tolki:nope@1.0.0/iface/method'' in
      expect_ok (pc_to_vec pc_wire_error_ref original) (\<lambda>bs. hd bs = WIRE_ERROR_UNKNOWN_METHOD \<and>
        expect_ok (pc_from_bytes pc_wire_error_ref bs) (\<lambda>decoded. decoded = original)))"

definition test_version_mismatch_preserves_metadata :: bool where
  "test_version_mismatch_preserves_metadata =
     expect_ok (pc_to_vec pc_wire_error_ref (WireVersionMismatch ''2.0.0'' [''1.0.0'', ''1.1.0'']))
       (\<lambda>bs. hd bs = WIRE_ERROR_VERSION_MISMATCH \<and>
         expect_ok (pc_from_bytes pc_wire_error_ref bs) (\<lambda>decoded.
           case decoded of
             WireVersionMismatch requested available \<Rightarrow> requested = ''2.0.0'' \<and> available = [''1.0.0'', ''1.1.0'']
           | _ \<Rightarrow> False))"

definition test_invalid_method_name_roundtrip :: bool where
  "test_invalid_method_name_roundtrip =
     (let original = WireInvalidMethodName ''not-a-valid-name'' in
      expect_ok (pc_to_vec pc_wire_error_ref original) (\<lambda>bs. hd bs = WIRE_ERROR_INVALID_METHOD_NAME \<and>
        expect_ok (pc_from_bytes pc_wire_error_ref bs) (\<lambda>decoded. decoded = original)))"

definition test_malformed_frame_roundtrip :: bool where
  "test_malformed_frame_roundtrip =
     (let original = WireMalformedFrame ''truncated buffer'' in
      expect_ok (pc_to_vec pc_wire_error_ref original) (\<lambda>bs. hd bs = WIRE_ERROR_MALFORMED_FRAME \<and>
        expect_ok (pc_from_bytes pc_wire_error_ref bs) (\<lambda>decoded. decoded = original)))"

definition test_handler_error_roundtrip :: bool where
  "test_handler_error_roundtrip =
     (let original = WireHandlerError ''domain error: invalid input'' in
      expect_ok (pc_to_vec pc_wire_error_ref original) (\<lambda>bs. hd bs = WIRE_ERROR_HANDLER_ERROR \<and>
        expect_ok (pc_from_bytes pc_wire_error_ref bs) (\<lambda>decoded. decoded = original)))"

definition test_from_rpc_error_preserves_unknown_method :: "(string \<Rightarrow> string) \<Rightarrow> bool" where
  "test_from_rpc_error_preserves_unknown_method dbg =
     (case from_rpc_error dbg (UnknownMethod ''test:foo@1.0.0/i/m'') of
        WireUnknownMethod method_name \<Rightarrow> method_name = ''test:foo@1.0.0/i/m''
      | _ \<Rightarrow> False)"

definition test_from_rpc_error_preserves_version_mismatch :: "(string \<Rightarrow> string) \<Rightarrow> bool" where
  "test_from_rpc_error_preserves_version_mismatch dbg =
     (case from_rpc_error dbg (VersionMismatch ''9.9.9'' [''1.0.0'']) of
        WireVersionMismatch requested available \<Rightarrow> requested = ''9.9.9'' \<and> available = [''1.0.0'']
      | _ \<Rightarrow> False)"

definition test_into_rpc_error_preserves_unknown_method :: bool where
  "test_into_rpc_error_preserves_unknown_method =
     (case into_rpc_error (WireUnknownMethod ''x:y@1.0.0/i/m'') of
        UnknownMethod name \<Rightarrow> name = ''x:y@1.0.0/i/m''
      | _ \<Rightarrow> False)"

definition test_into_rpc_error_preserves_version_mismatch :: bool where
  "test_into_rpc_error_preserves_version_mismatch =
     (case into_rpc_error (WireVersionMismatch ''9.9.9'' [''1.0.0'']) of
        VersionMismatch requested available \<Rightarrow> requested = ''9.9.9'' \<and> available = [''1.0.0'']
      | _ \<Rightarrow> False)"

definition test_handler_error_collapses_transport_errors :: "(string \<Rightarrow> string) \<Rightarrow> bool" where
  "test_handler_error_collapses_transport_errors dbg =
     (case from_rpc_error dbg (TransportRead ''io closed'') of
        WireHandlerError display \<Rightarrow> str_contains display ''io closed''
      | _ \<Rightarrow> False)"

definition test_handler_error_no_doubled_prefix :: "(string \<Rightarrow> string) \<Rightarrow> bool" where
  "test_handler_error_no_doubled_prefix dbg =
     (let wire_msg = rpc_display dbg (Handler ''domain failure'');
          client_err = into_rpc_error (WireHandlerError wire_msg);
          client_display = rpc_display dbg client_err
      in wire_msg = ''handler error: domain failure'' \<and>
         str_matches client_display ''handler error:'' = 1 \<and>
         client_display = ''handler error: domain failure'')"

definition test_handler_error_preserves_payload_without_prefix :: "(string \<Rightarrow> string) \<Rightarrow> bool" where
  "test_handler_error_preserves_payload_without_prefix dbg =
     (rpc_display dbg (into_rpc_error (WireHandlerError ''raw inner failure'')) = ''handler error: raw inner failure'')"

text \<open>The Russian method name of the test, as its UTF-8 bytes.\<close>

definition russian_name :: string where
  "russian_name = map char_of_byte
      [0xD0, 0xBD, 0xD0, 0xB5, 0xD0, 0xB8, 0xD0, 0xB7, 0xD0, 0xB2, 0xD0, 0xB5, 0xD1, 0x81, 0xD1, 0x82,
       0xD0, 0xBD, 0xD1, 0x8B, 0xD0, 0xB9, 0x3A, 0xD0, 0xBC, 0xD0, 0xB5, 0xD1, 0x82, 0xD0, 0xBE, 0xD0,
       0xB4, 0x40, 0x31, 0x2E, 0x30, 0x2E, 0x30, 0x2F, 0xD0, 0xB8, 0xD1, 0x84, 0x2F, 0xD0, 0xBC]"

definition test_locale_invariance_round_trip :: "(string \<Rightarrow> string) \<Rightarrow> bool" where
  "test_locale_invariance_round_trip dbg =
     expect_ok (pc_to_vec pc_wire_error_ref (from_rpc_error dbg (UnknownMethod russian_name))) (\<lambda>bs.
       hd bs = WIRE_ERROR_UNKNOWN_METHOD \<and>
       expect_ok (pc_from_bytes pc_wire_error_ref bs) (\<lambda>decoded.
         case into_rpc_error decoded of UnknownMethod name \<Rightarrow> name = russian_name | _ \<Rightarrow> False))"

context postcard_codec begin
text \<open>What a serialisation that succeeded is read back as.\<close>

lemma serialized:
  assumes "pc_to_vec P x = Inr bs"
  shows "expect_ok (pc_to_vec P x) (\<lambda>bs. expect_ok (pc_from_bytes P bs) R) \<longleftrightarrow> R x"
    "expect_ok (pc_to_vec P x) (\<lambda>bs. Q bs \<and> expect_ok (pc_from_bytes P bs) R) \<longleftrightarrow> Q bs \<and> R x"
  by (simp_all add: assms from_ser [OF assms])
end

lemmas fmt_defs = postcard_of_def fmt_map_def fmt_pair_def fmt_str_def fmt_bytes_def fmt_u64_def fmt_enum_def fmt_unit_def
  fmt_bool_def fmt_nat_def uleb_small

lemma names_are_str: "rust_str ''nerw:test@1.0.0/echo/loop''" "rust_str ''not found''" "rust_str ''boom''" "rust_str russian_name"
  by code_simp+

lemma body_bytes:
  "pc_to_vec (postcard_of fmt_open_request) \<lparr>oreq_method_name = ''nerw:test@1.0.0/echo/loop'', oreq_request_id = 42\<rparr> =
    Inr (25 # str_bytes ''nerw:test@1.0.0/echo/loop'' @ [42])"
  "pc_to_vec (postcard_of fmt_open_response) \<lparr>oresp_status = StatusOk, oresp_request_id = 7\<rparr> = Inr [0, 7]"
  "pc_to_vec (postcard_of fmt_open_response) \<lparr>oresp_status = StatusErr ''not found'', oresp_request_id = 7\<rparr> =
    Inr ([1, 9] @ str_bytes ''not found'' @ [7])"
  "pc_to_vec (postcard_of fmt_streaming_error) \<lparr>se_message = ''boom'', se_terminal = True\<rparr> = Inr (4 # str_bytes ''boom'' @ [1])"
  "pc_to_vec pc_wire_error_ref (WireUnknownMethod russian_name) = Inr (0 # 47 # str_bytes russian_name)"
proof -
  have "length russian_name = 47" by (simp add: russian_name_def)
  note this [simp]
  show
  "pc_to_vec (postcard_of fmt_open_request) \<lparr>oreq_method_name = ''nerw:test@1.0.0/echo/loop'', oreq_request_id = 42\<rparr> =
    Inr (25 # str_bytes ''nerw:test@1.0.0/echo/loop'' @ [42])"
  "pc_to_vec (postcard_of fmt_open_response) \<lparr>oresp_status = StatusOk, oresp_request_id = 7\<rparr> = Inr [0, 7]"
  "pc_to_vec (postcard_of fmt_open_response) \<lparr>oresp_status = StatusErr ''not found'', oresp_request_id = 7\<rparr> =
    Inr ([1, 9] @ str_bytes ''not found'' @ [7])"
  "pc_to_vec (postcard_of fmt_streaming_error) \<lparr>se_message = ''boom'', se_terminal = True\<rparr> = Inr (4 # str_bytes ''boom'' @ [1])"
  "pc_to_vec pc_wire_error_ref (WireUnknownMethod russian_name) = Inr (0 # 47 # str_bytes russian_name)"
  by (simp_all add: fmt_defs names_are_str fmt_open_request_def fmt_open_response_def fmt_open_status_def fmt_streaming_error_def
     pc_wire_error_ref_def fmt_wire_error_def)
qed

lemma wire_error_postcard_tests:
  "test_unknown_method_roundtrip_via_postcard"
  "test_version_mismatch_preserves_metadata"
  "test_invalid_method_name_roundtrip"
  "test_malformed_frame_roundtrip"
  "test_handler_error_roundtrip"
proof -
  show "test_unknown_method_roundtrip_via_postcard" by code_simp
  show "test_version_mismatch_preserves_metadata" by code_simp
  show "test_invalid_method_name_roundtrip" by code_simp
  show "test_malformed_frame_roundtrip" by code_simp
  show "test_handler_error_roundtrip" by code_simp
qed

lemma locale_invariance_test: "test_locale_invariance_round_trip dbg"
  by (simp add: test_locale_invariance_round_trip_def body_bytes pwe.from_ser [OF body_bytes(5)] wire_error_const_defs)

lemma wire_error_mapping_tests:
  "test_from_rpc_error_preserves_unknown_method dbg"
  "test_from_rpc_error_preserves_version_mismatch dbg"
  "test_into_rpc_error_preserves_unknown_method"
  "test_into_rpc_error_preserves_version_mismatch"
  "test_handler_error_collapses_transport_errors dbg"
  "test_handler_error_no_doubled_prefix dbg"
  "test_handler_error_preserves_payload_without_prefix dbg"
proof -
  show "test_from_rpc_error_preserves_unknown_method dbg" by code_simp
  show "test_from_rpc_error_preserves_version_mismatch dbg" by code_simp
  show "test_into_rpc_error_preserves_unknown_method" by code_simp
  show "test_into_rpc_error_preserves_version_mismatch" by code_simp
  show "test_handler_error_collapses_transport_errors dbg" by code_simp
  show "test_handler_error_no_doubled_prefix dbg" by code_simp
  show "test_handler_error_preserves_payload_without_prefix dbg" by code_simp
qed

subsection \<open>codec.rs\<close>

record codec_sample =
  sample_a :: u32
  sample_b :: string
  sample_c :: bytes

definition fmt_codec_sample :: "codec_sample fmt" where
  "fmt_codec_sample = fmt_map (\<lambda>(a, b, c). \<lparr>sample_a = a, sample_b = b, sample_c = c\<rparr>)
     (\<lambda>s. (sample_a s, sample_b s, sample_c s)) (fmt_pair fmt_u32 (fmt_pair fmt_str fmt_bytes))"

definition test_roundtrip_postcard :: "codec_sample postcard \<Rightarrow> bool" where
  "test_roundtrip_postcard P =
     (let original = \<lparr>sample_a = 42, sample_b = ''hello'', sample_c = [1, 2, 3]\<rparr> in
      expect_ok (codec_encode P original) (\<lambda>bs. expect_ok (codec_decode P bs) (\<lambda>decoded. original = decoded)))"

definition test_encode_to_appends :: "codec_sample postcard \<Rightarrow> bool" where
  "test_encode_to_appends P =
     (let v = \<lparr>sample_a = 7, sample_b = ''x'', sample_c = []\<rparr> in
      expect_ok (encode_to P v [0xFF, 0xFE]) (\<lambda>buf. take 2 buf = [0xFF, 0xFE] \<and>
        expect_ok (codec_decode P (drop 2 buf)) (\<lambda>decoded. decoded = v)))"

definition test_decode_truncated_fails :: "codec_sample postcard \<Rightarrow> bool" where
  "test_decode_truncated_fails P =
     expect_err (codec_decode P []) (\<lambda>err. case err of Codec _ \<Rightarrow> True | _ \<Rightarrow> False)"

lemma codec_tests:
  "test_roundtrip_postcard (postcard_of fmt_codec_sample)"
  "test_encode_to_appends (postcard_of fmt_codec_sample)"
  "test_decode_truncated_fails (postcard_of fmt_codec_sample)"
proof -
  show "test_roundtrip_postcard (postcard_of fmt_codec_sample)" by code_simp
  show "test_encode_to_appends (postcard_of fmt_codec_sample)" by code_simp
  show "test_decode_truncated_fails (postcard_of fmt_codec_sample)" by code_simp
qed

subsection \<open>streaming.rs\<close>

definition test_open_request_roundtrips_via_postcard :: "streaming_open_request postcard \<Rightarrow> bool" where
  "test_open_request_roundtrips_via_postcard P =
     (let req = \<lparr>oreq_method_name = ''nerw:test@1.0.0/echo/loop'', oreq_request_id = 42\<rparr> in
      expect_ok (pc_to_vec P req) (\<lambda>bs. expect_ok (pc_from_bytes P bs) (\<lambda>back. back = req)))"

definition test_open_response_ok_roundtrip :: "streaming_open_response postcard \<Rightarrow> bool" where
  "test_open_response_ok_roundtrip P =
     (let resp = \<lparr>oresp_status = StatusOk, oresp_request_id = 7\<rparr> in
      expect_ok (pc_to_vec P resp) (\<lambda>bs. expect_ok (pc_from_bytes P bs) (\<lambda>back. back = resp)))"

definition test_open_response_err_roundtrip :: "streaming_open_response postcard \<Rightarrow> bool" where
  "test_open_response_err_roundtrip P =
     (let resp = \<lparr>oresp_status = StatusErr ''not found'', oresp_request_id = 7\<rparr> in
      expect_ok (pc_to_vec P resp) (\<lambda>bs. expect_ok (pc_from_bytes P bs) (\<lambda>back. back = resp)))"

definition test_streaming_error_roundtrip :: "streaming_error postcard \<Rightarrow> bool" where
  "test_streaming_error_roundtrip P =
     (let err = \<lparr>se_message = ''boom'', se_terminal = True\<rparr> in
      expect_ok (pc_to_vec P err) (\<lambda>bs. expect_ok (pc_from_bytes P bs) (\<lambda>back. back = err)))"

definition test_handler_err_to_terminal_preserves_display :: "(string \<Rightarrow> string) \<Rightarrow> bool" where
  "test_handler_err_to_terminal_preserves_display dbg =
     (let wire = handler_err_to_terminal dbg (Handler ''simulated boom'')
      in se_terminal wire \<and> str_contains (se_message wire) ''simulated boom'')"

lemma streaming_tests:
  "test_open_request_roundtrips_via_postcard (postcard_of fmt_open_request)"
  "test_open_response_ok_roundtrip (postcard_of fmt_open_response)"
  "test_open_response_err_roundtrip (postcard_of fmt_open_response)"
  "test_streaming_error_roundtrip (postcard_of fmt_streaming_error)"
  by (simp_all only: test_open_request_roundtrips_via_postcard_def test_open_response_ok_roundtrip_def test_open_response_err_roundtrip_def
   test_streaming_error_roundtrip_def Let_def poreq.serialized [OF body_bytes(1)] poresp.serialized [OF body_bytes(2)]
   poresp.serialized [OF body_bytes(3)] pserr.serialized [OF body_bytes(4)])

lemma handler_err_to_terminal_test: "test_handler_err_to_terminal_preserves_display dbg"
  by code_simp

subsection \<open>transport.rs\<close>

definition test_nerw_rpc_alpns_covers_every_advertised_constant :: bool where
  "test_nerw_rpc_alpns_covers_every_advertised_constant \<longleftrightarrow>
     ALPN_NERW_RPC_1_0_0 \<in> set NERW_RPC_ALPNS \<and> ALPN_NERW_DATAGRAM_1_0_0 \<in> set NERW_RPC_ALPNS \<and>
     ALPN_NERW_MESH_1_0_0 \<in> set NERW_RPC_ALPNS \<and> ALPN_NERW_TRANSIT_1_0_0 \<in> set NERW_RPC_ALPNS \<and>
     length NERW_RPC_ALPNS = 4"

definition test_alpn_constants_have_expected_byte_strings :: bool where
  "test_alpn_constants_have_expected_byte_strings \<longleftrightarrow>
     ALPN_NERW_RPC_1_0_0 = str_bytes ''nerw/rpc/1.0.0'' \<and>
     ALPN_NERW_DATAGRAM_1_0_0 = str_bytes ''nerw/datagram/1.0.0'' \<and>
     ALPN_NERW_MESH_1_0_0 = str_bytes ''nerw/mesh/1.0.0'' \<and>
     ALPN_NERW_TRANSIT_1_0_0 = str_bytes ''nerw/transit/1.0.0''"

lemma alpn_tests: "test_nerw_rpc_alpns_covers_every_advertised_constant" "test_alpn_constants_have_expected_byte_strings"
  by code_simp+

end
