(* ===== verification/Test_Method.thy ===== *)
theory Test_Method
  imports Method Schema Context Test_Wire
begin

section \<open>The unit tests of names, registry, context and schema\<close>

text \<open>
  The unit tests that stand in \<^verbatim>\<open>method.rs\<close>, \<^verbatim>\<open>context.rs\<close> and \<^verbatim>\<open>schema.rs\<close>, as executable
  predicates, in the manner of the theory \<open>Test_Wire\<close>. The tests only look at which table a name is
  found in, so the handler objects \<^verbatim>\<open>EchoHandler\<close> and \<^verbatim>\<open>StreamingNoop\<close> are the unit value here;
  where a test runs the handler, its body is applied. A test that expects a panic asks for the panic's text.
  Random ids and the node id of the loopback peer are parameters.
\<close>

type_synonym test_registry = "(unit, unit) method_registry"

definition is_some :: "'a option \<Rightarrow> bool" where
  "is_some x \<longleftrightarrow> x \<noteq> None"

text \<open>\<^verbatim>\<open>#[should_panic(expected = ...)]\<close>: the message of the panic contains the text.\<close>

definition should_panic :: "string \<Rightarrow> string + 'a \<Rightarrow> bool" where
  "should_panic expected res = expect_err res (\<lambda>msg. str_contains msg expected)"

definition echo_handler :: "rpc_context \<Rightarrow> bytes \<Rightarrow> bytes rpc_result" where
  "echo_handler ctx request = Inr request"

subsection \<open>method.rs: names\<close>

definition test_parse_pinned_method_name :: bool where
  "test_parse_pinned_method_name \<longleftrightarrow>
     (case parse_method_name ''tolki:chat@1.0.0/chat/send-message'' of
        None \<Rightarrow> False
      | Some n \<Rightarrow> mn_package n = ''tolki:chat'' \<and> mn_version n = Some ''1.0.0'' \<and>
          mn_interface n = ''chat'' \<and> mn_method n = ''send-message'')"

definition test_parse_unpinned_method_name :: bool where
  "test_parse_unpinned_method_name \<longleftrightarrow>
     (case parse_method_name ''tolki:chat/chat/send-message'' of
        None \<Rightarrow> False
      | Some n \<Rightarrow> mn_package n = ''tolki:chat'' \<and> mn_version n = None \<and>
          mn_interface n = ''chat'' \<and> mn_method n = ''send-message'')"

definition test_parse_rejects_malformed :: bool where
  "test_parse_rejects_malformed \<longleftrightarrow>
     parse_method_name '''' = None \<and>
     parse_method_name ''tolki:chat'' = None \<and>
     parse_method_name ''tolki:chat/chat'' = None \<and>
     parse_method_name ''@1.0.0/chat/send-message'' = None \<and>
     parse_method_name ''tolki:chat@/chat/send-message'' = None \<and>
     parse_method_name ''tolki:chat//send-message'' = None \<and>
     parse_method_name ''tolki:chat/chat/'' = None"

definition test_canonical_roundtrip_pinned :: bool where
  "test_canonical_roundtrip_pinned \<longleftrightarrow>
     (let canon = ''tolki:chat@1.0.0/chat/send-message'' in
      case parse_method_name canon of None \<Rightarrow> False | Some parsed \<Rightarrow> to_canonical parsed = canon)"

definition test_canonical_roundtrip_unpinned :: bool where
  "test_canonical_roundtrip_unpinned \<longleftrightarrow>
     (let canon = ''tolki:chat/chat/send-message'' in
      case parse_method_name canon of None \<Rightarrow> False | Some parsed \<Rightarrow> to_canonical parsed = canon)"

lemma name_tests:
  "test_parse_pinned_method_name" "test_parse_unpinned_method_name" "test_parse_rejects_malformed"
  "test_canonical_roundtrip_pinned" "test_canonical_roundtrip_unpinned"
  by code_simp+

subsection \<open>method.rs: the registry\<close>

definition test_registry_exact_lookup :: bool where
  "test_registry_exact_lookup \<longleftrightarrow>
     expect_ok (register ''tolki:chat@1.0.0/chat/send-message'' () (registry_new :: test_registry)) (\<lambda>reg.
       registry_len reg = 1 \<and> \<not> registry_is_empty reg \<and>
       is_some (lookup reg ''tolki:chat@1.0.0/chat/send-message''))"

definition test_registry_version_resolution_picks_max :: bool where
  "test_registry_version_resolution_picks_max \<longleftrightarrow>
     expect_ok (register ''tolki:chat@1.0.0/chat/send-message'' () (registry_new :: test_registry)) (\<lambda>reg.
       expect_ok (register ''tolki:chat@1.1.0/chat/send-message'' () reg) (\<lambda>reg.
         is_some (lookup reg ''tolki:chat/chat/send-message'')))"

definition test_registry_pinned_miss_no_fallback :: bool where
  "test_registry_pinned_miss_no_fallback \<longleftrightarrow>
     expect_ok (register ''tolki:chat@1.0.0/chat/send-message'' () (registry_new :: test_registry)) (\<lambda>reg.
       \<not> is_some (lookup reg ''tolki:chat@2.0.0/chat/send-message''))"

definition test_registry_lookup_unknown :: bool where
  "test_registry_lookup_unknown \<longleftrightarrow>
     (let reg = (registry_new :: test_registry)
      in \<not> is_some (lookup reg ''nope:nope@1.0.0/x/y'') \<and> registry_is_empty reg)"

definition test_handler_invocation_roundtrip :: "uuid \<times> uuid \<Rightarrow> node_id \<Rightarrow> bool" where
  "test_handler_invocation_roundtrip ids loopback_node_id =
     (let ctx = rpc_context_minimal ids (peer_loopback loopback_node_id)
      in expect_ok (echo_handler ctx (str_bytes ''hello'')) (\<lambda>out. out = str_bytes ''hello''))"

definition test_registry_register_without_version_panics :: bool where
  "test_registry_register_without_version_panics \<longleftrightarrow>
     should_panic ''registered handlers must include version''
       (register ''tolki:chat/chat/send-message'' () (registry_new :: test_registry))"

definition test_registry_register_malformed_panics :: bool where
  "test_registry_register_malformed_panics \<longleftrightarrow>
     should_panic ''invalid method name'' (register ''not-a-valid-name'' () (registry_new :: test_registry))"

definition test_registry_streaming_exact_lookup :: bool where
  "test_registry_streaming_exact_lookup \<longleftrightarrow>
     expect_ok (register_streaming ''nerw:test@1.0.0/echo/loop'' () (registry_new :: test_registry)) (\<lambda>reg.
       registry_len reg = 1 \<and>
       is_some (lookup_streaming reg ''nerw:test@1.0.0/echo/loop'') \<and>
       \<not> is_some (lookup reg ''nerw:test@1.0.0/echo/loop''))"

definition test_registry_unary_lookup_skips_streaming_entry :: bool where
  "test_registry_unary_lookup_skips_streaming_entry \<longleftrightarrow>
     expect_ok (register_streaming ''nerw:test@1.0.0/echo/loop'' () (registry_new :: test_registry)) (\<lambda>reg.
       \<not> is_some (lookup reg ''nerw:test/echo/loop'') \<and>
       is_some (lookup_streaming reg ''nerw:test/echo/loop''))"

definition test_registry_unary_and_streaming_coexist_under_distinct_names :: bool where
  "test_registry_unary_and_streaming_coexist_under_distinct_names \<longleftrightarrow>
     expect_ok (register ''nerw:test@1.0.0/chat/echo'' () (registry_new :: test_registry)) (\<lambda>reg.
       expect_ok (register_streaming ''nerw:test@1.0.0/echo/loop'' () reg) (\<lambda>reg.
         registry_len reg = 2 \<and>
         is_some (lookup reg ''nerw:test@1.0.0/chat/echo'') \<and>
         is_some (lookup_streaming reg ''nerw:test@1.0.0/echo/loop'') \<and>
         \<not> is_some (lookup_streaming reg ''nerw:test@1.0.0/chat/echo'') \<and>
         \<not> is_some (lookup reg ''nerw:test@1.0.0/echo/loop'')))"

definition test_registry_register_streaming_without_version_panics :: bool where
  "test_registry_register_streaming_without_version_panics \<longleftrightarrow>
     should_panic ''registered handlers must include version''
       (register_streaming ''nerw:test/echo/loop'' () (registry_new :: test_registry))"

lemma registry_lookup_tests:
  "test_registry_exact_lookup" "test_registry_version_resolution_picks_max" "test_registry_pinned_miss_no_fallback"
  "test_registry_lookup_unknown" "test_registry_streaming_exact_lookup"
  "test_registry_unary_lookup_skips_streaming_entry" "test_registry_unary_and_streaming_coexist_under_distinct_names"
  by code_simp+

lemma registry_panic_tests:
  "test_registry_register_without_version_panics" "test_registry_register_malformed_panics"
  "test_registry_register_streaming_without_version_panics"
  by code_simp+

lemma handler_invocation_test: "test_handler_invocation_roundtrip ids loopback_node_id"
  by (simp add: test_handler_invocation_roundtrip_def echo_handler_def)

subsection \<open>context.rs\<close>

definition test_peer_metadata_loopback_has_alpn :: "node_id \<Rightarrow> bool" where
  "test_peer_metadata_loopback_has_alpn loopback_node_id =
     (let m = peer_loopback loopback_node_id
      in pm_alpn m = str_bytes ''nerw-rpc/1'' \<and> pm_node_id m = loopback_node_id)"

definition test_timing_zero_default :: bool where
  "test_timing_zero_default \<longleftrightarrow>
     (let t = timing_zero in ti_received_at_ms t = 0 \<and> ti_received_at_monotonic_ns t = 0)"

text \<open>
  These tests rely on \<^verbatim>\<open>Uuid::new_v4\<close> giving different non-zero ids; the predicates take the ids drawn.
\<close>

definition test_tracing_fresh_distinct_ids :: "uuid \<times> uuid \<Rightarrow> bool" where
  "test_tracing_fresh_distinct_ids ids =
     (let t = tracing_fresh ids
      in tr_trace_id t \<noteq> 0 \<and> tr_span_id t \<noteq> 0 \<and> tr_trace_id t \<noteq> tr_span_id t \<and>
         tr_parent_span_id t = None \<and> \<not> tr_sampled t)"

definition test_tracing_fresh_yields_distinct_ids_per_call :: "uuid \<times> uuid \<Rightarrow> uuid \<times> uuid \<Rightarrow> bool" where
  "test_tracing_fresh_yields_distinct_ids_per_call ids ids' =
     (let a = tracing_fresh ids; b = tracing_fresh ids'
      in tr_trace_id a \<noteq> tr_trace_id b \<and> tr_span_id a \<noteq> tr_span_id b)"

definition test_authenticated_has_scope :: "node_id \<Rightarrow> uuid \<Rightarrow> uuid \<Rightarrow> bool" where
  "test_authenticated_has_scope loopback_node_id user_id device_id =
     (let auth = \<lparr>ac_node_id = loopback_node_id, ac_master_pubkey = replicate 32 0, ac_user_id = user_id,
            ac_device_id = device_id, ac_scopes = [''chat:send'', ''profile:read''],
            ac_registered_at_ms = 0, ac_last_seen_at_ms = 0\<rparr>
      in has_scope auth ''chat:send'' \<and> has_scope auth ''profile:read'' \<and> \<not> has_scope auth ''admin'')"

definition test_rpc_context_minimal_anonymous :: "uuid \<times> uuid \<Rightarrow> node_id \<Rightarrow> bool" where
  "test_rpc_context_minimal_anonymous ids loopback_node_id =
     (let ctx = rpc_context_minimal ids (peer_loopback loopback_node_id)
      in ctx_auth ctx = None \<and> ctx_session ctx = None \<and> tr_trace_id (ctx_tracing ctx) \<noteq> 0)"

lemma context_tests:
  "test_peer_metadata_loopback_has_alpn loopback_node_id" "test_timing_zero_default"
  "test_authenticated_has_scope loopback_node_id user_id device_id"
  by (simp_all add: test_peer_metadata_loopback_has_alpn_def peer_loopback_def test_timing_zero_default_def
      timing_zero_def test_authenticated_has_scope_def has_scope_def)

text \<open>A test on drawn ids passes exactly when the draws are as it hopes.\<close>

lemma fresh_id_tests:
  "test_tracing_fresh_yields_distinct_ids_per_call (trace, span) (trace', span') \<longleftrightarrow> trace \<noteq> trace' \<and> span \<noteq> span'"
  "test_tracing_fresh_distinct_ids (trace, span) \<longleftrightarrow> trace \<noteq> 0 \<and> span \<noteq> 0 \<and> trace \<noteq> span"
  "test_rpc_context_minimal_anonymous (trace, span) loopback_node_id \<longleftrightarrow> trace \<noteq> 0"
  by (auto simp: test_tracing_fresh_yields_distinct_ids_per_call_def test_tracing_fresh_distinct_ids_def tracing_fresh_def test_rpc_context_minimal_anonymous_def
      rpc_context_minimal_def)

subsection \<open>schema.rs\<close>

text \<open>
  The weak pointer of \<^verbatim>\<open>Arc::new_cyclic\<close> reaches the finished registry, which is still held when the
  handler runs.
\<close>

definition test_schema_returns_registered_method_names ::
  "schema_response postcard \<Rightarrow> uuid \<times> uuid \<Rightarrow> node_id \<Rightarrow> bool" where
  "test_schema_returns_registered_method_names P ids loopback_node_id =
     expect_ok (register ''foo:app@1.0.0/iface/echo'' () (registry_new :: test_registry)) (\<lambda>reg.
       expect_ok (register ''bar:app@1.0.0/iface/echo'' () reg) (\<lambda>reg.
         expect_ok (register_schema_method reg ()) (\<lambda>registry.
           is_some (lookup registry METHOD_SCHEMA_GET) \<and>
           expect_ok (schema_handle P (Some registry) (rpc_context_minimal ids (peer_loopback loopback_node_id)) [])
             (\<lambda>out. expect_ok (pc_from_bytes P out) (\<lambda>decoded.
                length (sr_methods decoded) = 3 \<and>
                METHOD_SCHEMA_GET \<in> set (sr_methods decoded) \<and>
                ''foo:app@1.0.0/iface/echo'' \<in> set (sr_methods decoded) \<and>
                ''bar:app@1.0.0/iface/echo'' \<in> set (sr_methods decoded) \<and>
                sr_methods decoded = sort (sr_methods decoded))))))"

definition test_schema_response_roundtrips_via_postcard :: "schema_response postcard \<Rightarrow> bool" where
  "test_schema_response_roundtrips_via_postcard P =
     (let original = \<lparr>sr_methods = [''nerw:schema@1.0.0/schema/get'', ''nerw:supervisor@1.0.0/agents/list'']\<rparr> in
      expect_ok (pc_to_vec P original) (\<lambda>bs. expect_ok (pc_from_bytes P bs) (\<lambda>decoded. decoded = original)))"

definition test_method_name_constant_parses :: bool where
  "test_method_name_constant_parses \<longleftrightarrow>
     (case parse_method_name METHOD_SCHEMA_GET of
        None \<Rightarrow> False
      | Some parsed \<Rightarrow> mn_package parsed = ''nerw:schema'' \<and> mn_interface parsed = ''schema'' \<and>
          mn_method parsed = ''get'')"

lemma schema_response_test: "test_schema_response_roundtrips_via_postcard (postcard_of fmt_schema_response)"
  by code_simp

lemma schema_constant_test: "test_method_name_constant_parses"
  by code_simp

lemma schema_names_test: "test_schema_returns_registered_method_names (postcard_of fmt_schema_response) ids loopback_node_id"
  by code_simp

end
