(* ===== verification/Test_Transit.thy ===== *)
theory Test_Transit
  imports Transit Test_Wire
begin

section \<open>The unit tests of transit.rs\<close>

text \<open>
  The unit tests that stand in \<^verbatim>\<open>transit.rs\<close>, in the manner of the theory \<open>Test_Wire\<close>. A secret key is
  its 32 bytes. What the tests ask of Ed25519 is stated as hypotheses of their lemmas: a signature is 64 bytes,
  the keys of the test have different public keys, and the signature on the test's voucher verifies for
  nothing but the voucher's message. \<open>ed_test\<close> is a scheme with all of this.
\<close>

type_synonym ed_bytes = "bytes ed25519"

definition saturating_add_u64 :: "u64 \<Rightarrow> u64 \<Rightarrow> u64" where
  "saturating_add_u64 a b = (if 2 ^ 64 \<le> unat a + unat b then 0xFFFFFFFFFFFFFFFF else a + b)"

definition saturating_sub_u64 :: "u64 \<Rightarrow> u64 \<Rightarrow> u64" where
  "saturating_sub_u64 a b = (if a < b then 0 else a - b)"

definition relay_secret :: bytes where
  "relay_secret = replicate 32 1"

definition peer_secret :: bytes where
  "peer_secret = replicate 32 2"

definition make_voucher :: "ed_bytes \<Rightarrow> voucher" where
  "make_voucher E = voucher_sign E relay_secret (ed_public E peer_secret) 1700000600"

subsection \<open>Frame round trips\<close>

text \<open>The body every round-trip test has.\<close>

definition frame_roundtrip :: "transit_frame postcard \<Rightarrow> transit_frame \<Rightarrow> bool" where
  "frame_roundtrip P frame =
     expect_ok (encode_frame P frame) (\<lambda>wire. expect_ok (decode_frame P wire) (\<lambda>decoded. frame = decoded))"

definition test_hello_frame_roundtrip :: "transit_frame postcard \<Rightarrow> ed_bytes \<Rightarrow> bool" where
  "test_hello_frame_roundtrip P E = frame_roundtrip P (Hello (ed_public E peer_secret) capabilities_default)"

definition test_reserve_request_frame_roundtrip :: "transit_frame postcard \<Rightarrow> ed_bytes \<Rightarrow> bool" where
  "test_reserve_request_frame_roundtrip P E =
     frame_roundtrip P (ReserveRequest (ed_public E peer_secret) (replicate 64 9))"

definition test_reserve_response_granted_roundtrip :: "transit_frame postcard \<Rightarrow> ed_bytes \<Rightarrow> bool" where
  "test_reserve_response_granted_roundtrip P E =
     frame_roundtrip P (ReserveResponse (ReserveGranted (make_voucher E) limits_default))"

definition test_reserve_response_denied_roundtrip :: "transit_frame postcard \<Rightarrow> bool" where
  "test_reserve_response_denied_roundtrip P = frame_roundtrip P (ReserveResponse (ReserveDenied WhitelistRejected))"

definition test_connect_request_with_voucher_roundtrip :: "transit_frame postcard \<Rightarrow> ed_bytes \<Rightarrow> bool" where
  "test_connect_request_with_voucher_roundtrip P E =
     frame_roundtrip P (ConnectRequest (ed_public E peer_secret) (Some (make_voucher E)))"

definition test_connect_request_without_voucher_roundtrip :: "transit_frame postcard \<Rightarrow> ed_bytes \<Rightarrow> bool" where
  "test_connect_request_without_voucher_roundtrip P E =
     frame_roundtrip P (ConnectRequest (ed_public E peer_secret) None)"

definition test_connect_response_granted_roundtrip :: "transit_frame postcard \<Rightarrow> bool" where
  "test_connect_response_granted_roundtrip P = frame_roundtrip P (ConnectResponse ConnectGranted)"

definition test_connect_response_denied_target_not_found_roundtrip :: "transit_frame postcard \<Rightarrow> bool" where
  "test_connect_response_denied_target_not_found_roundtrip P =
     frame_roundtrip P (ConnectResponse (ConnectDenied TargetNotFound))"

definition test_bye_with_reason_roundtrip :: "transit_frame postcard \<Rightarrow> bool" where
  "test_bye_with_reason_roundtrip P = frame_roundtrip P (Bye (Some ''graceful shutdown''))"

definition test_bye_without_reason_roundtrip :: "transit_frame postcard \<Rightarrow> bool" where
  "test_bye_without_reason_roundtrip P = frame_roundtrip P (Bye None)"

text \<open>A frame the format can write is read back.\<close>

lemma frame_roundtripI:
  assumes "fst fmt_transit_frame frame = Some bs"
  shows "frame_roundtrip pc_frame_ref frame"
proof -
  from assms have "pc_to_vec pc_frame_ref frame = Inr bs" by (simp add: pc_frame_ref_def postcard_of_to_vec)
  with pfr.take_exact [OF this] show ?thesis by (simp add: frame_roundtrip_def encode_frame_def decode_frame_def)
qed

lemma frame_roundtrip_tests:
  "test_reserve_response_denied_roundtrip pc_frame_ref" "test_connect_response_granted_roundtrip pc_frame_ref"
  "test_connect_response_denied_target_not_found_roundtrip pc_frame_ref"
  "test_bye_with_reason_roundtrip pc_frame_ref" "test_bye_without_reason_roundtrip pc_frame_ref"
  by code_simp+

lemma make_voucher_simps:
  "v_relay_node_id (make_voucher E) = ed_public E relay_secret"
  "v_peer_node_id (make_voucher E) = ed_public E peer_secret"
  "v_expire_unix_secs (make_voucher E) = 1700000600"
  "v_signature (make_voucher E) = ed_sign E relay_secret (signing_bytes (make_voucher E))"
  by (simp_all add: make_voucher_def voucher_sign_def signing_bytes_def Let_def)

text \<open>The bytes of a voucher: two keys, the expiry as a varint, the signature.\<close>

lemma voucher_encodes:
  assumes "length (v_relay_node_id v) = 32" "length (v_peer_node_id v) = 32" "length (v_signature v) = 64"
  shows "fst fmt_voucher v = Some (v_relay_node_id v @ v_peer_node_id v @ uleb (unat (v_expire_unix_secs v)) @ v_signature v)"
  by (simp add: assms fmt_voucher_def fmt_map_def fmt_pair_def fmt_fixed_def fmt_u64_def)

lemma frame_with_key_tests:
  assumes "\<And>sk. length (ed_public E sk) = 32" "\<And>sk m. length (ed_sign E sk m) = 64"
  shows "test_hello_frame_roundtrip pc_frame_ref E" "test_reserve_request_frame_roundtrip pc_frame_ref E"
    "test_reserve_response_granted_roundtrip pc_frame_ref E"
    "test_connect_request_with_voucher_roundtrip pc_frame_ref E"
    "test_connect_request_without_voucher_roundtrip pc_frame_ref E"
proof -
  note fmts = fmt_transit_frame_def fmt_reserve_outcome_def fmt_option_def fmt_limits_def fmt_u32_def fmt_defs
    fmt_fixed_def capabilities_default_def limits_default_def
  have v: "\<exists>bs. fst fmt_voucher (make_voucher E) = Some bs"
    using voucher_encodes [of "make_voucher E"] by (simp add: make_voucher_simps assms)
  show "test_hello_frame_roundtrip pc_frame_ref E" unfolding test_hello_frame_roundtrip_def
    by (rule frame_roundtripI) (simp add: fmts assms)
  show "test_reserve_request_frame_roundtrip pc_frame_ref E" unfolding test_reserve_request_frame_roundtrip_def
    by (rule frame_roundtripI) (simp add: fmts assms)
  show "test_connect_request_without_voucher_roundtrip pc_frame_ref E"
    unfolding test_connect_request_without_voucher_roundtrip_def
    by (rule frame_roundtripI) (simp add: fmts assms)
  from v obtain bs where "fst fmt_voucher (make_voucher E) = Some bs" ..
  note v = this
  show "test_reserve_response_granted_roundtrip pc_frame_ref E" unfolding test_reserve_response_granted_roundtrip_def
    by (rule frame_roundtripI) (simp add: fmts assms v)
  show "test_connect_request_with_voucher_roundtrip pc_frame_ref E"
    unfolding test_connect_request_with_voucher_roundtrip_def
    by (rule frame_roundtripI) (simp add: fmts assms v)
qed

subsection \<open>Vouchers\<close>

definition test_voucher_sign_then_verify_succeeds :: "ed_bytes \<Rightarrow> bool" where
  "test_voucher_sign_then_verify_succeeds E =
     expect_ok (voucher_verify E (voucher_sign E relay_secret (ed_public E peer_secret) 1700000600)
       (ed_public E relay_secret)) (\<lambda>_. True)"

definition test_voucher_verify_against_wrong_relay_fails :: "ed_bytes \<Rightarrow> bool" where
  "test_voucher_verify_against_wrong_relay_fails E =
     (let attacker = replicate 32 99
      in expect_err (voucher_verify E (make_voucher E) (ed_public E attacker)) (\<lambda>err. err = VoucherInvalidSig))"

definition test_voucher_with_tampered_expiry_fails_verification :: "ed_bytes \<Rightarrow> bool" where
  "test_voucher_with_tampered_expiry_fails_verification E =
     (let v = make_voucher E;
          voucher = v\<lparr>v_expire_unix_secs := saturating_add_u64 (v_expire_unix_secs v) 86400\<rparr>
      in expect_err (voucher_verify E voucher (v_relay_node_id voucher)) (\<lambda>err. err = VoucherInvalidSig))"

definition test_voucher_with_tampered_peer_id_fails_verification :: "ed_bytes \<Rightarrow> bool" where
  "test_voucher_with_tampered_peer_id_fails_verification E =
     (let attacker = replicate 32 77;
          voucher = (make_voucher E)\<lparr>v_peer_node_id := ed_public E attacker\<rparr>
      in expect_err (voucher_verify E voucher (v_relay_node_id voucher)) (\<lambda>err. err = VoucherInvalidSig))"

definition test_voucher_with_swapped_relay_in_struct_fails_verification :: "ed_bytes \<Rightarrow> bool" where
  "test_voucher_with_swapped_relay_in_struct_fails_verification E =
     (let fake_relay = replicate 32 55;
          voucher = (make_voucher E)\<lparr>v_relay_node_id := ed_public E fake_relay\<rparr>
      in expect_err (voucher_verify E voucher (ed_public E fake_relay)) (\<lambda>err. err = VoucherInvalidSig))"

definition test_voucher_is_expired_check :: "ed_bytes \<Rightarrow> bool" where
  "test_voucher_is_expired_check E =
     (let voucher = make_voucher E
      in \<not> is_expired voucher (saturating_sub_u64 (v_expire_unix_secs voucher) 1) \<and>
         is_expired voucher (v_expire_unix_secs voucher) \<and>
         is_expired voucher (saturating_add_u64 (v_expire_unix_secs voucher) 1))"

definition test_voucher_signing_bytes_includes_domain_tag :: "ed_bytes \<Rightarrow> bool" where
  "test_voucher_signing_bytes_includes_domain_tag E =
     (let bs = signing_bytes (make_voucher E)
      in take (length VOUCHER_DOMAIN_TAG) bs = VOUCHER_DOMAIN_TAG \<and>
         length bs = length VOUCHER_DOMAIN_TAG + 32 + 32 + 8)"

definition test_voucher_postcard_roundtrip_preserves_signature :: "voucher postcard \<Rightarrow> ed_bytes \<Rightarrow> bool" where
  "test_voucher_postcard_roundtrip_preserves_signature P E =
     (let voucher = make_voucher E in
      expect_ok (pc_to_vec P voucher) (\<lambda>wire.
        expect_ok (pc_from_bytes P wire) (\<lambda>decoded. decoded = voucher \<and>
          expect_ok (voucher_verify E decoded (v_relay_node_id voucher)) (\<lambda>_. True))))"

lemma voucher_value_tests:
  assumes "\<And>sk. length (ed_public E sk) = 32"
  shows "test_voucher_is_expired_check E" "test_voucher_signing_bytes_includes_domain_tag E"
  by (simp_all add: test_voucher_is_expired_check_def saturating_sub_u64_def saturating_add_u64_def is_expired_def
      make_voucher_simps test_voucher_signing_bytes_includes_domain_tag_def signing_bytes_def compose_signing_bytes_def assms)

lemma voucher_verification_tests:
  assumes ed: "unforgeable_scheme E {v_signature (make_voucher E)}
      (\<lambda>pk m. pk = ed_public E relay_secret \<and> m = signing_bytes (make_voucher E))"
    and keys: "ed_public E (replicate 32 99) \<noteq> ed_public E relay_secret"
      "ed_public E (replicate 32 77) \<noteq> ed_public E peer_secret"
      "ed_public E (replicate 32 55) \<noteq> ed_public E relay_secret"
  shows "test_voucher_sign_then_verify_succeeds E" "test_voucher_verify_against_wrong_relay_fails E"
    "test_voucher_with_tampered_expiry_fails_verification E" "test_voucher_with_tampered_peer_id_fails_verification E"
    "test_voucher_with_swapped_relay_in_struct_fails_verification E"
proof -
  have sig: "signature_scheme E" by (rule unforgeable_scheme.axioms(1) [OF ed])
  note len = signature_scheme.public_length [OF sig]
  show "test_voucher_sign_then_verify_succeeds E"
    using signature_scheme.verify_sign [OF sig]
    by (simp add: test_voucher_sign_then_verify_succeeds_def voucher_verify_def voucher_sign_def Let_def)
  have tampered: "expect_err (voucher_verify E v pk) (\<lambda>err. err = VoucherInvalidSig)"
    if "v_signature v = v_signature (make_voucher E)" "length (v_peer_node_id v) = 32"
      "\<not> (pk = ed_public E relay_secret \<and> v_peer_node_id v = ed_public E peer_secret \<and>
          v_expire_unix_secs v = 1700000600)"
    for v pk
  proof (cases "voucher_verify E v pk")
    case (Inl e)
    with verify_error [OF this] show ?thesis by simp
  next
    case (Inr u)
    with unforgeable_scheme.verified_voucher_signed [OF ed, of v pk] that(1)
    have "v_relay_node_id v = pk" "pk = ed_public E relay_secret" "signing_bytes v = signing_bytes (make_voucher E)"
      by simp_all
    with that(2,3) len show ?thesis
      by (simp add: signing_bytes_def make_voucher_simps compose_signing_bytes_inject)
  qed
  show "test_voucher_verify_against_wrong_relay_fails E"
    "test_voucher_with_tampered_expiry_fails_verification E" "test_voucher_with_tampered_peer_id_fails_verification E"
    "test_voucher_with_swapped_relay_in_struct_fails_verification E"
    unfolding test_voucher_verify_against_wrong_relay_fails_def test_voucher_with_tampered_expiry_fails_verification_def
      test_voucher_with_tampered_peer_id_fails_verification_def
      test_voucher_with_swapped_relay_in_struct_fails_verification_def Let_def
    by (rule tampered; simp add: make_voucher_simps keys len saturating_add_u64_def)+
qed

interpretation pvo: postcard_codec "postcard_of fmt_voucher"
  by (rule postcard_of_ok) (rule fmt_voucher_ok)

lemma voucher_postcard_test:
  assumes "signature_scheme E" "\<And>sk m. length (ed_sign E sk m) = 64"
  shows "test_voucher_postcard_roundtrip_preserves_signature (postcard_of fmt_voucher) E"
proof -
  from voucher_encodes [of "make_voucher E"]
  obtain bs where "pc_to_vec (postcard_of fmt_voucher) (make_voucher E) = Inr bs"
    by (auto simp: postcard_of_to_vec make_voucher_simps assms(2) signature_scheme.public_length [OF assms(1)])
  moreover have "voucher_verify E (make_voucher E) (ed_public E relay_secret) = Inr ()"
    by (simp add: verify_Inr_iff make_voucher_simps signature_scheme.verify_sign [OF assms(1)])
  ultimately show ?thesis
    by (simp add: test_voucher_postcard_roundtrip_preserves_signature_def pvo.from_ser make_voucher_simps)
qed

text \<open>
  A scheme with all the tests ask for: the public key is the secret one, cut or filled to 32 bytes, and the 64
  bytes of a signature are the key and a digest that is 1 on the test's message and 0 on all others.
\<close>

definition test_message :: bytes where
  "test_message = compose_signing_bytes relay_secret peer_secret 1700000600"

definition ed_test_sign :: "bytes \<Rightarrow> bytes \<Rightarrow> bytes" where
  "ed_test_sign pk m = pk @ replicate 32 (if m = test_message then 1 else 0)"

definition ed_test :: ed_bytes where
  "ed_test = \<lparr>ed_public = (\<lambda>sk. take 32 (sk @ replicate 32 0)),
     ed_sign = (\<lambda>sk. ed_test_sign (take 32 (sk @ replicate 32 0))),
     ed_verify = (\<lambda>pk m s. s = ed_test_sign pk m)\<rparr>"

lemma ed_test_keys: "length k = 32 \<Longrightarrow> ed_public ed_test k = k"
  by (simp add: ed_test_def)

lemma ed_test_voucher: "signing_bytes (make_voucher ed_test) = test_message"
  by (simp add: make_voucher_def voucher_sign_def Let_def signing_bytes_def ed_test_keys relay_secret_def peer_secret_def
      test_message_def)

lemma ed_test_sign_inject: "ed_test_sign pk m = ed_test_sign pk' test_message \<longleftrightarrow> pk = pk' \<and> m = test_message"
  by (simp add: ed_test_sign_def)

interpretation edt: unforgeable_scheme ed_test "{v_signature (make_voucher ed_test)}"
  "\<lambda>pk m. pk = ed_public ed_test relay_secret \<and> m = signing_bytes (make_voucher ed_test)"
proof
  fix s pk m
  assume "s \<in> {v_signature (make_voucher ed_test)}" "ed_verify ed_test pk m s"
  then have "ed_test_sign pk m = ed_test_sign (ed_public ed_test relay_secret) test_message"
    by (simp add: make_voucher_simps ed_test_voucher) (simp add: ed_test_def)
  then show "pk = ed_public ed_test relay_secret \<and> m = signing_bytes (make_voucher ed_test)"
    by (simp add: ed_test_sign_inject ed_test_voucher)
qed (simp_all add: ed_test_def)

lemma voucher_tests_hold:
  "test_voucher_sign_then_verify_succeeds ed_test" "test_voucher_verify_against_wrong_relay_fails ed_test"
  "test_voucher_with_tampered_expiry_fails_verification ed_test"
  "test_voucher_with_tampered_peer_id_fails_verification ed_test"
  "test_voucher_with_swapped_relay_in_struct_fails_verification ed_test"
  "test_voucher_postcard_roundtrip_preserves_signature (postcard_of fmt_voucher) ed_test"
proof -
  have "ed_public ed_test (replicate 32 99) \<noteq> ed_public ed_test relay_secret"
    "ed_public ed_test (replicate 32 77) \<noteq> ed_public ed_test peer_secret"
    "ed_public ed_test (replicate 32 55) \<noteq> ed_public ed_test relay_secret"
    by (simp_all add: ed_test_keys relay_secret_def peer_secret_def)
  from voucher_verification_tests [OF edt.unforgeable_scheme_axioms this]
  show "test_voucher_sign_then_verify_succeeds ed_test" "test_voucher_verify_against_wrong_relay_fails ed_test"
    "test_voucher_with_tampered_expiry_fails_verification ed_test"
    "test_voucher_with_tampered_peer_id_fails_verification ed_test"
    "test_voucher_with_swapped_relay_in_struct_fails_verification ed_test" .
  show "test_voucher_postcard_roundtrip_preserves_signature (postcard_of fmt_voucher) ed_test"
    by (rule voucher_postcard_test [OF edt.signature_scheme_axioms]) (simp add: ed_test_def ed_test_sign_def)
qed

subsection \<open>Frames that do not decode\<close>

definition test_decode_empty_input_yields_malformed_frame :: "transit_frame postcard \<Rightarrow> bool" where
  "test_decode_empty_input_yields_malformed_frame P =
     expect_err (decode_frame P []) (\<lambda>err. err = TransitMalformedFrame)"

definition test_decode_truncated_input_yields_malformed_frame :: "transit_frame postcard \<Rightarrow> ed_bytes \<Rightarrow> bool" where
  "test_decode_truncated_input_yields_malformed_frame P E =
     (let frame = Hello (ed_public E peer_secret) capabilities_default in
      expect_ok (encode_frame P frame) (\<lambda>wire.
        expect_err (decode_frame P (take (length wire - 1) wire)) (\<lambda>err. err = TransitMalformedFrame)))"

definition test_decode_trailing_garbage_yields_malformed_frame :: "transit_frame postcard \<Rightarrow> bool" where
  "test_decode_trailing_garbage_yields_malformed_frame P =
     expect_ok (encode_frame P (Bye None)) (\<lambda>wire.
       expect_err (decode_frame P (wire @ [0xAA])) (\<lambda>err. err = TransitMalformedFrame))"

definition test_decode_random_bytes_yields_malformed_frame :: "transit_frame postcard \<Rightarrow> bool" where
  "test_decode_random_bytes_yields_malformed_frame P =
     expect_err (decode_frame P [0xFF, 0xFF, 0xFF]) (\<lambda>err. err = TransitMalformedFrame)"

lemma malformed_frame_tests:
  "test_decode_empty_input_yields_malformed_frame pc_frame_ref"
  "test_decode_trailing_garbage_yields_malformed_frame pc_frame_ref"
  "test_decode_random_bytes_yields_malformed_frame pc_frame_ref"
  by code_simp+

lemma truncated_frame_test:
  assumes "\<And>sk. length (ed_public E sk) = 32"
  shows "test_decode_truncated_input_yields_malformed_frame pc_frame_ref E"
proof -
  let ?wire = "0 # ed_public E peer_secret @ [0]"
  have ser: "pc_to_vec pc_frame_ref (Hello (ed_public E peer_secret) capabilities_default) = Inr ?wire"
    by (simp add: pc_frame_ref_def fmt_transit_frame_def fmt_u32_def fmt_defs fmt_fixed_def capabilities_default_def assms)
  from pfr.take_truncated [OF ser, of "length ?wire - 1"]
  obtain e where "pc_take pc_frame_ref (take (length ?wire - 1) ?wire) = Inl e" by auto
  then show ?thesis
    by (simp add: test_decode_truncated_input_yields_malformed_frame_def encode_frame_def ser decode_frame_def)
qed

subsection \<open>Errors and limits\<close>

definition test_transit_error_display_is_human_readable :: bool where
  "test_transit_error_display_is_human_readable \<longleftrightarrow>
     list_all (\<lambda>e. transit_error_display e \<noteq> [])
       [WhitelistRejected, CapacityFull, VoucherExpired, VoucherInvalidSig, TargetNotFound, TransitMalformedFrame,
        UnexpectedFrame]"

definition test_limits_default_is_personal_mode_unlimited :: bool where
  "test_limits_default_is_personal_mode_unlimited \<longleftrightarrow>
     max_circuit_bytes limits_default = 0 \<and> max_circuit_duration_secs limits_default = 0"

definition test_default_reservation_ttl_matches_design_doc :: bool where
  "test_default_reservation_ttl_matches_design_doc \<longleftrightarrow>
     DEFAULT_RESERVATION_TTL_SECS \<ge> 300 \<and> DEFAULT_RESERVATION_TTL_SECS \<le> 600"

lemma error_and_limit_tests:
  "test_transit_error_display_is_human_readable" "test_limits_default_is_personal_mode_unlimited"
  "test_default_reservation_ttl_matches_design_doc"
  by code_simp+

end
