(* ===== verification/Test_Calls.thy ===== *)
theory Test_Calls
  imports Client Server Test_Wire
begin

section \<open>The unit tests of client.rs and server.rs\<close>

text \<open>
  The unit tests that stand in \<^verbatim>\<open>client.rs\<close> and \<^verbatim>\<open>server.rs\<close>, in the manner of the theory
  \<open>Test_Wire\<close>. The bodies of error envelopes are those of the concrete postcard format.
\<close>

subsection \<open>client.rs\<close>

definition build_buf :: "u8 \<Rightarrow> bytes \<Rightarrow> bytes" where
  "build_buf first body = first # body"

definition test_decode_response_frame_success :: bool where
  "test_decode_response_frame_success =
     (let buf = build_buf OPCODE_UNARY_RESPONSE (str_bytes ''OK-PAYLOAD'') in
      expect_ok (decode_response_frame pc_wire_error_ref buf) (\<lambda>decoded. decoded = str_bytes ''OK-PAYLOAD''))"

definition test_decode_response_frame_error_handler :: bool where
  "test_decode_response_frame_error_handler =
     expect_ok (pc_to_vec pc_wire_error_ref (WireHandlerError ''some handler failure'')) (\<lambda>body.
       expect_err (decode_response_frame pc_wire_error_ref (build_buf OPCODE_UNARY_ERROR body)) (\<lambda>err.
         case err of Handler _ \<Rightarrow> True | _ \<Rightarrow> False))"

definition test_decode_response_frame_error_unknown_method :: bool where
  "test_decode_response_frame_error_unknown_method =
     expect_ok (pc_to_vec pc_wire_error_ref (WireUnknownMethod ''tolki:nope@1.0.0/iface/method'')) (\<lambda>body.
       expect_err (decode_response_frame pc_wire_error_ref (build_buf OPCODE_UNARY_ERROR body)) (\<lambda>err.
         case err of UnknownMethod name \<Rightarrow> name = ''tolki:nope@1.0.0/iface/method'' | _ \<Rightarrow> False))"

definition test_decode_response_frame_error_version_mismatch :: bool where
  "test_decode_response_frame_error_version_mismatch =
     expect_ok (pc_to_vec pc_wire_error_ref (WireVersionMismatch ''9.9.9'' [''1.0.0'', ''2.0.0''])) (\<lambda>body.
       expect_err (decode_response_frame pc_wire_error_ref (build_buf OPCODE_UNARY_ERROR body)) (\<lambda>err.
         case err of
           VersionMismatch requested available \<Rightarrow> requested = ''9.9.9'' \<and> available = [''1.0.0'', ''2.0.0'']
         | _ \<Rightarrow> False))"

definition test_decode_response_frame_empty_buffer :: bool where
  "test_decode_response_frame_empty_buffer =
     expect_err (decode_response_frame pc_wire_error_ref []) is_malformed"

definition test_decode_response_frame_unexpected_opcode :: "(string \<Rightarrow> string) \<Rightarrow> bool" where
  "test_decode_response_frame_unexpected_opcode dbg =
     (let buf = build_buf OPCODE_UNARY_REQUEST [0xAA, 0xBB] in
      expect_err (decode_response_frame pc_wire_error_ref buf) (\<lambda>err.
        str_contains (rpc_display dbg err) ''unexpected response opcode''))"

lemma response_frame_tests:
  "test_decode_response_frame_success" "test_decode_response_frame_error_handler"
  "test_decode_response_frame_error_unknown_method" "test_decode_response_frame_error_version_mismatch"
  "test_decode_response_frame_empty_buffer" "test_decode_response_frame_unexpected_opcode dbg"
proof -
  show "test_decode_response_frame_success" by code_simp
  show "test_decode_response_frame_error_handler" by code_simp
  show "test_decode_response_frame_error_unknown_method" by code_simp
  show "test_decode_response_frame_error_version_mismatch" by code_simp
  show "test_decode_response_frame_empty_buffer" by code_simp
  show "test_decode_response_frame_unexpected_opcode dbg" by code_simp
qed

subsection \<open>server.rs\<close>

definition test_build_unary_request_frame_includes_opcode_name_and_payload :: "leb128 \<Rightarrow> bool" where
  "test_build_unary_request_frame_includes_opcode_name_and_payload L =
     expect_ok (build_unary_request_frame L ''tolki:hello@1.0.0/test/echo'' (str_bytes ''PAYLOAD'')) (\<lambda>frame.
       hd frame = OPCODE_UNARY_REQUEST \<and>
       expect_ok (decode_method_name L (tl frame)) (\<lambda>(name, rest).
         name = ''tolki:hello@1.0.0/test/echo'' \<and> rest = str_bytes ''PAYLOAD''))"

definition test_build_unary_request_frame_with_empty_payload :: "leb128 \<Rightarrow> bool" where
  "test_build_unary_request_frame_with_empty_payload L =
     expect_ok (build_unary_request_frame L ''tolki:x@1.0.0/i/m'' []) (\<lambda>frame.
       hd frame = OPCODE_UNARY_REQUEST \<and>
       expect_ok (decode_method_name L (tl frame)) (\<lambda>(name, rest). name = ''tolki:x@1.0.0/i/m'' \<and> rest = []))"

definition test_rpc_server_config_default_uses_documented_constants :: bool where
  "test_rpc_server_config_default_uses_documented_constants =
     (let cfg = config_default
      in max_concurrent_streams cfg = DEFAULT_MAX_CONCURRENT_STREAMS \<and>
         max_concurrent_connections cfg = DEFAULT_MAX_CONCURRENT_CONNECTIONS)"

definition test_rpc_server_config_default_constants_are_nonzero :: bool where
  "test_rpc_server_config_default_constants_are_nonzero \<longleftrightarrow>
     DEFAULT_MAX_CONCURRENT_STREAMS > 0 \<and> DEFAULT_MAX_CONCURRENT_CONNECTIONS > 0"

context leb128_codec begin

lemma request_frame_tests:
  "test_build_unary_request_frame_includes_opcode_name_and_payload L"
  "test_build_unary_request_frame_with_empty_payload L"
proof -
  let ?name = "''tolki:hello@1.0.0/test/echo''" and ?short = "''tolki:x@1.0.0/i/m''"
  have "rust_str ?name" "rust_str ?short" by code_simp+
  then have "decode_method_name L (uleb (length ?name) @ str_bytes ?name @ str_bytes ''PAYLOAD'') = Inr (?name, str_bytes ''PAYLOAD'')"
    "decode_method_name L (uleb (length ?short) @ str_bytes ?short @ []) = Inr (?short, [])"
    by (intro decode_method_name_ok; simp add: MAX_METHOD_NAME_LEN_def)+
  then show "test_build_unary_request_frame_includes_opcode_name_and_payload L"
    "test_build_unary_request_frame_with_empty_payload L"
    unfolding test_build_unary_request_frame_includes_opcode_name_and_payload_def
      test_build_unary_request_frame_with_empty_payload_def build_unary_request_frame_def
    by (simp_all add: encode_method_name_eq)
qed

end

lemma config_tests:
  "test_rpc_server_config_default_uses_documented_constants" "test_rpc_server_config_default_constants_are_nonzero"
  by code_simp+

end
