(* ===== verification/Test_Datagram.thy ===== *)
theory Test_Datagram
  imports Datagram Test_Wire
begin

section \<open>The unit tests of datagram.rs\<close>

text \<open>
  The unit tests that stand in \<^verbatim>\<open>datagram.rs\<close>, in the manner of the theory \<open>Test_Wire\<close>, for every
  lawful \<^verbatim>\<open>DashMap\<close> and \<^verbatim>\<open>leb128\<close>. A \<^verbatim>\<open>CountingHandler\<close> is known by a number, the
  identity of its \<^verbatim>\<open>Arc\<close>; the world maps it to the number of its calls and its last payload.
  Not here: \<^verbatim>\<open>datagram_dispatcher_caps_concurrent_handlers\<close>, which sleeps to let the runtime schedule
  tasks; what it samples, that no more handlers run than there are permits, is proved for every run in the
  theory \<open>Datagram\<close>.
\<close>

type_synonym counters = "nat \<Rightarrow> nat \<times> bytes"

type_synonym 'm counting_map = "(u64, nat, 'm) map_ops"

definition counters_new :: counters where
  "counters_new = (\<lambda>_. (0, []))"

definition counting_handle :: "nat \<Rightarrow> rpc_context \<Rightarrow> bytes \<Rightarrow> counters \<Rightarrow> unit rpc_result \<times> counters" where
  "counting_handle h ctx payload w = (Inr (), w(h := (fst (w h) + 1, payload)))"

definition call_count :: "counters \<Rightarrow> nat \<Rightarrow> nat" where
  "call_count w h = fst (w h)"

definition last_payload :: "counters \<Rightarrow> nat \<Rightarrow> bytes" where
  "last_payload w h = snd (w h)"

definition build_frame :: "leb128 \<Rightarrow> u64 \<Rightarrow> bytes \<Rightarrow> bytes rpc_result" where
  "build_frame L stream_id payload =
     (case encode_stream_id L stream_id [] of Inl e \<Rightarrow> Inl e | Inr buf \<Rightarrow> Inr (buf @ payload))"

text \<open>A registration, and a dispatch of a built frame, that the test expects to succeed.\<close>

definition register_ok :: "'m counting_map \<Rightarrow> u64 \<Rightarrow> nat \<Rightarrow> 'm dispatcher \<Rightarrow> ('m dispatcher \<Rightarrow> bool) \<Rightarrow> bool" where
  "register_ok M sid h d rest =
     (case dg_register M sid h d of (Inr _, d) \<Rightarrow> rest d | (Inl _, _) \<Rightarrow> False)"

definition dispatch_ok ::
  "leb128 \<Rightarrow> 'm counting_map \<Rightarrow> 'm dispatcher \<Rightarrow> rpc_context \<Rightarrow> u64 \<Rightarrow> bytes \<Rightarrow> counters \<Rightarrow> (counters \<Rightarrow> bool) \<Rightarrow> bool" where
  "dispatch_ok L M d ctx sid payload w rest =
     expect_ok (build_frame L sid payload) (\<lambda>frame.
       case dispatch L M counting_handle d ctx frame w of (Inr _, w) \<Rightarrow> rest w | (Inl _, _) \<Rightarrow> False)"

subsection \<open>Registration\<close>

definition test_new_dispatcher_has_zero_registered :: "'m counting_map \<Rightarrow> bool" where
  "test_new_dispatcher_has_zero_registered M =
     expect_ok (dispatcher_new M) (\<lambda>d. registered_count M d = 0)"

definition test_register_and_unregister_round_trip :: "'m counting_map \<Rightarrow> nat \<Rightarrow> bool" where
  "test_register_and_unregister_round_trip M h =
     expect_ok (dispatcher_new M) (\<lambda>d.
       register_ok M 42 h d (\<lambda>d. registered_count M d = 1 \<and>
         (case dg_unregister M 42 d of
            (Some removed, d) \<Rightarrow> removed = h \<and> registered_count M d = 0
          | (None, _) \<Rightarrow> False)))"

definition test_register_collision_errors :: "'m counting_map \<Rightarrow> nat \<Rightarrow> nat \<Rightarrow> bool" where
  "test_register_collision_errors M h h' =
     expect_ok (dispatcher_new M) (\<lambda>d.
       register_ok M 7 h d (\<lambda>d.
         expect_err (fst (dg_register M 7 h' d)) (\<lambda>err.
           case err of DatagramStreamIdCollision stream_id \<Rightarrow> stream_id = 7 | _ \<Rightarrow> False)))"

definition test_unregister_unknown_stream_id_is_idempotent :: "'m counting_map \<Rightarrow> bool" where
  "test_unregister_unknown_stream_id_is_idempotent M =
     expect_ok (dispatcher_new M) (\<lambda>d. fst (dg_unregister M 9999 d) = None)"

definition test_register_supports_large_stream_ids :: "'m counting_map \<Rightarrow> nat \<Rightarrow> nat \<Rightarrow> bool" where
  "test_register_supports_large_stream_ids M h h' =
     expect_ok (dispatcher_new M) (\<lambda>d.
       register_ok M 1000000 h d (\<lambda>d.
         register_ok M 0xFFFFFFFF h' d (\<lambda>d. registered_count M d = 2)))"

context keyed_map begin

lemma new_dispatcher: "dispatcher_new M = Inr \<lparr>dd_handlers = mo_new M, dd_in_flight_permits = 1024\<rparr>"
  by (simp add: dispatcher_new_def with_max_in_flight_def DEFAULT_MAX_CONCURRENT_DATAGRAMS_def)

end

lemmas register_defs = register_ok_def dg_register_def dg_unregister_def registered_count_def

lemma registration_tests:
  assumes "keyed_map M mo_inv"
  shows "test_new_dispatcher_has_zero_registered M" "test_register_and_unregister_round_trip M h"
    "test_register_collision_errors M h h'" "test_unregister_unknown_stream_id_is_idempotent M"
    "test_register_supports_large_stream_ids M h h'"
proof -
  note laws = keyed_map.inv_new [OF assms] keyed_map.inv_insert [OF assms] keyed_map.get_new [OF assms]
    keyed_map.get_insert [OF assms] keyed_map.len_new [OF assms] keyed_map.len_insert [OF assms]
    keyed_map.len_remove [OF assms] keyed_map.new_dispatcher [OF assms]
  show "test_new_dispatcher_has_zero_registered M" "test_unregister_unknown_stream_id_is_idempotent M"
    by (simp_all add: test_new_dispatcher_has_zero_registered_def test_unregister_unknown_stream_id_is_idempotent_def
        register_defs laws)
  show "test_register_and_unregister_round_trip M h"
    by (simp add: test_register_and_unregister_round_trip_def register_defs laws)
  show "test_register_collision_errors M h h'" "test_register_supports_large_stream_ids M h h'"
    by (simp_all add: test_register_collision_errors_def test_register_supports_large_stream_ids_def register_defs laws)
qed

subsection \<open>Dispatch\<close>

definition test_dispatch_routes_to_correct_handler ::
  "leb128 \<Rightarrow> 'm counting_map \<Rightarrow> rpc_context \<Rightarrow> nat \<Rightarrow> nat \<Rightarrow> bool" where
  "test_dispatch_routes_to_correct_handler L M ctx h_a h_b =
     expect_ok (dispatcher_new M) (\<lambda>d.
       register_ok M 1 h_a d (\<lambda>d. register_ok M 2 h_b d (\<lambda>d.
         dispatch_ok L M d ctx 1 [0xAA, 0xBB] counters_new (\<lambda>w.
           dispatch_ok L M d ctx 2 [0xCC] w (\<lambda>w.
             dispatch_ok L M d ctx 1 [0xDD, 0xEE, 0xFF] w (\<lambda>w.
               call_count w h_a = 2 \<and> call_count w h_b = 1 \<and>
               last_payload w h_a = [0xDD, 0xEE, 0xFF] \<and> last_payload w h_b = [0xCC]))))))"

definition test_dispatch_unknown_stream_id_errors :: "leb128 \<Rightarrow> 'm counting_map \<Rightarrow> rpc_context \<Rightarrow> bool" where
  "test_dispatch_unknown_stream_id_errors L M ctx =
     expect_ok (dispatcher_new M) (\<lambda>d.
       expect_ok (build_frame L 100 [0xAA]) (\<lambda>frame.
         expect_err (fst (dispatch L M counting_handle d ctx frame counters_new)) (\<lambda>err.
           case err of DatagramStreamIdUnknown stream_id \<Rightarrow> stream_id = 100 | _ \<Rightarrow> False)))"

definition test_dispatch_empty_frame_errors :: "leb128 \<Rightarrow> 'm counting_map \<Rightarrow> rpc_context \<Rightarrow> bool" where
  "test_dispatch_empty_frame_errors L M ctx =
     expect_ok (dispatcher_new M) (\<lambda>d.
       expect_err (fst (dispatch L M counting_handle d ctx [] counters_new)) (\<lambda>err.
         case err of DatagramTooShort len \<Rightarrow> len = 0 | _ \<Rightarrow> False))"

definition test_dispatch_decodes_large_stream_id :: "leb128 \<Rightarrow> 'm counting_map \<Rightarrow> rpc_context \<Rightarrow> nat \<Rightarrow> bool" where
  "test_dispatch_decodes_large_stream_id L M ctx h =
     (let big_id = 1000000000 in
      expect_ok (dispatcher_new M) (\<lambda>d.
        register_ok M big_id h d (\<lambda>d.
          dispatch_ok L M d ctx big_id (str_bytes ''BIG'') counters_new (\<lambda>w.
            call_count w h = 1 \<and> last_payload w h = str_bytes ''BIG''))))"

lemma dispatch_ok_iff:
  assumes "leb128_codec L"
  shows "dispatch_ok L M d ctx sid payload w rest \<longleftrightarrow>
    (case mo_get M (dd_handlers d) sid of Some h \<Rightarrow> rest (w(h := (fst (w h) + 1, payload))) | None \<Rightarrow> False)"
proof -
  have enc: "encode_stream_id L sid [] = Inr (uleb (unat sid))" by (simp add: leb128_codec.encode_stream_id_eq [OF assms])
  show ?thesis
    by (simp add: dispatch_ok_def build_frame_def enc leb128_codec.dispatch_framed [OF assms enc] counting_handle_def
        split: option.split)
qed

lemma dispatch_tests:
  assumes L: "leb128_codec L" and M: "keyed_map M mo_inv"
  shows "h_a \<noteq> h_b \<Longrightarrow> test_dispatch_routes_to_correct_handler L M ctx h_a h_b"
    "test_dispatch_unknown_stream_id_errors L M ctx" "test_dispatch_empty_frame_errors L M ctx"
    "test_dispatch_decodes_large_stream_id L M ctx h"
proof -
  note laws = keyed_map.inv_new [OF M] keyed_map.inv_insert [OF M] keyed_map.get_new [OF M]
    keyed_map.get_insert [OF M] keyed_map.new_dispatcher [OF M] dispatch_ok_iff [OF L]
  show "test_dispatch_routes_to_correct_handler L M ctx h_a h_b" if "h_a \<noteq> h_b"
    using that by (simp add: test_dispatch_routes_to_correct_handler_def register_ok_def dg_register_def laws
        counters_new_def call_count_def last_payload_def)
  show "test_dispatch_decodes_large_stream_id L M ctx h"
    by (simp add: test_dispatch_decodes_large_stream_id_def register_ok_def dg_register_def laws
        counters_new_def call_count_def last_payload_def)
  show "test_dispatch_empty_frame_errors L M ctx"
    by (simp add: test_dispatch_empty_frame_errors_def laws dispatch_def)
  have enc: "encode_stream_id L 100 [] = Inr (uleb (unat (100 :: u64)))"
    by (rule leb128_codec.encode_stream_id_eq [OF L, of 100 "[]", simplified append_Nil])
  show "test_dispatch_unknown_stream_id_errors L M ctx"
    by (simp add: test_dispatch_unknown_stream_id_errors_def build_frame_def enc
        leb128_codec.dispatch_framed [OF L enc, simplified] laws)
qed

subsection \<open>Contexts and the cap\<close>

definition test_build_context_uses_datagram_alpn :: "uuid \<times> uuid \<Rightarrow> node_id \<Rightarrow> bool" where
  "test_build_context_uses_datagram_alpn ids loopback_node_id =
     (let ctx = build_context ids loopback_node_id
      in pm_node_id (ctx_peer ctx) = loopback_node_id \<and> pm_alpn (ctx_peer ctx) = ALPN_NERW_DATAGRAM_1_0_0 \<and>
         ctx_auth ctx = None)"

definition test_new_dispatcher_uses_default_in_flight_cap :: "'m counting_map \<Rightarrow> bool" where
  "test_new_dispatcher_uses_default_in_flight_cap M =
     expect_ok (dispatcher_new M) (\<lambda>d. dd_in_flight_permits d = DEFAULT_MAX_CONCURRENT_DATAGRAMS)"

definition test_with_max_in_flight_honors_caller_cap :: "'m counting_map \<Rightarrow> bool" where
  "test_with_max_in_flight_honors_caller_cap M =
     expect_ok (with_max_in_flight M 7) (\<lambda>d. dd_in_flight_permits d = 7)"

definition test_with_max_in_flight_rejects_zero :: "'m counting_map \<Rightarrow> bool" where
  "test_with_max_in_flight_rejects_zero M =
     expect_err (with_max_in_flight M 0) (\<lambda>msg. str_contains msg ''max_in_flight must be > 0'')"

lemma context_and_cap_tests:
  "test_build_context_uses_datagram_alpn ids loopback_node_id"
  "test_new_dispatcher_uses_default_in_flight_cap M" "test_with_max_in_flight_honors_caller_cap M"
  "test_with_max_in_flight_rejects_zero M"
  by (simp_all add: test_build_context_uses_datagram_alpn_def build_context_def
      test_new_dispatcher_uses_default_in_flight_cap_def dispatcher_new_def with_max_in_flight_def
      DEFAULT_MAX_CONCURRENT_DATAGRAMS_def test_with_max_in_flight_honors_caller_cap_def
      test_with_max_in_flight_rejects_zero_def strip_prefix_def)

end
