(* ===== verification/Spec2Isabelle.thy ===== *)
theory Spec2Isabelle
  imports Transit Payload_Codec Any_Handler Client_Tasks Connection_Cache Served_Streams Datagram Schema
    Test_Wire Test_Method Test_Transit Test_Calls Test_Datagram
begin

text \<open>
  nerw-rpc is a remote-procedure-call layer over QUIC connections. A client opens one bidirectional
  substream per call and writes a request frame; the server dispatches it through a registry of
  named methods and writes a response. A call is unary (one request, one response) or streaming
  (open handshake, then chunks in both directions). Beside it stand a dispatcher for unreliable
  datagrams, a built-in method that lists the registered methods, and the frames and signed
  vouchers of the transit (relay) protocol.

  \<^bold>\<open>How the code and the theories correspond.\<close> Names of files and functions are those under src/src.

  \<^item> Rust_Prelude: machine integers as words (u64, u128, i64), byte strings, a Rust str as a HOL string
    whose bytes pass the UTF-8 scan of the Rust library, text prefixes and suffixes, the results of
    fallible calls. Rpc_Error: the error enum of error.rs and its Display.
  \<^item> Quic: the interface of a QUIC receive and send half (quic_recv, quic_send). Channel: the interface
    of a bounded channel whose receiver may be dropped (mpsc). Keyed_Map: the interface of a hash map
    in an unspecified iteration order (keyed_map). Postcard: the interface of the serializer
    (postcard_codec) and formats from which a lawful instance is built for every type used. The
    leb128 crate is the locale leb128_codec of Varint, and leb128_exact where the value of a longer
    encoding than need be matters.
  \<^item> Varint: read_varint_u64 and encode_varint_u64 of streaming.rs. Streaming: the frame types, the reader
    read_streaming_frame and every writer of streaming.rs.
  \<^item> Wire: wire.rs (opcodes, bounds, method-name and stream-id prefixes). Wire_Error: wire_error.rs.
    Payload_Codec: codec.rs. Context: context.rs. Transport: transport.rs, the ALPN constants
    and the handle around nerw-core's client.
  \<^item> Method: method.rs, the parser and printer of names and MethodRegistry, a map from canonical
    names to entries, with the panics of registration as errors.
  \<^item> Server_Unary and Server_Streaming: the substream handlers of server.rs, from the first byte
    (handle_inbound_substream) to the last frame (finalise_streaming). Pump: the loop that both
    sides of a streaming call share; Pump_Task: the same loop one poll at a time. Server_Tasks: the
    request pump, the handler and the main task of one streaming call, interleaved in any order over
    their two bounded channels (call_spawn, task_step). Any_Handler: the same with nothing assumed of
    the handler (any_step). Server: the object RpcServer, its ALPN table, serve, drop, and
    run_accept_loop with the tasks it spawns, as the step relation sys_step. Served_Streams: what the
    stream tasks of such a run do (serve_streams).
  \<^item> Client: client.rs, call with the eviction of a cached connection, the handshake of
    call_streaming and its two pumps. Connection_Cache: what nerw-core promises of the cache the client
    evicts from (connection_cache), and what a call leaves in it. Client_Tasks: the two tasks call_streaming leaves behind and
    their caller, interleaved in any order (client_step).
  \<^item> Datagram: datagram.rs, the table, dispatch, and subscribe_connection as the step relation dg_step.
    Task_Pool: tasks that wait for a permit of a semaphore, shared by Server and Datagram.
  \<^item> Schema: schema.rs. Transit: transit.rs.
  \<^item> Test_Wire, Test_Method, Test_Transit, Test_Calls, Test_Datagram: the unit tests that stand in the
    source files, one executable predicate test_<function> per test function.

  State that the code mutates is an argument returned updated: a stream half, a channel, a registry,
  the world of the handlers. Errors are values of the sum type; Inl is Err. Code that is not in the
  repository is a record of operations passed to the definitions, with a locale for the documented
  laws; each locale is interpreted on an executable instance (in-memory streams, a list as channel,
  an association list as hash map, the real LEB128 and postcard formats, a toy signature), and the
  witnesses evaluate the code's definitions on these instances. Handlers, clocks, random ids and the
  Debug texts of frames are parameters too.

  \<^bold>\<open>What is shown.\<close>

  \<^item> In this theory: a unary call and a streaming call from the client's arguments to the client's
    result, through both sides' code, the streaming call also with the tasks of both sides in any
    order; a whole run of the server, in which every accepted stream gets the reply of its own call; a missing streaming method; a response of the largest size; a call without a reply.
  \<^item> Codecs: writers and readers are inverse (frames, names, stream ids, payloads, transit frames), and
    the readers are sound on arbitrary bytes: what they return is what the consumed bytes spell,
    within the bounds, and everything else is one of the listed errors.
  \<^item> Server and client on arbitrary peers: the shape of every reply, which bytes reach which handler,
    and when the cached connection is dropped.
  \<^item> Registry, dispatcher table, schema: each refines an abstract finite map.
  \<^item> Concurrency: in every interleaving of the accept loops and the datagram loop the limits hold, no
    task is lost or doubled, and every task can finish; the tasks of a streaming call on either side
    deliver what the sequential pumps deliver and block only on the other side.
  \<^item> Vouchers: signing and verification, and authenticity under an unforgeable signature.
  \<^item> Registry, as a program builds it: the map of the last registrations, each lookup of its kind.
  \<^item> Conformance: the definitions pass 119 of the 122 unit tests of the source files, evaluated on the
    concrete formats and for every lawful leb128 and hash map; the voucher tests for every signature scheme with the
    laws they rely on, the tests of random ids for draws that differ as they expect. Three are
    not stated: one sleeps to let the runtime schedule tasks (Datagram proves what it samples for every
    run), one asks that a function is deterministic, one that a type implements a trait.
  \<^item> Deviations the proofs exposed: an overlong varint accepted as zero, a truncated varint reported as a
    transport error, an open-request that cannot be read left without an answer, the bytewise choice of a
    version, a version-omitted lookup that crosses interfaces, the largest response lost, a server
    configured with zero permits, a streaming call that leaves a dead connection in the cache, and
    the error variants a streaming call loses.

  \<^bold>\<open>Bounds and termination.\<close> read_varint_loop takes at most ten bytes, the number of seven-bit groups
  of a u64. A pump may run for as long as the peer sends, so it is a partial function with the
  result None for a run that does not end; frame_pump.pump_returns shows that it ends on every
  finite stream content, because each frame consumes at least its opcode. The list of frames read
  from a stream (read_frames) takes a fuel, one more than the number of frames being enough.

  Server_Streaming and Client run the tasks of one streaming call one after the other, which is how
  the end-to-end theorems read. Server_Tasks shows that this is no loss: every interleaving over
  channels of capacity 16 that closes the call writes the same bytes, none is ever stuck, and a
  call of a handler that returns can always be finished. A handler is there a state machine that
  asks for requests, sends responses and drops its channel ends when it likes. What a handler does that
  polls both channels at once (a select) or hands its channel ends to other tasks depends on the
  schedule; Any_Handler says what the caller gets for what such a handler did, and that a sequential
  handler is one of these.

  \<^bold>\<open>What is not modelled.\<close> A read gives bytes, an end or an error, and a write is one step, except for
  the request task of a client, which may be aborted in the middle of one. A stream that stalls without
  ending is a task that is not scheduled again: the invariants of the interleaved models cover it, and the
  theorems that a call can be finished say which steps finish it. Served_Streams runs the handlers of
  different streams one at a time on the application's state, in the order in which they finish. The handler's future cannot be cancelled from outside. Log and trace
  output, Debug formatters, the accessors of a server's own fields, the re-exports of lib.rs, the
  integration tests, which run over a live network, and the WIT description are left out.
\<close>

section \<open>A call, from the client's arguments to the client's result\<close>

text \<open>
  The request a server reads is what the client wrote, and the response the client reads is what the
  server wrote: the hypotheses \<open>content rs = ...\<close> and \<open>content r = ...\<close> below say so.
\<close>

lemma unary_request_written:
  assumes "quic_send T written closed healthy" "healthy t" "written t = []"
  shows "written (snd (unary_exchange R T W frame t r)) = frame \<and>
    unary_exchange R T W frame t r =
      ((case rx_to_end R r RPC_RESPONSE_READ_LIMIT of
          (Inl e, _) \<Rightarrow> Inl (TransportRead (''read_to_end: '' @ e))
        | (Inr response_buf, _) \<Rightarrow> decode_response_frame W response_buf),
       snd (unary_exchange R T W frame t r))"
proof -
  from quic_send.healthy_write_obtain [OF assms(1,2)] obtain t1 where
    t1: "tx_write T t frame = (Inr (), t1)" "healthy t1" "written t1 = written t @ frame" by blast
  from quic_send.healthy_finish_obtain [OF assms(1) t1(2)] obtain t2 where
    "tx_finish T t1 = (Inr (), t2)" "written t2 = written t1" by blast
  with t1 assms(3) show ?thesis
    by (simp add: unary_exchange_def split: prod.split sum.split)
qed

lemma unary_request_served:
  assumes L: "leb128_codec L" and R: "quic_recv R content ended" and S: "quic_send T written closed healthy"
    and name: "rust_str name" "length name \<le> MAX_METHOD_NAME_LEN"
    and frame: "build_unary_request_frame L name request = Inr frame"
      "length frame \<le> RPC_STREAM_READ_LIMIT + 1"
    and rs: "content rs = frame" "ended rs = None" and ts: "healthy ts" "written ts = []"
    and outcome: "call_outcome run registry env name request w = (Some reply, w1)"
    and reply: "reply_bytes W dbg reply = Some bs"
  shows "\<exists>ts'. handle_inbound_substream L R T C W M dbg dbgf run run_s registry env ts rs w = Some (ts', w1) \<and>
    written ts' = bs"
proof -
  have "length name < 2 ^ 64" using name(2) by (simp add: MAX_METHOD_NAME_LEN_def)
  with frame(1) have fr: "frame = OPCODE_UNARY_REQUEST # tl frame"
    by (auto simp: leb128_codec.request_frame_eq [OF L])
  with rs(1) have "content rs = OPCODE_UNARY_REQUEST # tl frame" by simp
  from quic_recv.exact_one [OF R this] obtain r1 where
    r1: "rx_exact R rs (Suc 0) = (Inr [OPCODE_UNARY_REQUEST], r1)" "content r1 = tl frame"
    "ended r1 = ended rs" .
  have "length (content r1) \<le> RPC_STREAM_READ_LIMIT" using r1(2) frame(2) by simp
  with quic_recv.to_end_ok [OF R this] r1 rs(2) obtain r2 where
    r2: "rx_to_end R r1 RPC_STREAM_READ_LIMIT = (Inr (tl frame), r2)" by auto
  from quic_send.write_reply_ok [OF S ts(1) reply] ts(2) obtain ts' where
    ts': "write_reply T W dbg ts reply = (Inr (), ts')" "written ts' = bs" by auto
  have "dispatch_unary L run registry env (OPCODE_UNARY_REQUEST # tl frame) w = (Some reply, w1)"
    using leb128_codec.dispatch_request [OF L name frame(1), of run registry env w] fr outcome by simp
  with r1(1) r2 ts' show ?thesis
    by (simp add: handle_inbound_substream_def handle_unary_write_reply opcode_defs)
qed

text \<open>A panic of the handler and a request over the limit are the cases without any reply.\<close>

lemma unary_request_unanswered:
  assumes L: "leb128_codec L" and R: "quic_recv R content ended"
    and name: "rust_str name" "length name \<le> MAX_METHOD_NAME_LEN"
    and frame: "build_unary_request_frame L name request = Inr frame"
    and rs: "content rs = frame" "ended rs = None"
    and silent: "RPC_STREAM_READ_LIMIT + 1 < length frame \<and> w1 = w \<or>
      length frame \<le> RPC_STREAM_READ_LIMIT + 1 \<and> call_outcome run registry env name request w = (None, w1)"
  shows "handle_inbound_substream L R T C W M dbg dbgf run run_s registry env ts rs w = Some (ts, w1)"
proof -
  have "length name < 2 ^ 64" using name(2) by (simp add: MAX_METHOD_NAME_LEN_def)
  with frame have fr: "frame = OPCODE_UNARY_REQUEST # tl frame"
    by (auto simp: leb128_codec.request_frame_eq [OF L])
  with rs(1) have "content rs = OPCODE_UNARY_REQUEST # tl frame" by simp
  from quic_recv.exact_one [OF R this] obtain r1 where
    r1: "rx_exact R rs (Suc 0) = (Inr [OPCODE_UNARY_REQUEST], r1)" "content r1 = tl frame"
    "ended r1 = ended rs" .
  have dispatch: "dispatch_unary L run registry env (OPCODE_UNARY_REQUEST # tl frame) w =
      call_outcome run registry env name request w"
    using leb128_codec.dispatch_request [OF L name frame, of run registry env w] fr by simp
  from silent show ?thesis
  proof
    assume long: "RPC_STREAM_READ_LIMIT + 1 < length frame \<and> w1 = w"
    then have "RPC_STREAM_READ_LIMIT < length (content r1)" unfolding r1(2) length_tl by linarith
    from quic_recv.to_end_long [OF R this] obtain e r2 where
      "rx_to_end R r1 RPC_STREAM_READ_LIMIT = (Inl e, r2)" by blast
    with r1(1) long show ?thesis
      by (simp add: handle_inbound_substream_def handle_unary_stream_with_opcode_consumed_def opcode_defs)
  next
    assume panic: "length frame \<le> RPC_STREAM_READ_LIMIT + 1 \<and> call_outcome run registry env name request w = (None, w1)"
    then have "length (content r1) \<le> RPC_STREAM_READ_LIMIT" unfolding r1(2) length_tl by linarith
    from quic_recv.to_end_ok [OF R this] r1(2,3) rs(2) obtain r2 where
      "rx_to_end R r1 RPC_STREAM_READ_LIMIT = (Inr (tl frame), r2)" by auto
    with r1(1) panic dispatch show ?thesis
      by (simp add: handle_inbound_substream_def handle_unary_stream_with_opcode_consumed_def opcode_defs)
  qed
qed

text \<open>
  C1. A unary call end to end, on streams that carry the bytes: for a method name of at most 4096
  bytes, a request within the server's limit and a reply within the client's, the handler the
  registry resolves runs exactly once on the request's bytes, its state change is the call's only
  one, and the client gets its response bytes unchanged, or its error as the client's view of it,
  or the unknown-method error; the connection stays cached.
\<close>

theorem unary_call_end_to_end:
  assumes L: "leb128_codec L" and R: "quic_recv R content ended" and S: "quic_send T written closed healthy"
    and W: "postcard_codec W"
    and name: "rust_str name" "length name \<le> MAX_METHOD_NAME_LEN"
    and frame: "build_unary_request_frame L name request = Inr frame"
      "length frame \<le> RPC_STREAM_READ_LIMIT + 1"
    and client: "net_open N peer ALPN_NERW_RPC_1_0_0 n = (Inr (t, r), n1)" "healthy t" "written t = []"
    and request: "content rs = written (snd (unary_exchange R T W frame t r))" "ended rs = None"
    and server: "healthy ts" "written ts = []"
      "handle_inbound_substream L R T C W M dbg dbgf run run_s registry env ts rs w = Some (ts', w')"
    and outcome: "call_outcome run registry env name request w = (Some reply, w1)"
    and reply: "reply_bytes W dbg reply = Some bs" "length bs \<le> RPC_RESPONSE_READ_LIMIT"
    and response: "content r = written ts'" "ended r = None"
  shows "call L R T W N peer name request n = (map_sum (client_view dbg) id reply, n1) \<and> w' = w1"
proof -
  note ex = unary_request_written [OF S client(2,3), of R W frame r]
  with request(1) have "content rs = frame" by simp
  from unary_request_served [OF L R S name frame this request(2) server(1,2) outcome reply(1),
      of C M dbgf run_s] server(3)
  have s: "written ts' = bs" "w' = w1" by auto
  with response reply(2) quic_recv.to_end_ok [OF R, of r RPC_RESPONSE_READ_LIMIT] obtain r2 where
    "rx_to_end R r RPC_RESPONSE_READ_LIMIT = (Inr bs, r2)" by auto
  moreover have "decode_response_frame W bs = map_sum (client_view dbg) id reply"
    by (rule decode_reply [OF W reply(1)])
  moreover obtain x t' where x: "unary_exchange R T W frame t r = (x, t')"
    by (cases "unary_exchange R T W frame t r")
  ultimately have "x = map_sum (client_view dbg) id reply" using ex by simp
  with frame(1) client(1) s(2) x show ?thesis
    by (cases reply) (simp_all add: call_def call_inner_def client_view_no_io)
qed

theorem unary_call_end_to_end_witness:
  "\<exists>ts'. handle_inbound_substream leb_ref buf_recv buf_send ref_codecs pc_wire_error_ref list_chan id
       (\<lambda>_. ''frame'') demo_run (\<lambda>h ctx items n. ((items, Inr (Inr ())), Suc n)) demo_registry demo_env
       tx_new (rx_of ([0x00, 10] @ str_bytes ''a@1/i/echo'' @ [9])) (0 :: nat) = Some (ts', 1) \<and>
     call leb_ref buf_recv buf_send pc_wire_error_ref demo_net [] ''a@1/i/echo'' [9]
       ((tx_new, rx_of (tb_out ts')), 0) = (Inr [9], ((tx_new, rx_of (tb_out ts')), 0))"
proof -
  let ?serve = "handle_inbound_substream leb_ref buf_recv buf_send ref_codecs pc_wire_error_ref list_chan id
       (\<lambda>_. ''frame'') demo_run (\<lambda>h ctx items n. ((items, Inr (Inr ())), Suc n)) demo_registry demo_env
       tx_new (rx_of demo_frame) (0 :: nat)"
  have "\<exists>ts' w'. ?serve = Some (ts', w')"
    by (rule substream_returns [OF buf_rx.quic_recv_axioms])
  then obtain ts' w' where serve: "?serve = Some (ts', w')" by blast
  have tx: "tx_healthy tx_new" "tb_out tx_new = []" by (simp_all add: tx_new_def tx_healthy_def)
  have "call leb_ref buf_recv buf_send pc_wire_error_ref demo_net [] ''a@1/i/echo'' [9]
       ((tx_new, rx_of (tb_out ts')), 0) =
     (map_sum (client_view id) id (Inr [9]), ((tx_new, rx_of (tb_out ts')), 0)) \<and> w' = Suc 0"
  proof (rule unary_call_end_to_end [OF lr.leb128_codec_axioms buf_rx.quic_recv_axioms
        buf_tx.quic_send_axioms pwe.postcard_codec_axioms demo_name _ demo_request _ _ tx _ _ tx serve demo_outcome demo_reply])
    show "rb_data (rx_of demo_frame) = tb_out (snd (unary_exchange buf_recv buf_send pc_wire_error_ref demo_frame
        tx_new (rx_of (tb_out ts'))))"
      by (simp add: unary_request_written [OF buf_tx.quic_send_axioms tx, THEN conjunct1])
  qed (simp_all add: MAX_METHOD_NAME_LEN_def RPC_STREAM_READ_LIMIT_def RPC_RESPONSE_READ_LIMIT_def
      demo_net_def)
  with serve show ?thesis by (intro exI [of _ ts']) simp
qed

lemma unary_stream_served:
  assumes L: "leb128_codec L" and R: "quic_recv R content ended" and S: "quic_send T written closed healthy"
    and W: "postcard_codec W"
    and stream: "carries_request L content ended written healthy name request (snd task)"
    and task: "stream_task (handle_inbound_substream L R T C W M dbg dbgf run run_s registry) task w = Some (send', w')"
  shows "reply_sent W dbg written (fst (call_outcome run registry (stream_env task) name request w)) (fst (snd task)) send'"
proof -
  obtain c send recv env where t: "task = (c, send, recv, env)" by (metis prod_cases4)
  from stream obtain frame where
    frame: "build_unary_request_frame L name request = Inr frame" "length frame \<le> RPC_STREAM_READ_LIMIT + 1" and
    r: "content recv = frame" "ended recv = None" and s: "healthy send" "written send = []" and
    name: "rust_str name" "length name \<le> MAX_METHOD_NAME_LEN"
    by (auto simp: carries_request_def t split: sum.splits)
  from task have h: "handle_inbound_substream L R T C W M dbg dbgf run run_s registry (stream_env task) send recv w =
      Some (send', w')" by (simp add: stream_task_def t)
  obtain outcome w1 where o: "call_outcome run registry (stream_env task) name request w = (outcome, w1)"
    by (cases "call_outcome run registry (stream_env task) name request w")
  show ?thesis
  proof (cases outcome)
    case None
    with o frame(2) have "handle_inbound_substream L R T C W M dbg dbgf run run_s registry (stream_env task) send recv w = Some (send, w1)"
      by (intro unary_request_unanswered [OF L R name frame(1) r]) simp
    with h None o show ?thesis by (simp add: reply_sent_def t)
  next
    case (Some reply)
    show ?thesis
    proof (cases "reply_bytes W dbg reply")
      case (Some bs)
      from o \<open>outcome = Some reply\<close> have "call_outcome run registry (stream_env task) name request w = (Some reply, w1)"
        by simp
      then have "\<exists>send1. handle_inbound_substream L R T C W M dbg dbgf run run_s registry (stream_env task) send recv w =
          Some (send1, w1) \<and> written send1 = bs"
        by (rule unary_request_served [OF L R S name frame r s _ Some])
      with h have "written send' = bs" by simp
      with Some o \<open>outcome = Some reply\<close> decode_reply [OF W Some] show ?thesis by (simp add: reply_sent_def)
    qed (simp add: reply_sent_def o \<open>outcome = Some reply\<close>)
  qed
qed

text \<open>
  C3. A server at work. In every run of the server, with connections, streams, registrations and failures in any
  order, each finished stream was accepted and was handled once, on the state the streams finished
  before it have left, and the handling returned. If its peer had sent a unary request within the
  limits, the reply on it is that of its own call, and the client decodes the handler's response or
  its view of the error. When the configuration allows at least one stream, all accepted streams can be
  finished in this way from every reachable state.
\<close>

theorem server_answers_every_stream:
  assumes L: "leb128_codec L" and R: "quic_recv R content ended" and S: "quic_send T written closed healthy"
    and W: "postcard_codec W" and run: "sys_run H (system_init H config) es s"
  shows "\<exists>sends w'.
    serve_streams (handle_inbound_substream L R T C W M dbg dbgf run_u run_s registry) (finished_streams es) w = Some (sends, w') \<and>
    length sends = length (finished_streams es) \<and> mset (finished_streams es) \<subseteq># accepted_streams es \<and>
    (\<forall>i < length sends. \<forall>name request.
      carries_request L content ended written healthy name request (snd (finished_streams es ! i)) \<longrightarrow>
      (\<exists>before w0.
        serve_streams (handle_inbound_substream L R T C W M dbg dbgf run_u run_s registry) (take i (finished_streams es)) w =
          Some (before, w0) \<and>
        reply_sent W dbg written
          (fst (call_outcome run_u registry (stream_env (finished_streams es ! i)) name request w0))
          (fst (snd (finished_streams es ! i))) (sends ! i))) \<and>
    (0 < max_concurrent_streams config \<longrightarrow>
      (\<exists>es' s'. sys_run H (system_init H config) (es @ es') s' \<and> accepted_streams es' = {#} \<and>
        mset (finished_streams (es @ es')) = accepted_streams es))"
proof -
  let ?H = "handle_inbound_substream L R T C W M dbg dbgf run_u run_s registry"
  let ?done = "finished_streams es"
  have "\<exists>t' w'. ?H env t r w = Some (t', w')" for env t r w by (rule substream_returns [OF R])
  from serve_streams_returns [of ?H, OF this] obtain sends w' where
    sends: "serve_streams ?H ?done w = Some (sends, w')" "length sends = length ?done" by blast
  have replies: "\<exists>before w0. serve_streams ?H (take i ?done) w = Some (before, w0) \<and>
      reply_sent W dbg written (fst (call_outcome run_u registry (stream_env (?done ! i)) name request w0))
        (fst (snd (?done ! i))) (sends ! i)"
    if "i < length sends" "carries_request L content ended written healthy name request (snd (?done ! i))"
    for i name request
  proof -
    from serve_streams_nth [OF sends(1), of i] that(1) sends(2) obtain before w0 w1 where
      "serve_streams ?H (take i ?done) w = Some (before, w0)" "stream_task ?H (?done ! i) w0 = Some (sends ! i, w1)"
      by auto
    with unary_stream_served [OF L R S W that(2) this(2)] show ?thesis by blast
  qed
  note inv = sys_run_inv [OF run refl] and fin = sys_run_done [OF run refl]
  have "accepted_streams es = mset (po_waiting (sy_streams s)) + po_running (sy_streams s) + mset ?done"
    using inv fin by (auto simp: sys_inv_def pool_inv_def pool_new_def split: if_splits)
  then have accepted: "mset ?done \<subseteq># accepted_streams es" by simp
  have drain: "\<exists>es' s'. sys_run H (system_init H config) (es @ es') s' \<and> accepted_streams es' = {#} \<and>
      mset (finished_streams (es @ es')) = accepted_streams es" if "0 < max_concurrent_streams config"
  proof -
    from streams_can_finish [OF run that] obtain es' s' where
      es': "sys_run H s es' s'" "accepted_streams es' = {#}" "po_done (sy_streams s') = accepted_streams es" by blast
    from sys_run_append [OF es'(1) run] have "sys_run H (system_init H config) (es @ es') s'" .
    with sys_run_done [OF this refl] es'(2,3) show ?thesis by auto
  qed
  show ?thesis
  proof (rule exI [of _ sends], rule exI [of _ w'], intro conjI allI impI)
    show "serve_streams ?H ?done w = Some (sends, w')" "length sends = length ?done" by (fact sends)+
  qed (rule accepted replies drain; assumption?)+
qed

theorem server_answers_every_stream_witness:
  "\<exists>es s t' n. sys_run hm_ops (system_init hm_ops config_default :: (tx_buf, rx_buf) inbound_stream demo_system)
        (demo_arrivals demo_stream @ es) s \<and>
      serve_streams (handle_inbound_substream leb_ref buf_recv buf_send ref_codecs pc_wire_error_ref list_chan id
          (\<lambda>_. ''frame'') demo_run (\<lambda>h ctx items n. ((items, Inr (Inr ())), Suc n)) demo_registry)
        (finished_streams (demo_arrivals demo_stream @ es)) (0 :: nat) = Some ([t'], n) \<and>
      tb_out t' = [0x01, 9] \<and> decode_response_frame pc_wire_error_ref (tb_out t') = Inr [9]"
proof -
  let ?run_s = "\<lambda>h ctx items n. ((items, Inr (Inr ())), Suc n)"
  let ?H = "handle_inbound_substream leb_ref buf_recv buf_send ref_codecs pc_wire_error_ref list_chan id
          (\<lambda>_. ''frame'') demo_run ?run_s demo_registry"
  let ?task = "(1 :: u64, demo_stream)"
  note th = server_answers_every_stream [OF lr.leb128_codec_axioms buf_rx.quic_recv_axioms buf_tx.quic_send_axioms
      pwe.postcard_codec_axioms, where C = ref_codecs and M = list_chan and dbg = id and dbgf = "\<lambda>_. ''frame''"
      and run_u = demo_run and run_s = ?run_s and registry = demo_registry and w = "0 :: nat"]
  have pos: "0 < max_concurrent_connections config_default" "0 < max_concurrent_streams config_default"
    by (simp_all add: config_default_def DEFAULT_MAX_CONCURRENT_CONNECTIONS_def DEFAULT_MAX_CONCURRENT_STREAMS_def)
  from demo_first_stream [OF pos(1), of demo_stream] obtain s where
    s: "sys_run hm_ops (system_init hm_ops config_default) (demo_arrivals demo_stream) s" by blast
  from th [OF s] pos(2) obtain es s' where
    s': "sys_run hm_ops (system_init hm_ops config_default) (demo_arrivals demo_stream @ es) s'"
      "mset (finished_streams (demo_arrivals demo_stream @ es)) = {#?task#}" by auto
  then have fin: "finished_streams (demo_arrivals demo_stream @ es) = [?task]" by simp
  from th [OF s'(1), unfolded fin] obtain sends n where
    sends: "serve_streams ?H [?task] 0 = Some (sends, n)" "length sends = length [?task]" and
    all: "\<forall>i < length sends. \<forall>name request.
      carries_request leb_ref rb_data rb_end tb_out tx_healthy name request (snd ([?task] ! i)) \<longrightarrow>
      (\<exists>before w0. serve_streams ?H (take i [?task]) 0 = Some (before, w0) \<and> reply_sent pc_wire_error_ref id tb_out
        (fst (call_outcome demo_run demo_registry (stream_env ([?task] ! i)) name request w0))
        (fst (snd ([?task] ! i))) (sends ! i))"
    by blast
  have "0 < length sends" using sends(2) by simp
  from all [rule_format, OF this, of "''a@1/i/echo''" "[9]"] demo_carries obtain w0 where
    "reply_sent pc_wire_error_ref id tb_out
        (fst (call_outcome demo_run demo_registry (stream_env ?task) ''a@1/i/echo'' [9] w0)) tx_new (sends ! 0)" by auto
  then have "tb_out (sends ! 0) = [0x01, 9]" "decode_response_frame pc_wire_error_ref (tb_out (sends ! 0)) = Inr [9]"
    unfolding demo_outcome reply_sent_def fst_conv option.case demo_reply map_sum.simps id_apply by blast+
  moreover from sends(2) have "sends = [sends ! 0]" by (cases sends) simp_all
  ultimately show ?thesis using s'(1) sends(1) fin
    by (intro exI [of _ es] exI [of _ s'] exI [of _ "sends ! 0"] exI [of _ n]) simp
qed

text \<open>
  C38. The two read limits are equal, but a response frame is one byte longer than the response: a
  response of 8 MiB is sent as a success and the handler has run, yet the client reports a failed
  read and drops the healthy connection.
\<close>

theorem largest_response_is_lost:
  assumes L: "leb128_codec L" and R: "quic_recv R content ended" and S: "quic_send T written closed healthy"
    and W: "postcard_codec W"
    and name: "rust_str name" "length name \<le> MAX_METHOD_NAME_LEN"
    and frame: "build_unary_request_frame L name request = Inr frame"
      "length frame \<le> RPC_STREAM_READ_LIMIT + 1"
    and client: "net_open N peer ALPN_NERW_RPC_1_0_0 n = (Inr (t, r), n1)" "healthy t" "written t = []"
    and request: "content rs = written (snd (unary_exchange R T W frame t r))" "ended rs = None"
    and server: "healthy ts" "written ts = []"
      "handle_inbound_substream L R T C W M dbg dbgf run run_s registry env ts rs w = Some (ts', w')"
    and outcome: "call_outcome run registry env name request w = (Some (Inr resp), w1)"
      "length resp = RPC_STREAM_READ_LIMIT"
    and response: "content r = written ts'"
  shows "written ts' = OPCODE_UNARY_RESPONSE # resp \<and> w' = w1 \<and>
    (\<exists>m. call L R T W N peer name request n =
      (Inl (TransportRead m), net_evict N peer ALPN_NERW_RPC_1_0_0 n1))"
proof -
  have "content rs = frame"
    using unary_request_written [OF S client(2,3), of R W frame r] request(1) by simp
  moreover have "reply_bytes W dbg (Inr resp) = Some (OPCODE_UNARY_RESPONSE # resp)"
    by (simp add: reply_bytes_def)
  ultimately have s: "written ts' = OPCODE_UNARY_RESPONSE # resp" "w' = w1"
    using unary_request_served [OF L R S name frame _ request(2) server(1,2) outcome(1),
        of W dbg _ C M dbgf run_s] server(3) by fastforce+
  then have "RPC_RESPONSE_READ_LIMIT < length (content r)"
    using response outcome(2) by (simp add: RPC_STREAM_READ_LIMIT_def RPC_RESPONSE_READ_LIMIT_def)
  moreover have "length name < 2 ^ 64" using name(2) by (simp add: MAX_METHOD_NAME_LEN_def)
  ultimately show ?thesis
    using call_evicts_iff_stream_failed [OF L R S W _ client(1,2), of name request] s by simp
qed

theorem largest_response_is_lost_witness:
  "let big = replicate (8 * 1024 * 1024) (0 :: u8); frame = [0x00, 10] @ str_bytes ''a@1/i/echo'' @ [9] in
   \<exists>ts' m. handle_inbound_substream leb_ref buf_recv buf_send ref_codecs pc_wire_error_ref list_chan id
       (\<lambda>_. ''frame'') (\<lambda>h ctx p n. (Some (Inr big), Suc n)) (\<lambda>h ctx items n. ((items, Inr (Inr ())), Suc n))
       demo_registry demo_env tx_new (rx_of frame) (0 :: nat) = Some (ts', 1) \<and>
     tb_out ts' = 0x01 # big \<and>
     call leb_ref buf_recv buf_send pc_wire_error_ref demo_net [] ''a@1/i/echo'' [9]
       ((tx_new, rx_of (tb_out ts')), 0) = (Inl (TransportRead m), ((tx_new, rx_of (tb_out ts')), 1))"
proof -
  define big where "big = replicate (8 * 1024 * 1024) (0 :: u8)"
  let ?frame = "[0x00, 10] @ str_bytes ''a@1/i/echo'' @ [9]"
  let ?run = "\<lambda>h ctx p n. (Some (Inr big), Suc n)"
  let ?serve = "handle_inbound_substream leb_ref buf_recv buf_send ref_codecs pc_wire_error_ref list_chan id
       (\<lambda>_. ''frame'') ?run (\<lambda>h ctx items n. ((items, Inr (Inr ())), Suc n)) demo_registry demo_env
       tx_new (rx_of ?frame) (0 :: nat)"
  have "\<exists>ts' w'. ?serve = Some (ts', w')"
    by (rule substream_returns [OF buf_rx.quic_recv_axioms])
  then obtain ts' w' where serve: "?serve = Some (ts', w')" by blast
  have tx: "tx_healthy tx_new" "tb_out tx_new = []" by (simp_all add: tx_new_def tx_healthy_def)
  have frame: "build_unary_request_frame leb_ref ''a@1/i/echo'' [9] = Inr ?frame"
    by (simp add: lr.request_frame_eq opcode_defs uleb_small)
  have outcome: "call_outcome ?run demo_registry demo_env ''a@1/i/echo'' [9] 0 = (Some (Inr big), 1)"
    by (simp add: call_outcome_def lookup_def lookup_entry_def demo_registry_def hm_get_def)
  have big: "length big = RPC_STREAM_READ_LIMIT" by (simp add: big_def RPC_STREAM_READ_LIMIT_def)
  have "tb_out ts' = OPCODE_UNARY_RESPONSE # big \<and> w' = 1 \<and>
    (\<exists>m. call leb_ref buf_recv buf_send pc_wire_error_ref demo_net [] ''a@1/i/echo'' [9]
       ((tx_new, rx_of (tb_out ts')), 0) =
       (Inl (TransportRead m), net_evict demo_net [] ALPN_NERW_RPC_1_0_0 ((tx_new, rx_of (tb_out ts')), 0)))"
  proof (rule largest_response_is_lost [OF lr.leb128_codec_axioms buf_rx.quic_recv_axioms
        buf_tx.quic_send_axioms pwe.postcard_codec_axioms _ _ frame _ _ tx _ _ tx serve outcome big])
    show "rust_str ''a@1/i/echo''" by code_simp
    show "rb_data (rx_of ?frame) = tb_out (snd (unary_exchange buf_recv buf_send pc_wire_error_ref ?frame
        tx_new (rx_of (tb_out ts'))))"
      by (simp add: unary_request_written [OF buf_tx.quic_send_axioms tx, THEN conjunct1])
  qed (simp_all add: MAX_METHOD_NAME_LEN_def RPC_STREAM_READ_LIMIT_def demo_net_def)
  with serve show ?thesis
    unfolding Let_def big_def [symmetric]
    by (auto simp: demo_net_def opcode_defs)
qed

text \<open>
  C23. A unary call the server does not answer. A handler that panics and a request over the server's
  limit get no reply frame: the server writes nothing. The client is not told the cause: when the dropped
  stream ends cleanly it reports an empty response frame and keeps the connection, and when the stream
  is reset it reports a failed read and drops the connection.
\<close>

theorem unanswered_call_as_seen_by_client:
  assumes L: "leb128_codec L" and R: "quic_recv R content ended" and S: "quic_send T written closed healthy"
    and W: "postcard_codec W"
    and name: "rust_str name" "length name \<le> MAX_METHOD_NAME_LEN"
    and frame: "build_unary_request_frame L name request = Inr frame"
    and client: "net_open N peer ALPN_NERW_RPC_1_0_0 n = (Inr (t, r), n1)" "healthy t" "written t = []"
    and request: "content rs = written (snd (unary_exchange R T W frame t r))" "ended rs = None"
    and silent: "RPC_STREAM_READ_LIMIT + 1 < length frame \<and> w1 = w \<or>
      length frame \<le> RPC_STREAM_READ_LIMIT + 1 \<and> call_outcome run registry env name request w = (None, w1)"
    and server: "written ts = []"
      "handle_inbound_substream L R T C W M dbg dbgf run run_s registry env ts rs w = Some (ts', w')"
    and response: "content r = written ts'"
  shows "written ts' = [] \<and> w' = w1 \<and>
    (if ended r = None
     then call L R T W N peer name request n = (Inl (MalformedFrame ''empty response frame''), n1)
     else \<exists>m. call L R T W N peer name request n =
       (Inl (TransportRead m), net_evict N peer ALPN_NERW_RPC_1_0_0 n1))"
proof -
  have "content rs = frame" using unary_request_written [OF S client(2,3), of R W frame r] request(1) by simp
  from unary_request_unanswered [OF L R name frame this request(2) silent, of T C W M dbg dbgf run_s ts] server
  have s: "ts' = ts" "w' = w1" by simp_all
  then have r: "content r = []" using response server(1) by simp
  have "length name < 2 ^ 64" using name(2) by (simp add: MAX_METHOD_NAME_LEN_def)
  from call_evicts_iff_stream_failed [OF L R S W this client(1,2), of request] r s server(1) show ?thesis
    by (cases "ended r") (simp_all add: decode_response_frame_def)
qed

text \<open>The handler panics, once with a clean end of its dropped stream and once with a reset.\<close>

theorem unanswered_call_as_seen_by_client_witness:
  "(\<exists>ts'. handle_inbound_substream leb_ref buf_recv buf_send ref_codecs pc_wire_error_ref list_chan id
       (\<lambda>_. ''frame'') (\<lambda>h ctx p n. (None, Suc n)) (\<lambda>h ctx items n. ((items, Inr (Inr ())), Suc n)) demo_registry
       demo_env tx_new (rx_of ([0x00, 10] @ str_bytes ''a@1/i/echo'' @ [9])) (0 :: nat) = Some (ts', 1) \<and> tb_out ts' = []) \<and>
   call leb_ref buf_recv buf_send pc_wire_error_ref demo_net [] ''a@1/i/echo'' [9] ((tx_new, rx_of []), 0) =
     (Inl (MalformedFrame ''empty response frame''), ((tx_new, rx_of []), 0)) \<and>
   (let r = \<lparr>rb_data = [], rb_end = Some ClosedStream\<rparr> in
    \<exists>m. call leb_ref buf_recv buf_send pc_wire_error_ref demo_net [] ''a@1/i/echo'' [9] ((tx_new, r), 0) =
     (Inl (TransportRead m), ((tx_new, r), 1)))"
proof -
  let ?frame = "[0x00, 10] @ str_bytes ''a@1/i/echo'' @ [9]"
  let ?run = "\<lambda>h ctx p n. (None, Suc n)"
  let ?serve = "handle_inbound_substream leb_ref buf_recv buf_send ref_codecs pc_wire_error_ref list_chan id
       (\<lambda>_. ''frame'') ?run (\<lambda>h ctx items n. ((items, Inr (Inr ())), Suc n)) demo_registry demo_env
       tx_new (rx_of ?frame) (0 :: nat)"
  have "\<exists>ts' w'. ?serve = Some (ts', w')"
    by (rule substream_returns [OF buf_rx.quic_recv_axioms])
  then obtain ts' w' where serve: "?serve = Some (ts', w')" by blast
  have frame: "build_unary_request_frame leb_ref ''a@1/i/echo'' [9] = Inr ?frame"
    by (simp add: lr.request_frame_eq opcode_defs uleb_small)
  have name: "rust_str ''a@1/i/echo''" "length ''a@1/i/echo'' \<le> MAX_METHOD_NAME_LEN"
    by code_simp (simp add: MAX_METHOD_NAME_LEN_def)
  have silent: "RPC_STREAM_READ_LIMIT + 1 < length ?frame \<and> (1 :: nat) = 0 \<or>
      length ?frame \<le> RPC_STREAM_READ_LIMIT + 1 \<and> call_outcome ?run demo_registry demo_env ''a@1/i/echo'' [9] 0 = (None, 1)"
    by (simp add: call_outcome_def lookup_def lookup_entry_def demo_registry_def hm_get_def RPC_STREAM_READ_LIMIT_def)
  have sent: "rb_data (rx_of ?frame) = tb_out (snd (unary_exchange buf_recv buf_send pc_wire_error_ref ?frame tx_new r))" for r
    by (simp add: unary_request_written [OF buf_tx.quic_send_axioms demo_tx(1,2), THEN conjunct1])
  have "net_open demo_net [] ALPN_NERW_RPC_1_0_0 ((tx_new, r), 0) = (Inr (tx_new, r), ((tx_new, r), 0))" for r
    by (simp add: demo_net_def)
  note th = unanswered_call_as_seen_by_client [OF demo_tx(3) buf_rx.quic_recv_axioms buf_tx.quic_send_axioms
      pwe.postcard_codec_axioms name frame this demo_tx(1,2) sent _ silent demo_tx(2) serve]
  from th [of "rx_of (tb_out ts')"] have "tb_out ts' = []" "w' = 1" by simp_all
  with th [of "rx_of []"] th [of "\<lparr>rb_data = [], rb_end = Some ClosedStream\<rparr>"] serve show ?thesis
    by (simp add: Let_def demo_net_def)
qed

subsection \<open>Streaming calls\<close>

text \<open>What the client has sent when it waits for the ack, and how it reads the ack.\<close>

lemma handshake_send_half:
  "write_open_request L T C t req = (x, t1) \<Longrightarrow> fst (snd (open_handshake L R T C dbgo req t r)) = t1"
  by (auto simp: open_handshake_def split: sum.split prod.split option.split streaming_frame.split
      streaming_open_status.split)

lemma handshake_request_written:
  assumes L: "leb128_codec L" and S: "quic_send T written closed healthy" and t: "healthy t" "written t = []"
    and req: "frame_ok C (FOpenRequest req)"
  obtains t1 where "write_open_request L T C t req = (Inr (), t1)" "healthy t1"
    "written t1 = the (frame_bytes C (FOpenRequest req))"
  using open_ack_written [OF L S t(1) req] t(2) by auto

lemma ack_read:
  assumes R: "quic_recv R content ended" and C: "codecs_ok C" and ack: "frame_ok C (FOpenResponse ack)"
    and r: "content r = the (frame_bytes C (FOpenResponse ack)) @ rest"
  obtains r1 where "read_streaming_frame R C r = (Inr (Some (FOpenResponse ack)), r1)" "content r1 = rest"
    "ended r1 = ended r"
proof -
  from ack obtain bs where bs: "frame_bytes C (FOpenResponse ack) = Some bs"
    "payload_within MAX_STREAMING_PAYLOAD_LEN C (FOpenResponse ack)" by (rule frame_okE)
  with r have "content r = bs @ rest" by simp
  from quic_recv.read_frame_ok [OF R C bs this] that show thesis by blast
qed

text \<open>
  C22. Opening a streaming method the server does not have, or has only as a unary method: the client
  gets the unknown-method error with the name it asked for, and no handler runs.
\<close>

theorem unknown_streaming_method:
  assumes L: "leb128_codec L" and R: "quic_recv R content ended" and C: "codecs_ok C"
    and S: "quic_send T written closed healthy"
    and client: "net_open N peer ALPN_NERW_RPC_1_0_0 n = (Inr (t, r), n1)" "healthy t" "written t = []"
    and req: "req = \<lparr>oreq_method_name = name, oreq_request_id = counter\<rparr>" "frame_ok C (FOpenRequest req)"
      "frame_ok C (open_ack registry req)"
    and none: "lookup_streaming registry name = None"
    and request: "content rs = written (fst (snd (open_handshake L R T C dbgo req t r)))"
    and server: "healthy ts" "written ts = []"
      "handle_inbound_substream L R T C W M dbg dbgf run run_s registry env ts rs w = Some (ts', w')"
    and response: "content r = written ts'"
  shows "call_streaming L R T C dbgo N peer name (n, counter) = (Inl (UnknownMethod name), n1, counter + 1) \<and>
    w' = w"
proof -
  from handshake_request_written [OF L S client(2,3) req(2)] obtain t1 where
    t1: "write_open_request L T C t req = (Inr (), t1)"
    "written t1 = the (frame_bytes C (FOpenRequest req))" .
  have "content rs = the (frame_bytes C (FOpenRequest req)) @ []"
    using request t1(2) handshake_send_half [OF t1(1), of R dbgo r] by simp
  moreover have none': "lookup_streaming registry (oreq_method_name req) = None" using none req(1) by simp
  ultimately have s: "written ts' = the (frame_bytes C (open_ack registry req))" "w' = w"
    using streaming_call_refused [OF L R C S server(1,2) req(2) _ _ req(3),
        of rs "[]" W M dbg dbgf run run_s env w] server(3) by auto
  define ack where "ack = \<lparr>oresp_status = StatusErr (''unknown streaming method: '' @ name), oresp_request_id = counter\<rparr>"
  have ack: "open_ack registry req = FOpenResponse ack"
    using none req(1) by (simp add: open_ack_def ack_def)
  have "content r = the (frame_bytes C (FOpenResponse ack)) @ []" using response s(1) ack by simp
  from ack_read [OF R C req(3) [unfolded ack] this] obtain r1 where
    "read_streaming_frame R C r = (Inr (Some (FOpenResponse ack)), r1)" .
  then have "open_handshake L R T C dbgo req t r = (Inl (UnknownMethod name), t1, r1)"
    using t1(1) strip_prefix_append [of "''unknown streaming method: ''" name]
    by (simp add: open_handshake_def ack_def)
  with client(1) req(1) s(2) show ?thesis by (simp add: call_streaming_def)
qed

text \<open>What a client has sent when its request pump has returned.\<close>

lemma client_request_bytes:
  assumes L: "leb128_codec L" and S: "quic_send T written closed healthy"
    and client: "healthy t" "written t = []" "frame_ok C (FOpenRequest req)"
      "list_all (frame_ok C) (map FRequestChunk chunks)"
      "open_handshake L R T C dbgo req t r = (res, t1, r1)"
  shows "written (pump_outbound_requests L T t1 chunks) =
    frames_bytes C (FOpenRequest req # map FRequestChunk chunks @ [FRequestEnd])"
proof -
  from handshake_request_written [OF L S client(1-3)] obtain t1' where
    t1': "write_open_request L T C t req = (Inr (), t1')" "healthy t1'"
    "written t1' = the (frame_bytes C (FOpenRequest req))" .
  have t1: "t1 = t1'" using client(5) handshake_send_half [OF t1'(1), of R dbgo r] by simp
  let ?fs = "map FRequestChunk chunks @ [FRequestEnd]"
  have end_ok: "frame_ok C FRequestEnd" by (simp add: frame_ok_def frame_bytes_def payload_within_def)
  have fs_ok: "\<forall>f \<in> set (map FRequestChunk chunks). frame_ok C f" using client(4) by (simp add: list_all_iff)
  from quic_send.write_frames_ok [OF S L t1'(2) fs_ok] obtain t2 where
    t2: "write_frames L T C (map FRequestChunk chunks) t1' = (Inr (), t2)" "healthy t2"
    "written t2 = written t1' @ frames_bytes C (map FRequestChunk chunks)" by blast
  from open_ack_written [OF L S t2(2) end_ok] obtain t3 where
    t3: "write_frame L T C t2 FRequestEnd = (Inr (), t3)"
    "written t3 = written t2 @ the (frame_bytes C FRequestEnd)" by blast
  have "written (pump_outbound_requests L T t1 chunks) = written t3"
    using t2(1) t3(1) t1 quic_send.finish_written [OF S surjective_pairing, of t3]
    by (simp add: pump_outbound_eq [where C = C])
  then show ?thesis
    using t3(2) t2(3) t1'(3) by (simp add: frames_bytes_def)
qed

lemma streaming_call_delivers:
  assumes L: "leb128_codec L" and R: "quic_recv R content ended" and C: "codecs_ok C"
    and S: "quic_send T written closed healthy" and M: "mpsc M live"
    and client: "healthy t" "written t = []" "frame_ok C (FOpenRequest req)"
      "list_all (frame_ok C) (map FRequestChunk chunks)"
      "open_handshake L R T C dbgo req t r = (res, t1, r1)"
    and request: "content rs = written (pump_outbound_requests L T t1 chunks)" "ended rs = None"
    and server: "healthy ts" "written ts = []" "lookup_streaming registry (oreq_method_name req) = Some h"
      "run_s h (env_context env) (map Inr chunks) w = ((responses, j), w1)"
      "frame_ok C (open_ack registry req)" "list_all (frame_ok C) (response_frames dbg responses j)"
      "handle_inbound_substream L R T C W M dbg dbgf run run_s registry env ts rs w = Some (ts', w')"
    and response: "content r = written ts'" "ended r = None"
  shows "res = Inr () \<and> w' = w1 \<and>
    (\<exists>r2 c. pump_inbound_responses R C dbgf M r1 (mp_new M) = Some (r2, c) \<and>
       mp_items M c = caller_items dbg responses j)"
proof -
  let ?fs = "map FRequestChunk chunks @ [FRequestEnd]"
  have end_ok: "frame_ok C FRequestEnd" by (simp add: frame_ok_def frame_bytes_def payload_within_def)
  from handshake_request_written [OF L S client(1-3)] obtain t1' where
    t1': "write_open_request L T C t req = (Inr (), t1')" .
  have rs: "content rs = frames_bytes C (FOpenRequest req # ?fs)"
    using request(1) client_request_bytes [OF L S client] by simp
  have "list_all (frame_ok C) ?fs" using client(4) end_ok by simp
  moreover have "pump_items (request_reaction dbgf) ?fs = map Inr chunks"
    using request_items_chunks [of dbgf chunks "[]"] by simp
  ultimately have s: "written ts' = frames_bytes C (open_ack registry req # response_frames dbg responses j)"
    "w' = w1"
    using streaming_call_served [OF L R C S M server(1,2) client(3) _ rs request(2) server(3) _ server(5,6),
        of run_s env dbgf w w1 W run] server(4,7) by auto
  define ack where "ack = \<lparr>oresp_status = StatusOk, oresp_request_id = oreq_request_id req\<rparr>"
  have ack: "open_ack registry req = FOpenResponse ack" using server(3) by (simp add: open_ack_def ack_def)
  have "content r = the (frame_bytes C (FOpenResponse ack)) @ frames_bytes C (response_frames dbg responses j)"
    using response(1) s(1) ack by simp
  from ack_read [OF R C server(5) [unfolded ack] this] obtain r1' where
    r1': "read_streaming_frame R C r = (Inr (Some (FOpenResponse ack)), r1')"
    "content r1' = frames_bytes C (response_frames dbg responses j)" "ended r1' = None"
    using response(2) by auto
  then have "open_handshake L R T C dbgo req t r = (Inr (), t1', r1')"
    using t1'(1) by (simp add: open_handshake_def ack_def)
  with client(5) have "res = Inr ()" "r1 = r1'" by simp_all
  with s(2) mpsc.new_items [OF M] mpsc.new_live [OF M] response_items [of dbgf dbg responses j]
    response_pump.pump_frames [OF R M C server(6) r1'(2,3), where c = "mp_new M" and dbgf = dbgf]
  show ?thesis by auto
qed

text \<open>
  C2. A streaming call end to end, on streams that carry the bytes: the handler gets exactly the
  chunks the caller sent, in order and with a clean end; the caller gets the chunks the handler
  sent up to its first error, in order, then that error, the handler's own error, the join failure,
  or a clean end; the handler's state change is the call's only one, and every pump returns.
\<close>

theorem streaming_call_end_to_end:
  assumes L: "leb128_codec L" and R: "quic_recv R content ended" and C: "codecs_ok C"
    and S: "quic_send T written closed healthy" and M: "mpsc M live"
    and client: "healthy t" "written t = []" "frame_ok C (FOpenRequest req)"
      "list_all (frame_ok C) (map FRequestChunk chunks)"
      "open_handshake L R T C dbgo req t r = (res, t1, r1)"
    and request: "content rs = written (pump_outbound_requests L T t1 chunks)" "ended rs = None"
    and server: "healthy ts" "written ts = []" "lookup_streaming registry (oreq_method_name req) = Some h"
      "run_s h (env_context env) (map Inr chunks) w = ((responses, j), w1)"
      "frame_ok C (open_ack registry req)" "list_all (frame_ok C) (response_frames dbg responses j)"
      "handle_inbound_substream L R T C W M dbg dbgf run run_s registry env ts rs w = Some (ts', w')"
    and response: "content r = written ts'" "ended r = None"
  shows "res = Inr () \<and> w' = w1 \<and>
    (\<exists>r2 c. pump_inbound_responses R C dbgf M r1 (mp_new M) = Some (r2, c) \<and>
       mp_items M c = caller_items dbg responses j)"
  by (rule streaming_call_delivers [OF assms])

text \<open>
  Both sides joined: the server reads what the client's tasks have written and the client what the server's
  closed call has written. The items the server's pump reads are the chunks the client accepted, and
  the caller gets what the server's frames stand for.
\<close>

lemma streaming_call_joined:
  assumes L: "leb128_codec L" and R: "quic_recv R content ended" and C: "codecs_ok C"
    and S: "quic_send T written closed healthy" and M: "mpsc (M :: (item, 'c) mpsc_ops) live"
    and client: "healthy t" "written t = []" "frame_ok C (FOpenRequest req)"
      "open_handshake L R T C dbgo req t r = (res, t1, r1)"
    and client_tasks: "client_run L R T C dbgf es (client_spawn r1 t1) = Some cs" "client_done cs"
      "list_all (frame_ok C) (map FRequestChunk (cl_accepted cs))"
    and request: "content rs = written (cl_send cs)" "ended rs = None"
    and server: "healthy ts" "written ts = []" "rx_exact R rs 1 = (Inr [OPCODE_STREAMING_OPEN_REQUEST], rs1)"
      "streaming_negotiate_open L R T C registry env ts rs1 = (Some (h, env_context env), ts1, rs2)"
      "lookup_streaming registry (oreq_method_name req) = Some h" "frame_ok C (open_ack registry req)"
  shows "stream_items R C (request_reaction dbgf) rs2 = Some (map Inr (cl_accepted cs))"
    and "\<lbrakk>list_all (frame_ok C) (response_frames dbg outs j);
      ts2 = snd (tx_finish T (snd (write_frames L T C (response_frames dbg outs j) ts1)));
      content r = written ts2; ended r = None\<rbrakk> \<Longrightarrow> res = Inr () \<and> cl_taken cs = caller_items dbg outs j"
proof -
  obtain r2 c where c: "pump_inbound_responses R C dbgf M r1 (mp_new M) = Some (r2, c)"
    using response_pump.pump_returns [OF R, where C = C and dbgf = dbgf and M = M and r = r1 and c = "mp_new M"]
    by blast
  note result = client_done_result [OF client_items [OF R M c client_tasks(1)] client_tasks(2)]
  from request(1) result(2) have sent: "content rs = written (pump_outbound_requests L T t1 (cl_accepted cs))" by simp
  let ?fs = "map FRequestChunk (cl_accepted cs) @ [FRequestEnd]"
  have "content rs = frames_bytes C (FOpenRequest req # ?fs)"
    using sent client_request_bytes [OF L S client(1-3) client_tasks(3) client(4)] by simp
  from open_accepted [OF L R C S server(1,2) client(3) this request(2) server(5,6), of env]
  obtain ra rb ta where a: "rx_exact R rs (Suc 0) = (Inr [OPCODE_STREAMING_OPEN_REQUEST], ra)"
    "streaming_negotiate_open L R T C registry env ts ra = (Some (h, env_context env), ta, rb)"
    "content rb = frames_bytes C ?fs" "ended rb = None" .
  from a(1,2) server(3,4) have "rs2 = rb" by simp
  with a(3,4) have rs2: "content rs2 = frames_bytes C ?fs" "ended rs2 = None" by simp_all
  have "list_all (frame_ok C) ?fs"
    using client_tasks(3) by (simp add: frame_ok_def frame_bytes_def payload_within_def)
  from stream_items_frames [OF R C this rs2, of dbgf] request_items_chunks [of dbgf "cl_accepted cs" "[]"]
  have "the (stream_items R C (request_reaction dbgf) rs2) = map Inr (cl_accepted cs)" by simp
  with stream_items_total [OF R] show items: "stream_items R C (request_reaction dbgf) rs2 = Some (map Inr (cl_accepted cs))"
    by (metis option.sel)
  assume out: "list_all (frame_ok C) (response_frames dbg outs j)"
    and ts2: "ts2 = snd (tx_finish T (snd (write_frames L T C (response_frames dbg outs j) ts1)))"
    and response: "content r = written ts2" "ended r = None"
  let ?run_s = "\<lambda>h ctx items w. ((outs, j), w :: unit)"
  obtain rs3 q where "pump_inbound_requests R C dbgf M rs2 (mp_new M) = Some (rs3, q)"
    using request_pump.pump_returns [OF R, where C = C and dbgf = dbgf and M = M and r = rs2 and c = "mp_new M"]
    by blast
  from substream_accepted [OF server(4) this, of ?run_s] ts2 server(3)
  have serve: "handle_inbound_substream L R T C W M dbg dbgf run ?run_s registry env ts rs () = Some (ts2, ())" for W run
    by (simp add: handle_inbound_substream_def)
  have run_s: "?run_s h (env_context env) (map Inr (cl_accepted cs)) () = ((outs, j), ())" by simp
  have "res = Inr () \<and> (\<exists>r2 c. pump_inbound_responses R C dbgf M r1 (mp_new M) = Some (r2, c) \<and>
      mp_items M c = caller_items dbg outs j)"
    using streaming_call_delivers [OF L R C S M client(1-3) client_tasks(3) client(4) sent request(2)
      server(1,2,5) run_s server(6) out serve response] by blast
  with c result(1) show "res = Inr () \<and> cl_taken cs = caller_items dbg outs j" by auto
qed

text \<open>
  C4. The same with every task interleaved: however the client's tasks and its caller and, on the other
  side, the server's tasks are scheduled over their bounded channels, once the client is done and
  the server has closed the call, the caller has got exactly what the handler sends and returns
  when it is given exactly the chunks the caller's sends accepted.
\<close>

theorem streaming_call_interleaved:
  assumes L: "leb128_codec L" and R: "quic_recv R content ended" and C: "codecs_ok C"
    and S: "quic_send T written closed healthy" and M: "mpsc (M :: (item, 'c) mpsc_ops) live"
    and client: "healthy t" "written t = []" "frame_ok C (FOpenRequest req)"
      "open_handshake L R T C dbgo req t r = (res, t1, r1)"
    and client_tasks: "client_run L R T C dbgf es (client_spawn r1 t1) = Some cs" "client_done cs"
      "list_all (frame_ok C) (map FRequestChunk (cl_accepted cs))"
    and request: "content rs = written (cl_send cs)" "ended rs = None"
    and server: "healthy ts" "written ts = []" "rx_exact R rs 1 = (Inr [OPCODE_STREAMING_OPEN_REQUEST], rs1)"
      "streaming_negotiate_open L R T C registry env ts rs1 = (Some (h, env_context env), ts1, rs2)"
      "lookup_streaming registry (oreq_method_name req) = Some h" "frame_ok C (open_ack registry req)"
    and handler: "handler_run act (start h (env_context env)) (map Inr (cl_accepted cs)) True = Some (outs, j)"
      "list_all (frame_ok C) (response_frames dbg outs j)"
    and server_tasks: "tasks_run L R T C dbg dbgf act sched (call_spawn (start h (env_context env)) rs2 ts1) = Some ss"
      "ct_main ss = Closed"
    and response: "content r = written (ct_send ss)" "ended r = None"
  shows "res = Inr () \<and> cl_taken cs = caller_items dbg outs j"
proof -
  note joined = streaming_call_joined [OF L R C S M client client_tasks request server]
  from joined(1) handler(1) have "handler_run act (start h (env_context env))
      (the (stream_items R C (request_reaction dbgf) rs2)) True = Some (outs, j)" by simp
  with tasks_run_inv [OF R server_tasks(1) call_spawn_inv] server_tasks(2)
  have "ct_send ss = snd (tx_finish T (snd (write_frames L T C (response_frames dbg outs j) ts1)))"
    by (simp add: tasks_inv_def)
  from joined(2) [OF handler(2) this response] show ?thesis .
qed

text \<open>
  C5. The same for every handler, one that selects over both channels included: once the client is done and
  the server has closed the call, the caller has got exactly what was accepted from the handler, up to
  its first error, and the right ending; what the handler took are the first chunks the caller's sends
  accepted, in order, and all of them when it has seen their end.
\<close>

theorem streaming_call_any_handler:
  assumes L: "leb128_codec L" and R: "quic_recv R content ended" and C: "codecs_ok C"
    and S: "quic_send T written closed healthy" and M: "mpsc (M :: (item, 'c) mpsc_ops) live"
    and client: "healthy t" "written t = []" "frame_ok C (FOpenRequest req)"
      "open_handshake L R T C dbgo req t r = (res, t1, r1)"
    and client_tasks: "client_run L R T C dbgf es (client_spawn r1 t1) = Some cs" "client_done cs"
      "list_all (frame_ok C) (map FRequestChunk (cl_accepted cs))"
    and request: "content rs = written (cl_send cs)" "ended rs = None"
    and server: "healthy ts" "written ts = []" "rx_exact R rs 1 = (Inr [OPCODE_STREAMING_OPEN_REQUEST], rs1)"
      "streaming_negotiate_open L R T C registry env ts rs1 = (Some (h, env_context env), ts1, rs2)"
      "lookup_streaming registry (oreq_method_name req) = Some h" "frame_ok C (open_ack registry req)"
    and server_tasks: "any_run L R T C dbg dbgf sched (any_spawn rs2 ts1) = Some ss"
      "ct_main (ac_tasks ss) = Closed" "ct_handler (ac_tasks ss) = Joined j"
      "list_all (frame_ok C) (response_frames dbg (ac_sent ss) j)"
    and response: "content r = written (ct_send (ac_tasks ss))" "ended r = None"
  shows "res = Inr () \<and> cl_taken cs = caller_items dbg (ac_sent ss) j \<and>
    prefix (ac_taken ss) (map Inr (cl_accepted cs)) \<and>
    (ac_end_seen ss \<longrightarrow> ac_taken ss = map Inr (cl_accepted cs))"
proof -
  note joined = streaming_call_joined [OF L R C S M client client_tasks request server]
  note inv = any_spawn_reaches [OF R server_tasks(1)]
  from closed_call_wire [OF inv(2) server_tasks(2)] server_tasks(3)
  have "ct_send (ac_tasks ss) =
      snd (tx_finish T (snd (write_frames L T C (response_frames dbg (ac_sent ss) j) ts1)))" by auto
  from joined(2) [OF server_tasks(4) this response] inv(1) joined(1) show ?thesis
    by (auto simp: requests_inv_eq append_prefixD)
qed

subsection \<open>One concrete streaming call\<close>

abbreviation demo_serve where
  "demo_serve rs \<equiv> handle_inbound_substream leb_ref buf_recv buf_send ref_codecs pc_wire_error_ref list_chan id
     (\<lambda>_. ''frame'') demo_run (\<lambda>h ctx items n. ((items, Inr (Inr ())), Suc n)) demo_registry demo_env
     tx_new rs (0 :: nat)"

theorem unknown_streaming_method_witness:
  "\<exists>ts'. demo_serve (rx_of (the (frame_bytes ref_codecs (FOpenRequest demo_missing)))) = Some (ts', 0) \<and>
     call_streaming leb_ref buf_recv buf_send ref_codecs (\<lambda>_. ''frame'') demo_net [] ''a@1/i/echo''
       (((tx_new, rx_of (tb_out ts')), 0), 7) =
     (Inl (UnknownMethod ''a@1/i/echo''), ((tx_new, rx_of (tb_out ts')), 0), 8)"
proof -
  let ?rs = "rx_of (the (frame_bytes ref_codecs (FOpenRequest demo_missing)))"
  have "\<exists>ts' w'. demo_serve ?rs = Some (ts', w')"
    by (rule substream_returns [OF buf_rx.quic_recv_axioms])
  then obtain ts' w' where serve: "demo_serve ?rs = Some (ts', w')" by blast
  from handshake_request_written [OF demo_tx(3) buf_tx.quic_send_axioms demo_tx(1,2) demo_frames_ok(2)]
  obtain t1 where t1: "write_open_request leb_ref buf_send ref_codecs tx_new demo_missing = (Inr (), t1)"
    "tb_out t1 = the (frame_bytes ref_codecs (FOpenRequest demo_missing))" .
  have "call_streaming leb_ref buf_recv buf_send ref_codecs (\<lambda>_. ''frame'') demo_net [] ''a@1/i/echo''
       (((tx_new, rx_of (tb_out ts')), 0), 7) =
     (Inl (UnknownMethod ''a@1/i/echo''), ((tx_new, rx_of (tb_out ts')), 0), 7 + 1) \<and> w' = 0"
  proof (rule unknown_streaming_method [OF demo_tx(3) buf_rx.quic_recv_axioms ref_codecs_ok
        buf_tx.quic_send_axioms _ demo_tx(1,2) demo_missing_def demo_frames_ok(2,4) _ _ demo_tx(1,2) serve])
    show "lookup_streaming demo_registry ''a@1/i/echo'' = None" by code_simp
    show "rb_data ?rs = tb_out (fst (snd (open_handshake leb_ref buf_recv buf_send ref_codecs
        (\<lambda>_. ''frame'') demo_missing tx_new (rx_of (tb_out ts')))))"
      using t1(2) handshake_send_half [OF t1(1), of buf_recv "\<lambda>_. ''frame''" "rx_of (tb_out ts')"] by simp
  qed (simp_all add: demo_net_def)
  with serve show ?thesis by auto
qed

theorem streaming_call_end_to_end_witness:
  "\<exists>t1 ts' r1 r2 c.
     demo_serve (rx_of (tb_out (pump_outbound_requests leb_ref buf_send t1 [[1], [2, 3]]))) = Some (ts', 1) \<and>
     open_handshake leb_ref buf_recv buf_send ref_codecs (\<lambda>_. ''frame'') demo_open tx_new (rx_of (tb_out ts')) =
       (Inr (), t1, r1) \<and>
     pump_inbound_responses buf_recv ref_codecs (\<lambda>_. ''frame'') list_chan r1 (mp_new list_chan) = Some (r2, c) \<and>
     mp_items list_chan c = [Inr [1], Inr [2, 3]]"
proof -
  from handshake_request_written [OF demo_tx(3) buf_tx.quic_send_axioms demo_tx(1,2) demo_frames_ok(1)]
  obtain t1 where t1: "write_open_request leb_ref buf_send ref_codecs tx_new demo_open = (Inr (), t1)" .
  let ?rs = "rx_of (tb_out (pump_outbound_requests leb_ref buf_send t1 [[1], [2, 3]]))"
  have "\<exists>ts' w'. demo_serve ?rs = Some (ts', w')"
    by (rule substream_returns [OF buf_rx.quic_recv_axioms])
  then obtain ts' w' where serve: "demo_serve ?rs = Some (ts', w')" by blast
  obtain res r1 where hs: "open_handshake leb_ref buf_recv buf_send ref_codecs (\<lambda>_. ''frame'') demo_open
      tx_new (rx_of (tb_out ts')) = (res, t1, r1)"
    using handshake_send_half [OF t1, of buf_recv "\<lambda>_. ''frame''" "rx_of (tb_out ts')"]
    by (metis prod.collapse)
  have "lookup_streaming demo_registry (oreq_method_name demo_open) = Some 0" by code_simp
  moreover have "list_all (frame_ok ref_codecs) (map FRequestChunk [[1], [2, 3]])"
    "list_all (frame_ok ref_codecs) (response_frames id [Inr [1], Inr [2, 3]] (Inr (Inr ())))"
    by (simp_all add: frame_ok_def frame_bytes_def payload_within_def MAX_STREAMING_PAYLOAD_LEN_def
        join_frame_def)
  ultimately have "res = Inr () \<and> w' = 1 \<and>
    (\<exists>r2 c. pump_inbound_responses buf_recv ref_codecs (\<lambda>_. ''frame'') list_chan r1 (mp_new list_chan) =
        Some (r2, c) \<and> mp_items list_chan c = caller_items id [Inr [1], Inr [2, 3]] (Inr (Inr ())))"
    by (intro streaming_call_end_to_end [OF demo_tx(3) buf_rx.quic_recv_axioms ref_codecs_ok
          buf_tx.quic_send_axioms lc.mpsc_axioms demo_tx(1,2) demo_frames_ok(1) _ hs _ _ demo_tx(1,2) _ _
          demo_frames_ok(3) _ serve, where chunks = "[[1], [2, 3]]"]) simp_all
  moreover from this obtain r2 c where
    "pump_inbound_responses buf_recv ref_codecs (\<lambda>_. ''frame'') list_chan r1 (mp_new list_chan) = Some (r2, c)"
    "mp_items list_chan c = [Inr [1], Inr [2, 3]]" by auto
  ultimately show ?thesis using serve hs by blast
qed

text \<open>The two sides of the concrete calls: a caller that sends two chunks, and the accepted open-request.\<close>

abbreviation demo_request_stream where
  "demo_request_stream \<equiv>
     rx_of (frames_bytes ref_codecs (FOpenRequest demo_open # map FRequestChunk demo_chunks @ [FRequestEnd]))"

lemma demo_client_side:
  obtains t1 r1 res es cs where
    "open_handshake leb_ref buf_recv buf_send ref_codecs (\<lambda>_. ''frame'') demo_open tx_new r = (res, t1, r1)"
    "client_run leb_ref buf_recv buf_send ref_codecs (\<lambda>_. ''frame'') es (client_spawn r1 t1) = Some cs"
    "client_done cs" "cl_accepted cs = demo_chunks" "rb_data demo_request_stream = tb_out (cl_send cs)"
    "list_all (frame_ok ref_codecs) (map FRequestChunk (cl_accepted cs))"
proof -
  from handshake_request_written [OF demo_tx(3) buf_tx.quic_send_axioms demo_tx(1,2) demo_frames_ok(1)]
  obtain t1 where t1: "write_open_request leb_ref buf_send ref_codecs tx_new demo_open = (Inr (), t1)" "tx_healthy t1" .
  obtain res r1 where hs: "open_handshake leb_ref buf_recv buf_send ref_codecs (\<lambda>_. ''frame'') demo_open tx_new r =
      (res, t1, r1)"
    using handshake_send_half [OF t1(1), of buf_recv "\<lambda>_. ''frame''" r] by (metis prod.collapse)
  have chunks: "list_all (frame_ok ref_codecs) (map FRequestChunk demo_chunks)" using demo_chunk_frames(1) by simp
  from client_can_be_done [OF demo_tx(3) buf_rx.quic_recv_axioms buf_tx.quic_send_axioms chunks t1(2)]
  obtain es cs where cs: "client_run leb_ref buf_recv buf_send ref_codecs (\<lambda>_. ''frame'') es (client_spawn r1 t1) = Some cs"
    "client_done cs" "cl_accepted cs = demo_chunks" by blast
  obtain r2 c where "pump_inbound_responses buf_recv ref_codecs (\<lambda>_. ''frame'') list_chan r1 (mp_new list_chan) = Some (r2, c)"
    using response_pump.pump_returns [OF buf_rx.quic_recv_axioms, where C = ref_codecs and dbgf = "\<lambda>_. ''frame''"
        and M = list_chan and r = r1 and c = "mp_new list_chan"] by blast
  from client_done_result(2) [OF client_items [OF buf_rx.quic_recv_axioms lc.mpsc_axioms this cs(1)] cs(2)] cs(3)
  have sent: "cl_send cs = pump_outbound_requests leb_ref buf_send t1 demo_chunks" by simp
  have "rb_data demo_request_stream = tb_out (cl_send cs)"
    unfolding sent rb_rx_of
    using client_request_bytes [OF demo_tx(3) buf_tx.quic_send_axioms demo_tx(1,2) demo_frames_ok(1) chunks hs] by simp
  from that [OF hs cs this] show thesis using chunks unfolding cs(3) .
qed

lemma demo_server_side:
  obtains rs1 rs2 ts1 where
    "rx_exact buf_recv demo_request_stream 1 = (Inr [OPCODE_STREAMING_OPEN_REQUEST], rs1)"
    "streaming_negotiate_open leb_ref buf_recv buf_send ref_codecs demo_registry demo_env tx_new rs1 =
      (Some (0, env_context demo_env), ts1, rs2)"
    "rs2 = rx_of demo_requests" "tx_healthy ts1"
proof -
  have h: "lookup_streaming demo_registry (oreq_method_name demo_open) = Some 0" by code_simp
  have rs: "rb_data demo_request_stream =
      frames_bytes ref_codecs (FOpenRequest demo_open # map FRequestChunk demo_chunks @ [FRequestEnd])"
    "rb_end demo_request_stream = None" by simp_all
  from open_accepted [OF demo_tx(3) buf_rx.quic_recv_axioms ref_codecs_ok buf_tx.quic_send_axioms
      demo_tx(1,2) demo_frames_ok(1) rs h demo_frames_ok(3), of demo_env]
  obtain rs1 rs2 ts1 where a: "rx_exact buf_recv demo_request_stream (Suc 0) = (Inr [OPCODE_STREAMING_OPEN_REQUEST], rs1)"
    "streaming_negotiate_open leb_ref buf_recv buf_send ref_codecs demo_registry demo_env tx_new rs1 =
      (Some (0, env_context demo_env), ts1, rs2)"
    "rb_data rs2 = demo_requests" "rb_end rs2 = None" "tx_healthy ts1"
    unfolding demo_requests_def .
  from a(3,4) have "rs2 = rx_of demo_requests" by (cases rs2) (simp add: rx_of_def)
  with a show thesis by (intro that) simp_all
qed

lemma demo_streaming_handler: "lookup_streaming demo_registry (oreq_method_name demo_open) = Some 0"
  by code_simp

lemma demo_small_responses:
  "list_all (\<lambda>chunk. length chunk \<le> 100) chunks \<Longrightarrow>
    list_all (frame_ok ref_codecs) (response_frames id (map Inr chunks) (Inr (Inr ())))"
  by (induction chunks)
    (simp_all add: frame_ok_def frame_bytes_def payload_within_def MAX_STREAMING_PAYLOAD_LEN_def join_frame_def)

text \<open>The echo handler, over both sides' tasks.\<close>

theorem streaming_call_interleaved_witness:
  "\<exists>rs2 ts1 sched ss t1 r1 es cs.
     demo_tasks_run sched (call_spawn EchoAsk rs2 ts1) = Some ss \<and> ct_main ss = Closed \<and>
     open_handshake leb_ref buf_recv buf_send ref_codecs (\<lambda>_. ''frame'') demo_open tx_new (rx_of (tb_out (ct_send ss))) =
       (Inr (), t1, r1) \<and>
     client_run leb_ref buf_recv buf_send ref_codecs (\<lambda>_. ''frame'') es (client_spawn r1 t1) = Some cs \<and>
     cl_accepted cs = demo_chunks \<and> cl_taken cs = map Inr demo_chunks"
proof -
  obtain rs1 rs2 ts1 where
    a: "rx_exact buf_recv demo_request_stream 1 = (Inr [OPCODE_STREAMING_OPEN_REQUEST], rs1)"
    "streaming_negotiate_open leb_ref buf_recv buf_send ref_codecs demo_registry demo_env tx_new rs1 =
      (Some (0, env_context demo_env), ts1, rs2)" and "rs2 = rx_of demo_requests" and ts1: "tx_healthy ts1"
    by (rule demo_server_side)
  then have rs2: "rb_data rs2 = demo_requests" "rb_end rs2 = None" by simp_all
  from demo_closes [OF rs2 ts1] obtain sched ss where
    ss: "demo_tasks_run sched (call_spawn EchoAsk rs2 ts1) = Some ss" "ct_main ss = Closed" .
  obtain t1 r1 res es cs where
    hs: "open_handshake leb_ref buf_recv buf_send ref_codecs (\<lambda>_. ''frame'') demo_open tx_new
      (rx_of (tb_out (ct_send ss))) = (res, t1, r1)" and
    cs: "client_run leb_ref buf_recv buf_send ref_codecs (\<lambda>_. ''frame'') es (client_spawn r1 t1) = Some cs"
    "client_done cs" "cl_accepted cs = demo_chunks" and request: "rb_data demo_request_stream = tb_out (cl_send cs)"
    and chunks: "list_all (frame_ok ref_codecs) (map FRequestChunk (cl_accepted cs))"
    by (rule demo_client_side)
  have out: "list_all (frame_ok ref_codecs) (response_frames id (map Inr demo_chunks) (Inr (Inr ())))"
    by (rule demo_small_responses) simp
  have "res = Inr () \<and> cl_taken cs = caller_items id (map Inr demo_chunks) (Inr (Inr ()))"
    by (rule streaming_call_interleaved [where start = "\<lambda>h ctx. EchoAsk", OF demo_tx(3) buf_rx.quic_recv_axioms
          ref_codecs_ok buf_tx.quic_send_axioms lc.mpsc_axioms demo_tx(1,2) demo_frames_ok(1) hs cs(1,2) chunks request
          _ demo_tx(1,2) a demo_streaming_handler demo_frames_ok(3) _ out ss])
      (simp_all add: cs(3) echo_run del: list.map)
  then have "cl_taken cs = map Inr demo_chunks" "res = Inr ()" by simp_all
  with ss hs cs show ?thesis by blast
qed

text \<open>The handler that sends before it reads and takes one request of two.\<close>

theorem streaming_call_any_handler_witness:
  "\<exists>rs2 ts1 sched ss t1 r1 es cs.
     demo_any_run sched (any_spawn rs2 ts1) = Some ss \<and> ct_main (ac_tasks ss) = Closed \<and>
     open_handshake leb_ref buf_recv buf_send ref_codecs (\<lambda>_. ''frame'') demo_open tx_new
       (rx_of (tb_out (ct_send (ac_tasks ss)))) = (Inr (), t1, r1) \<and>
     client_run leb_ref buf_recv buf_send ref_codecs (\<lambda>_. ''frame'') es (client_spawn r1 t1) = Some cs \<and>
     ac_taken ss = [Inr [1]] \<and> cl_accepted cs = [[1], [2, 3]] \<and> cl_taken cs = [Inr [9], Inr [1]]"
proof -
  obtain rs1 rs2 ts1 where
    a: "rx_exact buf_recv demo_request_stream 1 = (Inr [OPCODE_STREAMING_OPEN_REQUEST], rs1)"
    "streaming_negotiate_open leb_ref buf_recv buf_send ref_codecs demo_registry demo_env tx_new rs1 =
      (Some (0, env_context demo_env), ts1, rs2)" and rs2: "rs2 = rx_of demo_requests" and ts1: "tx_healthy ts1"
    by (rule demo_server_side)
  from ts1 obtain s ss where
    ss: "demo_any_run (demo_events @ [MainTask]) (any_spawn (rx_of demo_requests) ts1) = Some ss"
    "ct_main (ac_tasks ss) = Closed" "ct_handler (ac_tasks ss) = Joined (Inr (Inr ()))" and
    trace: "ac_taken ss = [Inr [1]]" "ac_sent ss = [Inr [9], Inr [1]]" by (rule demo_run_any)
  obtain t1 r1 res es cs where
    hs: "open_handshake leb_ref buf_recv buf_send ref_codecs (\<lambda>_. ''frame'') demo_open tx_new
      (rx_of (tb_out (ct_send (ac_tasks ss)))) = (res, t1, r1)" and
    cs: "client_run leb_ref buf_recv buf_send ref_codecs (\<lambda>_. ''frame'') es (client_spawn r1 t1) = Some cs"
    "client_done cs" "cl_accepted cs = demo_chunks" and request: "rb_data demo_request_stream = tb_out (cl_send cs)"
    and chunks: "list_all (frame_ok ref_codecs) (map FRequestChunk (cl_accepted cs))"
    by (rule demo_client_side)
  have out: "list_all (frame_ok ref_codecs) (response_frames id (ac_sent ss) (Inr (Inr ())))"
    using demo_small_responses [of "[[9], [1]]"] by (simp add: trace)
  have "res = Inr () \<and> cl_taken cs = caller_items id (ac_sent ss) (Inr (Inr ())) \<and>
      prefix (ac_taken ss) (map Inr (cl_accepted cs)) \<and> (ac_end_seen ss \<longrightarrow> ac_taken ss = map Inr (cl_accepted cs))"
    by (rule streaming_call_any_handler [OF demo_tx(3) buf_rx.quic_recv_axioms
          ref_codecs_ok buf_tx.quic_send_axioms lc.mpsc_axioms demo_tx(1,2) demo_frames_ok(1) hs cs(1,2) chunks request
          _ demo_tx(1,2) a demo_streaming_handler demo_frames_ok(3) ss(1) [folded rs2] ss(2,3) out]) simp_all
  with trace have "cl_taken cs = [Inr [9], Inr [1]]" "res = Inr ()" by simp_all
  with ss trace hs cs rs2 show ?thesis by blast
qed

end
